(* ===== verification/Prelude.thy ===== *)
theory Prelude
  imports Main "HOL-Library.Word" "HOL-Library.AList" "HOL-Library.Sublist"
begin

text \<open>
  What every component of the library uses: the values of Python as one datatype, Python's
  insertion-ordered dictionaries as association lists behind a small interface, the exceptions
  of the program as values, decimal printing and parsing, string splitting, and slices of
  byte buffers with Python's treatment of negative and out-of-range bounds.
\<close>

named_theorems py_simps \<open>unfolding of the Python primitives\<close>

unbundle bit_operations_syntax

section \<open>Bytes and values\<close>

type_synonym byte = "8 word"
type_synonym bytes = "byte list"

text \<open>
  The values that a message can carry. A float is its 64 bits, a dictionary the list of its
  items in insertion order, \<open>PView\<close> a memoryview with the bytes it shows, and \<open>PObj\<close> an
  instance of any other class (an opaque identity). Strings are lists of characters; only
  equality, concatenation, splitting and lower-casing of ASCII letters are used on them.
\<close>

datatype pyval =
    PNone
  | PBool bool
  | PInt int
  | PFloat "64 word"
  | PStr string
  | PBytes bytes
  | PByteArray bytes
  | PView bytes
  | PList "pyval list"
  | PTuple "pyval list"
  | PDict "(pyval \<times> pyval) list"
  | PObj nat

text \<open>Truthiness, as \<open>if x\<close> and \<open>x or y\<close> use it (instances are true by default).\<close>

fun truthy :: "pyval \<Rightarrow> bool" where
  "truthy PNone = False"
| "truthy (PBool b) = b"
| "truthy (PInt i) = (i \<noteq> 0)"
| "truthy (PFloat w) = (w AND 0x7FFFFFFFFFFFFFFF \<noteq> 0)"
| "truthy (PStr s) = (s \<noteq> [])"
| "truthy (PBytes b) = (b \<noteq> [])"
| "truthy (PByteArray b) = (b \<noteq> [])"
| "truthy (PView b) = (b \<noteq> [])"
| "truthy (PList xs) = (xs \<noteq> [])"
| "truthy (PTuple xs) = (xs \<noteq> [])"
| "truthy (PDict d) = (d \<noteq> [])"
| "truthy (PObj _) = True"

section \<open>Dictionaries\<close>

text \<open>
  A Python dictionary keeps its items in insertion order: assigning to a present key replaces
  the value in place, a new key goes to the end, deleting keeps the order of the rest. That is
  \<open>AList.update\<close>, \<open>AList.delete\<close> and \<open>map_of\<close> on the list of items.
\<close>

type_synonym ('k, 'v) pydict = "('k \<times> 'v) list"

abbreviation dget :: "('k, 'v) pydict \<Rightarrow> 'k \<Rightarrow> 'v option" where
  "dget d k \<equiv> map_of d k"

abbreviation dset :: "'k \<Rightarrow> 'v \<Rightarrow> ('k, 'v) pydict \<Rightarrow> ('k, 'v) pydict" where
  "dset \<equiv> AList.update"

abbreviation dpop :: "'k \<Rightarrow> ('k, 'v) pydict \<Rightarrow> ('k, 'v) pydict" where
  "dpop \<equiv> AList.delete"

abbreviation dkeys :: "('k, 'v) pydict \<Rightarrow> 'k set" where
  "dkeys d \<equiv> fst ` set d"

text \<open>
  The interface that the components which keep registries (pending calls, chunk transfers,
  subscriptions, cleanups) rely on, with the facts they use.
\<close>

locale dict_store =
  fixes lookup :: "'d \<Rightarrow> 'k \<Rightarrow> 'v option"
    and store :: "'k \<Rightarrow> 'v \<Rightarrow> 'd \<Rightarrow> 'd"
    and remove :: "'k \<Rightarrow> 'd \<Rightarrow> 'd"
    and empty :: "'d"
    and keys :: "'d \<Rightarrow> 'k set"
  assumes lookup_empty: "lookup empty k = None"
    and lookup_store: "lookup (store k v d) k' = (if k = k' then Some v else lookup d k')"
    and lookup_remove: "lookup (remove k d) k' = (if k = k' then None else lookup d k')"
    and keys_lookup: "keys d = {k. lookup d k \<noteq> None}"
begin

lemma keys_store: "keys (store k v d) = insert k (keys d)"
  by (auto simp: keys_lookup lookup_store)

lemma keys_remove: "keys (remove k d) = keys d - {k}"
  by (auto simp: keys_lookup lookup_remove)

lemma keys_empty: "keys empty = {}"
  by (simp add: keys_lookup lookup_empty)

lemma in_keys_iff: "k \<in> keys d \<longleftrightarrow> (\<exists>v. lookup d k = Some v)"
  by (auto simp: keys_lookup)

lemma removed_once: "lookup (remove k d) k = None"
  by (simp add: lookup_remove)

lemma remove_other: "k \<noteq> k' \<Longrightarrow> lookup (remove k d) k' = lookup d k'"
  by (simp add: lookup_remove)

lemma remove_store_same:
  "lookup d k = None \<Longrightarrow> lookup (remove k (store k v d)) = lookup d"
  by (rule ext) (auto simp: lookup_store lookup_remove)

lemma remove_absent: "lookup d k = None \<Longrightarrow> lookup (remove k d) = lookup d"
  by (rule ext) (auto simp: lookup_remove)

lemma remove_store_keys: "k \<notin> keys d \<Longrightarrow> keys (remove k (store k v d)) = keys d"
  by (simp add: keys_store keys_remove)

end

interpretation pd: dict_store map_of AList.update AList.delete "[]" dkeys
proof unfold_locales
  fix k :: 'a and v :: 'b and d :: "('a \<times> 'b) list" and k' :: 'a
  show "map_of [] k = (None :: 'b option)" by simp
  show "map_of (AList.update k v d) k' = (if k = k' then Some v else map_of d k')"
    by (auto simp: update_conv')
  show "map_of (AList.delete k d) k' = (if k = k' then None else map_of d k')"
    by (auto simp: delete_conv')
  show "dkeys d = {k. map_of d k \<noteq> None}"
    by (auto simp: map_of_eq_None_iff)
qed

lemmas dict_simps [simp] =
  pd.lookup_store pd.lookup_remove pd.keys_store pd.keys_remove

text \<open>String-keyed access to a message dictionary: \<open>d.get(name)\<close>.\<close>

definition sget :: "(pyval \<times> pyval) list \<Rightarrow> string \<Rightarrow> pyval option" where
  "sget d k = map_of d (PStr k)"

definition sget_or_none :: "(pyval \<times> pyval) list \<Rightarrow> string \<Rightarrow> pyval" where
  "sget_or_none d k = (case sget d k of None \<Rightarrow> PNone | Some v \<Rightarrow> v)"

lemma sget_Cons [simp]:
  "sget ((PStr k, v) # d) k' = (if k = k' then Some v else sget d k')"
  by (simp add: sget_def)

lemma sget_Nil [simp]: "sget [] k = None"
  by (simp add: sget_def)

lemma sget_or_none_Cons [simp]:
  "sget_or_none ((PStr k, v) # d) k' = (if k = k' then v else sget_or_none d k')"
  by (simp add: sget_or_none_def)

lemma sget_or_none_Nil [simp]: "sget_or_none [] k = PNone"
  by (simp add: sget_or_none_def)

section \<open>Buffers and slices\<close>

text \<open>\<open>xs[a:b]\<close> for bounds that are not negative.\<close>

definition slice :: "nat \<Rightarrow> nat \<Rightarrow> 'a list \<Rightarrow> 'a list" where
  "slice a b xs = take (b - a) (drop a xs)"

text \<open>
  A slice bound of Python: negative bounds count from the end, and both ends are clamped to
  the buffer. Assigning to a slice of a bytearray replaces that part by the new bytes, which
  need not have the same number; a stop before the start makes it an insertion at the start.
\<close>

definition slice_bound :: "nat \<Rightarrow> int \<Rightarrow> nat" where
  "slice_bound n i = (if i < 0 then nat (max 0 (int n + i)) else min n (nat i))"

definition set_slice :: "int \<Rightarrow> int \<Rightarrow> 'a list \<Rightarrow> 'a list \<Rightarrow> 'a list" where
  "set_slice i j new buf =
     (let a = slice_bound (length buf) i; b = max a (slice_bound (length buf) j)
      in take a buf @ new @ drop b buf)"

definition py_slice :: "int \<Rightarrow> int \<Rightarrow> 'a list \<Rightarrow> 'a list" where
  "py_slice i j xs = slice (slice_bound (length xs) i) (slice_bound (length xs) j) xs"

lemma py_slice_nat: "py_slice (int a) (int b) xs = slice a b xs"
proof (cases "a \<le> length xs")
  case True
  then show ?thesis by (simp add: py_slice_def slice_bound_def slice_def min_def)
next
  case False
  then show ?thesis by (simp add: py_slice_def slice_bound_def slice_def)
qed

text \<open>Overwriting inside the buffer, as the assembler does for chunks that fit.\<close>

definition overwrite :: "nat \<Rightarrow> 'a list \<Rightarrow> 'a list \<Rightarrow> 'a list" where
  "overwrite off new buf = take off buf @ new @ drop (off + length new) buf"

lemma length_slice [simp]: "length (slice a b xs) = min (b - a) (length xs - a)"
  by (simp add: slice_def)

lemma length_overwrite:
  "off + length new \<le> length buf \<Longrightarrow> length (overwrite off new buf) = length buf"
  by (simp add: overwrite_def)

lemma set_slice_overwrite:
  assumes "off + length new \<le> length buf"
  shows "set_slice (int off) (int (off + length new)) new buf = overwrite off new buf"
  using assms by (simp add: set_slice_def slice_bound_def overwrite_def Let_def max_def nat_int_add)

lemma set_slice_tail:
  assumes "off \<le> length buf"
  shows "set_slice (int off) (int (length buf)) new buf = take off buf @ new"
  using assms by (simp add: set_slice_def slice_bound_def Let_def)

lemma nth_overwrite:
  assumes "off + length new \<le> length buf" "i < length buf"
  shows "overwrite off new buf ! i =
    (if off \<le> i \<and> i < off + length new then new ! (i - off) else buf ! i)"
  using assms by (auto simp: overwrite_def nth_append min_def)

lemma slice_append_mid:
  "slice (length xs) (length xs + length ys) (xs @ ys @ zs) = ys"
  by (simp add: slice_def)

section \<open>Decimal numbers\<close>

definition digit_char :: "nat \<Rightarrow> char" where
  "digit_char d = char_of (48 + d)"

fun show_nat :: "nat \<Rightarrow> string" where
  "show_nat n = (if n < 10 then [digit_char n] else show_nat (n div 10) @ [digit_char (n mod 10)])"

declare show_nat.simps [simp del]

definition show_int :: "int \<Rightarrow> string" where
  "show_int i = (if i < 0 then ''-'' @ show_nat (nat (- i)) else show_nat (nat i))"

definition is_digit :: "char \<Rightarrow> bool" where
  "is_digit c \<longleftrightarrow> 48 \<le> (of_char c :: nat) \<and> (of_char c :: nat) \<le> 57"

text \<open>
  \<open>int(s)\<close>: an optional sign and decimal digits, anything else raises \<open>ValueError\<close>
  (\<open>None\<close> here). Surrounding blanks and underscores between digits, which Python also
  accepts, are not numbers of this protocol.
\<close>

definition digits_value :: "string \<Rightarrow> nat" where
  "digits_value s = foldl (\<lambda>v c. 10 * v + (of_char c - 48)) 0 s"

definition parse_digits :: "string \<Rightarrow> nat option" where
  "parse_digits s = (if s \<noteq> [] \<and> list_all is_digit s then Some (digits_value s) else None)"

definition parse_int :: "string \<Rightarrow> int option" where
  "parse_int s = (case s of
      [] \<Rightarrow> None
    | c # cs \<Rightarrow> if c = CHR ''-'' then map_option (\<lambda>n. - int n) (parse_digits cs)
                else if c = CHR ''+'' then map_option int (parse_digits cs)
                else map_option int (parse_digits s))"

lemma digit_char_numerals [simp]:
  "digit_char 0 = CHR ''0''" "digit_char (Suc 0) = CHR ''1''" "digit_char 1 = CHR ''1''"
  "digit_char 2 = CHR ''2''" "digit_char 3 = CHR ''3''" "digit_char 4 = CHR ''4''"
  "digit_char 5 = CHR ''5''" "digit_char 6 = CHR ''6''" "digit_char 7 = CHR ''7''"
  "digit_char 8 = CHR ''8''" "digit_char 9 = CHR ''9''"
  by code_simp+

lemma of_digit_char: "d < 10 \<Longrightarrow> (of_char (digit_char d) :: nat) = 48 + d"
  by (simp add: digit_char_def)

lemma is_digit_digit_char: "d < 10 \<Longrightarrow> is_digit (digit_char d)"
  by (simp add: is_digit_def of_digit_char)

lemma show_nat_digits: "list_all is_digit (show_nat n) \<and> show_nat n \<noteq> []"
proof (induction n rule: show_nat.induct)
  case (1 n)
  then show ?case
    by (cases "n < 10") (simp_all add: show_nat.simps [of n] is_digit_digit_char)
qed

lemma digits_value_show_nat: "digits_value (show_nat n) = n"
proof (induction n rule: show_nat.induct)
  case (1 n)
  then show ?case
    by (cases "n < 10") (simp_all add: show_nat.simps [of n] digits_value_def of_digit_char)
qed

lemma parse_digits_show_nat: "parse_digits (show_nat n) = Some n"
  using show_nat_digits [of n] by (simp add: parse_digits_def digits_value_show_nat)

lemma parse_int_show_nat [simp]: "parse_int (show_nat n) = Some (int n)"
proof -
  obtain c cs where s: "show_nat n = c # cs"
    using show_nat_digits [of n] by (cases "show_nat n") auto
  have "is_digit c"
    using show_nat_digits [of n] by (simp add: s)
  then have "c \<noteq> CHR ''-'' \<and> c \<noteq> CHR ''+''"
    by (auto simp: is_digit_def)
  then show ?thesis
    using parse_digits_show_nat [of n] by (simp add: parse_int_def s)
qed

lemma show_nat_inject [simp]: "show_nat m = show_nat n \<longleftrightarrow> m = n"
  by (metis digits_value_show_nat)

section \<open>Strings\<close>

definition lower_char :: "char \<Rightarrow> char" where
  "lower_char c = (let n = of_char c :: nat in if 65 \<le> n \<and> n \<le> 90 then char_of (n + 32) else c)"

definition lower :: "string \<Rightarrow> string" where
  "lower s = map lower_char s"

text \<open>\<open>sep.join(parts)\<close> and \<open>s.split(c)\<close> for a one-character separator.\<close>

fun join_with :: "string \<Rightarrow> string list \<Rightarrow> string" where
  "join_with sep [] = []"
| "join_with sep [s] = s"
| "join_with sep (s # t # ss) = s @ sep @ join_with sep (t # ss)"

fun split_on :: "char \<Rightarrow> string \<Rightarrow> string list" where
  "split_on c [] = [[]]"
| "split_on c (x # xs) =
     (if x = c then [] # split_on c xs
      else (case split_on c xs of [] \<Rightarrow> [[x]] | p # ps \<Rightarrow> (x # p) # ps))"

abbreviation dots :: "string list \<Rightarrow> string" where
  "dots \<equiv> join_with ''.''"

lemma split_on_neq_Nil [simp]: "split_on c s \<noteq> []"
  by (induction s) (auto split: list.splits)

lemma split_on_no_sep: "c \<notin> set s \<Longrightarrow> split_on c s = [s]"
  by (induction s) auto

lemma split_on_append_sep:
  "c \<notin> set s \<Longrightarrow> split_on c (s @ c # t) = s # split_on c t"
  by (induction s) auto

lemma split_join:
  "ss \<noteq> [] \<Longrightarrow> \<forall>s \<in> set ss. c \<notin> set s \<Longrightarrow> split_on c (join_with [c] ss) = ss"
proof (induction ss rule: induct_list012)
  case (3 s t ss)
  then show ?case by (simp add: split_on_append_sep)
qed (simp_all add: split_on_no_sep)

end
