(* ===== verification/Once.thy ===== *)
theory Once
  imports Prelude
begin

text \<open>
  The contract of everything that must happen at most once in the life of an object whose events
  come in any order: the code keeps a flag, does the work only when the flag is down, and raises it
  when it does. Sessions, callback subscriptions and channels rely on it.
\<close>

locale once =
  fixes step :: "'e \<Rightarrow> 's \<Rightarrow> 's"
    and marked :: "'s \<Rightarrow> bool"
    and count :: "'s \<Rightarrow> nat"
  assumes marked_stays: "marked s \<Longrightarrow> marked (step e s) \<and> count (step e s) = count s"
    and counts_once: "\<not> marked s \<Longrightarrow> count (step e s) = count s \<or> marked (step e s) \<and> count (step e s) = Suc (count s)"
begin

lemma marked_run: "marked s \<Longrightarrow> marked (fold step es s) \<and> count (fold step es s) = count s"
  by (induction es arbitrary: s) (auto simp: marked_stays)

lemma count_run: "count (fold step es s) \<le> Suc (count s)"
proof (induction es arbitrary: s)
  case (Cons e es)
  show ?case
  proof (cases "marked (step e s)")
    case True
    then have "count (fold step es (step e s)) = count (step e s)" by (simp add: marked_run)
    then show ?thesis using marked_stays [of s e] counts_once [of s e] by (cases "marked s") auto
  next
    case False
    then have "count (step e s) = count s" using marked_stays [of s e] counts_once [of s e] by (cases "marked s") auto
    then show ?thesis using Cons.IH [of "step e s"] by simp
  qed
qed simp

lemma at_most_once: "count s = 0 \<Longrightarrow> count (fold step es s) \<le> 1"
  using count_run [of es s] by simp

lemma unmarked_uncounted: "\<not> marked (fold step es s) \<Longrightarrow> count (fold step es s) = count s"
proof (induction es arbitrary: s)
  case (Cons e es)
  have "\<not> marked (step e s)" using Cons.prems marked_run [of "step e s" es] by auto
  then have "count (step e s) = count s" using marked_stays [of s e] counts_once [of s e] by (cases "marked s") auto
  then show ?case using Cons.IH [of "step e s"] Cons.prems by simp
qed simp

end

end
