(* ===== verification/Errors.thy ===== *)
theory Errors
  imports Prelude
begin

text \<open>
  \<open>types.py\<close> (\<open>ErrorCode\<close>, \<open>RPCError\<close>) and \<open>errors.py\<close>: the error codes, the exception class
  \<open>RPCException\<close> with its dictionary form on the wire, and the exceptions of the program as
  values. \<open>format_error_dict\<close> of \<open>handler.py\<close>, which turns any exception into the wire form,
  is here too.
\<close>

section \<open>Error codes\<close>

datatype error_code =
    METHOD_NOT_FOUND
  | INVALID_PARAMS
  | INTERNAL_ERROR
  | TIMEOUT
  | CONNECTION_CLOSED
  | STREAM_ERROR
  | PAYLOAD_TOO_LARGE
  | NOT_FOUND

fun code_value :: "error_code \<Rightarrow> string" where
  "code_value METHOD_NOT_FOUND = ''METHOD_NOT_FOUND''"
| "code_value INVALID_PARAMS = ''INVALID_PARAMS''"
| "code_value INTERNAL_ERROR = ''INTERNAL_ERROR''"
| "code_value TIMEOUT = ''TIMEOUT''"
| "code_value CONNECTION_CLOSED = ''CONNECTION_CLOSED''"
| "code_value STREAM_ERROR = ''STREAM_ERROR''"
| "code_value PAYLOAD_TOO_LARGE = ''PAYLOAD_TOO_LARGE''"
| "code_value NOT_FOUND = ''NOT_FOUND''"

text \<open>\<open>ErrorCode\<close> is an enumeration: its members can be listed, so that what holds of each is decided by evaluation.\<close>

instantiation error_code :: enum
begin

definition enum_error_code :: "error_code list" where
  "enum_error_code = [METHOD_NOT_FOUND, INVALID_PARAMS, INTERNAL_ERROR, TIMEOUT, CONNECTION_CLOSED, STREAM_ERROR,
     PAYLOAD_TOO_LARGE, NOT_FOUND]"

definition enum_all_error_code :: "(error_code \<Rightarrow> bool) \<Rightarrow> bool" where
  "enum_all_error_code P = list_all P enum_class.enum"

definition enum_ex_error_code :: "(error_code \<Rightarrow> bool) \<Rightarrow> bool" where
  "enum_ex_error_code P = list_ex P enum_class.enum"

instance
proof
  show all: "(UNIV :: error_code set) = set enum_class.enum"
    by (auto simp: enum_error_code_def intro: error_code.exhaust)
  show "distinct (enum_class.enum :: error_code list)" by (simp add: enum_error_code_def)
  show "enum_class.enum_all P \<longleftrightarrow> Ball (UNIV :: error_code set) P"
    "enum_class.enum_ex P \<longleftrightarrow> Bex (UNIV :: error_code set) P" for P
    unfolding enum_all_error_code_def enum_ex_error_code_def list_all_iff list_ex_iff all by (rule refl)+
qed

end

text \<open>No two members have the same value, and none is the status \<open>503\<close> that the retry loop looks for.\<close>

lemma code_values: "distinct (map code_value Enum.enum)" "list_all (\<lambda>c. code_value c \<noteq> ''503'') Enum.enum"
  by (simp_all add: enum_error_code_def)

lemma code_value_inject [simp]: "code_value c = code_value c' \<longleftrightarrow> c = c'"
  using code_values(1) UNIV_enum [where 'a = error_code] by (auto simp: distinct_map inj_on_def)

lemma code_value_not_503: "code_value c \<noteq> ''503''"
  using code_values(2) UNIV_enum [where 'a = error_code] by (auto simp: list_all_iff)

section \<open>Exceptions\<close>

text \<open>
  \<open>RPCException\<close>: code and message are strings in the program, but \<open>from_dict\<close> takes whatever
  the wire carried, so they are values.
\<close>

record rpc_exception =
  exc_code :: pyval
  exc_message :: pyval
  exc_data :: pyval

text \<open>
  The other exceptions that the program raises or receives: Python's built-in classes with
  their message (\<open>UserError\<close> is any class that a handler of the application raises), and
  nats-py's \<open>NoRespondersError\<close>, which the retry logic knows by its class.
\<close>

datatype pyclass =
    ValueError
  | KeyError
  | TypeError
  | IndexError
  | AttributeError
  | RuntimeError
  | TimeoutError
  | StructError
  | ZeroDivisionError
  | UserError

datatype exc =
    RPC rpc_exception
  | NoResponders string
  | Raised pyclass string

text \<open>An \<open>RPCError\<close> dictionary: \<open>to_dict\<close> writes all three keys.\<close>

definition to_dict :: "rpc_exception \<Rightarrow> (pyval \<times> pyval) list" where
  "to_dict e = [(PStr ''code'', exc_code e), (PStr ''message'', exc_message e),
                (PStr ''data'', exc_data e)]"

text \<open>
  \<open>RPCException.from_dict(error)\<close>: indexing anything but a dictionary by a string raises
  \<open>TypeError\<close>, a missing code or message \<open>KeyError\<close>; \<open>data\<close> is optional.
\<close>

definition from_dict :: "pyval \<Rightarrow> exc + rpc_exception" where
  "from_dict v = (case v of
      PDict d \<Rightarrow>
        (case sget d ''code'' of
           None \<Rightarrow> Inl (Raised KeyError ''code'')
         | Some c \<Rightarrow>
             (case sget d ''message'' of
                None \<Rightarrow> Inl (Raised KeyError ''message'')
              | Some m \<Rightarrow> Inr \<lparr>exc_code = c, exc_message = m, exc_data = sget_or_none d ''data''\<rparr>))
    | _ \<Rightarrow> Inl (Raised TypeError ''not subscriptable by a string''))"

definition create_error :: "error_code + string \<Rightarrow> string \<Rightarrow> pyval \<Rightarrow> rpc_exception" where
  "create_error code message data =
     (let c = (case code of Inl k \<Rightarrow> code_value k | Inr s \<Rightarrow> s)
      in \<lparr>exc_code = PStr c, exc_message = PStr message, exc_data = data\<rparr>)"

definition create_error_from_dict :: "(pyval \<times> pyval) list \<Rightarrow> rpc_exception" where
  "create_error_from_dict d =
     \<lparr>exc_code = (case sget d ''code'' of None \<Rightarrow> PStr (code_value INTERNAL_ERROR) | Some c \<Rightarrow> c),
      exc_message = (case sget d ''message'' of None \<Rightarrow> PStr ''Unknown error'' | Some m \<Rightarrow> m),
      exc_data = sget_or_none d ''data''\<rparr>"

text \<open>
  \<open>__str__\<close>, with \<open>show\<close> for Python's formatting of a value (strings format as themselves).
\<close>

definition rpc_str :: "(pyval \<Rightarrow> string) \<Rightarrow> rpc_exception \<Rightarrow> string" where
  "rpc_str show e =
     (if truthy (exc_data e)
      then ''['' @ show (exc_code e) @ ''] '' @ show (exc_message e) @ '' (data: '' @ show (exc_data e) @ '')''
      else ''['' @ show (exc_code e) @ ''] '' @ show (exc_message e))"

text \<open>
  \<open>str(e)\<close> of an exception. nats-py's \<open>NoRespondersError\<close> and \<open>KeyError\<close> format their argument
  in their own way, which only \<open>show_exc\<close> of the caller knows; the rest show the message.
\<close>

definition exc_str :: "(pyval \<Rightarrow> string) \<Rightarrow> (string \<Rightarrow> string) \<Rightarrow> exc \<Rightarrow> string" where
  "exc_str show nrs e = (case e of
      RPC r \<Rightarrow> rpc_str show r
    | NoResponders s \<Rightarrow> nrs s
    | Raised k m \<Rightarrow> if k = KeyError then CHR 0x27 # m @ [CHR 0x27] else m)"

section \<open>The wire form of any exception\<close>

definition format_error_dict :: "(exc \<Rightarrow> string) \<Rightarrow> exc \<Rightarrow> (pyval \<times> pyval) list" where
  "format_error_dict str e = (case e of
      RPC r \<Rightarrow> to_dict r
    | _ \<Rightarrow> [(PStr ''code'', PStr (code_value INTERNAL_ERROR)), (PStr ''message'', PStr (str e))])"

lemma from_dict_to_dict: "from_dict (PDict (to_dict e)) = Inr e"
  by (simp add: from_dict_def to_dict_def)

lemma from_dict_create_error_from_dict:
  "from_dict (PDict d) = Inr e \<Longrightarrow> create_error_from_dict d = e"
  by (auto simp: from_dict_def create_error_from_dict_def split: option.splits)

lemma from_dict_Inr_iff:
  "(\<exists>e. from_dict v = Inr e) \<longleftrightarrow>
   (\<exists>d c m. v = PDict d \<and> sget d ''code'' = Some c \<and> sget d ''message'' = Some m)"
  by (auto simp: from_dict_def split: pyval.splits option.splits)

lemma from_dict_format_error_dict:
  "\<exists>r. from_dict (PDict (format_error_dict str e)) = Inr r \<and>
       (case e of RPC x \<Rightarrow> r = x
        | _ \<Rightarrow> r = create_error (Inl INTERNAL_ERROR) (str e) PNone)"
  by (cases e) (simp_all add: format_error_dict_def from_dict_def to_dict_def create_error_def)

end
