(* ===== verification/Codec.thy ===== *)
theory Codec
  imports Prelude Errors
begin

text \<open>
  \<open>codec.py\<close>: the wire codec. Binaries of at least \<open>BINARY_EXTRACT_THRESHOLD\<close> bytes travel
  after the msgpack envelope of a message, in a frame
  \<^verbatim>\<open>"CUIB" | u32 LE envelope length | envelope | segment 0 | segment 1 | ...\<close>
  and their place in the envelope is taken by a placeholder map. The msgpack coder itself
  (\<open>ormsgpack\<close>) is no part of the repository: \<open>pack\<close> and \<open>unpack\<close> are parameters.
\<close>

section \<open>Encoding\<close>

definition BINARY_EXTRACT_THRESHOLD :: nat where
  "BINARY_EXTRACT_THRESHOLD = 16384"

definition MAGIC :: bytes where
  "MAGIC = [0x43, 0x55, 0x49, 0x42]"

definition HEADER_SIZE :: nat where
  "HEADER_SIZE = 8"

definition PLACEHOLDER_KEY :: string where
  "PLACEHOLDER_KEY = ''__cui_bin__''"

definition as_extractable_segment :: "pyval \<Rightarrow> bytes option" where
  "as_extractable_segment v = (case v of
      PBytes b \<Rightarrow> if BINARY_EXTRACT_THRESHOLD \<le> length b then Some b else None
    | PByteArray b \<Rightarrow> if BINARY_EXTRACT_THRESHOLD \<le> length b then Some b else None
    | PView b \<Rightarrow> if length b < BINARY_EXTRACT_THRESHOLD then None else Some b
    | _ \<Rightarrow> None)"

definition placeholder :: "nat \<Rightarrow> nat \<Rightarrow> pyval" where
  "placeholder i n = PDict [(PStr PLACEHOLDER_KEY, PInt (int i)), (PStr ''l'', PInt (int n))]"

text \<open>The exact-type test that lets the traversal skip scalar leaves.\<close>

fun scalar_leaf :: "pyval \<Rightarrow> bool" where
  "scalar_leaf (PStr _) = True"
| "scalar_leaf (PInt _) = True"
| "scalar_leaf (PFloat _) = True"
| "scalar_leaf (PBool _) = True"
| "scalar_leaf PNone = True"
| "scalar_leaf _ = False"

text \<open>
  The copy-on-write transform. The first component is \<open>None\<close> when the very same object is
  returned (the code's \<open>transformed is item\<close>), and \<open>Some\<close> of the fresh copy otherwise; the
  list of segments grows as extracted binaries are found. A tuple that changes is copied into
  a list.
\<close>

fun extract_binaries :: "pyval \<Rightarrow> bytes list \<Rightarrow> pyval option \<times> bytes list"
  and extract_items :: "(pyval \<times> pyval) list \<Rightarrow> bytes list \<Rightarrow> (pyval \<times> pyval) list option \<times> bytes list"
  and extract_elems :: "pyval list \<Rightarrow> bytes list \<Rightarrow> pyval list option \<times> bytes list"
where
  "extract_binaries (PDict d) segs =
     (case extract_items d segs of (r, segs') \<Rightarrow> (map_option PDict r, segs'))"
| "extract_binaries (PList xs) segs =
     (case extract_elems xs segs of (r, segs') \<Rightarrow> (map_option PList r, segs'))"
| "extract_binaries (PTuple xs) segs =
     (case extract_elems xs segs of (r, segs') \<Rightarrow> (map_option PList r, segs'))"
| "extract_binaries v segs =
     (case as_extractable_segment v of
        Some seg \<Rightarrow> (Some (placeholder (length segs) (length seg)), segs @ [seg])
      | None \<Rightarrow> (None, segs))"
| "extract_items [] segs = (None, segs)"
| "extract_items ((k, x) # d) segs =
     (case (if scalar_leaf x then (None, segs) else extract_binaries x segs) of
        (t, segs1) \<Rightarrow>
          (case extract_items d segs1 of
             (r, segs2) \<Rightarrow>
               (if t = None \<and> r = None then None
                else Some ((k, case t of None \<Rightarrow> x | Some y \<Rightarrow> y) # (case r of None \<Rightarrow> d | Some e \<Rightarrow> e)),
                segs2)))"
| "extract_elems [] segs = (None, segs)"
| "extract_elems (x # xs) segs =
     (case (if scalar_leaf x then (None, segs) else extract_binaries x segs) of
        (t, segs1) \<Rightarrow>
          (case extract_elems xs segs1 of
             (r, segs2) \<Rightarrow>
               (if t = None \<and> r = None then None
                else Some ((case t of None \<Rightarrow> x | Some y \<Rightarrow> y) # (case r of None \<Rightarrow> xs | Some e \<Rightarrow> e)),
                segs2)))"

text \<open>The little-endian 32-bit length field, \<open>struct.Struct("<I")\<close>.\<close>

definition le32 :: "nat \<Rightarrow> bytes" where
  "le32 n = [of_nat n, of_nat (n div 256), of_nat (n div 65536), of_nat (n div 16777216)]"

definition le32_value :: "bytes \<Rightarrow> nat" where
  "le32_value b = (case b of
      [b0, b1, b2, b3] \<Rightarrow> unat b0 + 256 * unat b1 + 65536 * unat b2 + 16777216 * unat b3
    | _ \<Rightarrow> 0)"

definition encode_message :: "(pyval \<Rightarrow> exc + bytes) \<Rightarrow> pyval \<Rightarrow> exc + bytes" where
  "encode_message pack data =
     (case extract_binaries data [] of
        (t, segments) \<Rightarrow>
          if segments = [] then pack data
          else
            (case pack (case t of None \<Rightarrow> data | Some v \<Rightarrow> v) of
               Inl e \<Rightarrow> Inl e
             | Inr envelope \<Rightarrow>
                 if length envelope < 2 ^ 32
                 then Inr (MAGIC @ le32 (length envelope) @ envelope @ concat segments)
                 else Inl (Raised StructError ''argument out of range'')))"

section \<open>Decoding\<close>

text \<open>
  The strict placeholder test, with the index and the length it carries. Booleans are no
  integers here, as \<open>type(index) is int\<close> demands.
\<close>

fun placeholder_of :: "pyval \<Rightarrow> (nat \<times> nat) option" where
  "placeholder_of (PDict d) =
     (if length d \<noteq> 2 then None
      else (case (sget d PLACEHOLDER_KEY, sget d ''l'') of
              (Some (PInt i), Some (PInt n)) \<Rightarrow>
                if 0 \<le> i \<and> 0 \<le> n then Some (nat i, nat n) else None
            | _ \<Rightarrow> None))"
| "placeholder_of _ = None"

definition is_binary_placeholder :: "pyval \<Rightarrow> bool" where
  "is_binary_placeholder v \<longleftrightarrow> placeholder_of v \<noteq> None"

record restore_state =
  rs_offset :: nat
  rs_next :: nat
  rs_out_of_order :: bool

definition restore_init :: "nat \<Rightarrow> restore_state" where
  "restore_init offset = \<lparr>rs_offset = offset, rs_next = 0, rs_out_of_order = False\<rparr>"

fun is_dict_or_list :: "pyval \<Rightarrow> bool" where
  "is_dict_or_list (PDict _) = True"
| "is_dict_or_list (PList _) = True"
| "is_dict_or_list _ = False"

definition segment_error :: "nat \<Rightarrow> bytes \<Rightarrow> exc" where
  "segment_error i data = Raised ValueError
     (''Invalid CUIB frame: segment '' @ show_nat i @ '' exceeds payload size '' @ show_nat (length data))"

fun restore_sequential :: "bytes \<Rightarrow> pyval \<Rightarrow> restore_state \<Rightarrow> exc + pyval \<times> restore_state"
  and restore_items :: "bytes \<Rightarrow> (pyval \<times> pyval) list \<Rightarrow> restore_state
        \<Rightarrow> exc + (pyval \<times> pyval) list \<times> restore_state"
  and restore_elems :: "bytes \<Rightarrow> pyval list \<Rightarrow> restore_state \<Rightarrow> exc + pyval list \<times> restore_state"
where
  "restore_sequential data (PDict d) st =
     (case placeholder_of (PDict d) of
        Some (i, n) \<Rightarrow>
          if rs_out_of_order st \<or> i \<noteq> rs_next st
          then Inr (PDict d, st\<lparr>rs_out_of_order := True\<rparr>)
          else
            let stop = rs_offset st + n in
              if length data < stop then Inl (segment_error (rs_next st) data)
              else Inr (PView (slice (rs_offset st) stop data),
                        st\<lparr>rs_offset := stop, rs_next := rs_next st + 1\<rparr>)
      | None \<Rightarrow>
          (case restore_items data d st of
             Inl e \<Rightarrow> Inl e
           | Inr (d', st') \<Rightarrow> Inr (PDict d', st')))"
| "restore_sequential data (PList xs) st =
     (case restore_elems data xs st of
        Inl e \<Rightarrow> Inl e
      | Inr (xs', st') \<Rightarrow> Inr (PList xs', st'))"
| "restore_sequential data v st = Inr (v, st)"
| "restore_items data [] st = Inr ([], st)"
| "restore_items data ((k, x) # d) st =
     (case (if is_dict_or_list x then restore_sequential data x st else Inr (x, st)) of
        Inl e \<Rightarrow> Inl e
      | Inr (x', st1) \<Rightarrow>
          (case restore_items data d st1 of
             Inl e \<Rightarrow> Inl e
           | Inr (d', st2) \<Rightarrow> Inr ((k, x') # d', st2)))"
| "restore_elems data [] st = Inr ([], st)"
| "restore_elems data (x # xs) st =
     (case (if is_dict_or_list x then restore_sequential data x st else Inr (x, st)) of
        Inl e \<Rightarrow> Inl e
      | Inr (x', st1) \<Rightarrow>
          (case restore_elems data xs st1 of
             Inl e \<Rightarrow> Inl e
           | Inr (xs', st2) \<Rightarrow> Inr (x' # xs', st2)))"

text \<open>The fallback for placeholders that arrive out of index order.\<close>

fun collect_segment_lengths :: "pyval \<Rightarrow> (nat, nat) pydict \<Rightarrow> (nat, nat) pydict"
  and collect_items :: "(pyval \<times> pyval) list \<Rightarrow> (nat, nat) pydict \<Rightarrow> (nat, nat) pydict"
  and collect_elems :: "pyval list \<Rightarrow> (nat, nat) pydict \<Rightarrow> (nat, nat) pydict"
where
  "collect_segment_lengths (PDict d) lengths =
     (case placeholder_of (PDict d) of
        Some (i, n) \<Rightarrow> dset i n lengths
      | None \<Rightarrow> collect_items d lengths)"
| "collect_segment_lengths (PList xs) lengths = collect_elems xs lengths"
| "collect_segment_lengths v lengths = lengths"
| "collect_items [] lengths = lengths"
| "collect_items ((k, x) # d) lengths = collect_items d (collect_segment_lengths x lengths)"
| "collect_elems [] lengths = lengths"
| "collect_elems (x # xs) lengths = collect_elems xs (collect_segment_lengths x lengths)"

fun restore_by_index :: "(nat, bytes) pydict \<Rightarrow> pyval \<Rightarrow> exc + pyval"
  and restore_by_index_items :: "(nat, bytes) pydict \<Rightarrow> (pyval \<times> pyval) list \<Rightarrow> exc + (pyval \<times> pyval) list"
  and restore_by_index_elems :: "(nat, bytes) pydict \<Rightarrow> pyval list \<Rightarrow> exc + pyval list"
where
  "restore_by_index views (PDict d) =
     (case placeholder_of (PDict d) of
        Some (i, n) \<Rightarrow>
          (case dget views i of
             None \<Rightarrow> Inl (Raised KeyError (show_nat i))
           | Some b \<Rightarrow> Inr (PView b))
      | None \<Rightarrow>
          (case restore_by_index_items views d of Inl e \<Rightarrow> Inl e | Inr d' \<Rightarrow> Inr (PDict d')))"
| "restore_by_index views (PList xs) =
     (case restore_by_index_elems views xs of Inl e \<Rightarrow> Inl e | Inr xs' \<Rightarrow> Inr (PList xs'))"
| "restore_by_index views v = Inr v"
| "restore_by_index_items views [] = Inr []"
| "restore_by_index_items views ((k, x) # d) =
     (case restore_by_index views x of
        Inl e \<Rightarrow> Inl e
      | Inr x' \<Rightarrow>
          (case restore_by_index_items views d of Inl e \<Rightarrow> Inl e | Inr d' \<Rightarrow> Inr ((k, x') # d')))"
| "restore_by_index_elems views [] = Inr []"
| "restore_by_index_elems views (x # xs) =
     (case restore_by_index views x of
        Inl e \<Rightarrow> Inl e
      | Inr x' \<Rightarrow>
          (case restore_by_index_elems views xs of Inl e \<Rightarrow> Inl e | Inr xs' \<Rightarrow> Inr (x' # xs')))"

text \<open>The loop of \<open>_restore_remaining\<close> over the indices that are still missing.\<close>

fun place_segments :: "bytes \<Rightarrow> (nat, nat) pydict \<Rightarrow> nat list \<Rightarrow> nat \<Rightarrow> (nat, bytes) pydict
    \<Rightarrow> exc + (nat, bytes) pydict \<times> nat" where
  "place_segments data lengths [] offset views = Inr (views, offset)"
| "place_segments data lengths (i # is) offset views =
     (case dget lengths i of
        None \<Rightarrow> Inl (Raised ValueError (''Invalid CUIB frame: missing placeholder for segment '' @ show_nat i))
      | Some n \<Rightarrow>
          if length data < offset + n then Inl (segment_error i data)
          else place_segments data lengths is (offset + n)
                 (dset i (slice offset (offset + n) data) views))"

definition restore_remaining ::
    "pyval \<Rightarrow> bytes \<Rightarrow> restore_state \<Rightarrow> exc + pyval \<times> restore_state" where
  "restore_remaining envelope data st =
     (let lengths = collect_segment_lengths envelope [];
          last = (if lengths = [] then rs_next st else Max (set (map fst lengths)) + 1)
      in case place_segments data lengths [rs_next st ..< last] (rs_offset st) [] of
           Inl e \<Rightarrow> Inl e
         | Inr (views, offset) \<Rightarrow>
             (case restore_by_index views envelope of
                Inl e \<Rightarrow> Inl e
              | Inr v \<Rightarrow> Inr (v, st\<lparr>rs_offset := offset\<rparr>)))"

definition decode_message :: "(bytes \<Rightarrow> exc + pyval) \<Rightarrow> bytes \<Rightarrow> exc + pyval" where
  "decode_message unpack data =
     (if length data < HEADER_SIZE \<or> take 4 data \<noteq> MAGIC then unpack data
      else
        let total = length data;
            env_len = le32_value (slice 4 8 data);
            segment_base = HEADER_SIZE + env_len
        in if total < segment_base
           then Inl (Raised ValueError (''Invalid CUIB frame: envelope length '' @ show_nat env_len
                       @ '' exceeds payload size '' @ show_nat total))
           else
             (case unpack (slice HEADER_SIZE segment_base data) of
                Inl e \<Rightarrow> Inl e
              | Inr envelope \<Rightarrow>
                  (case restore_sequential data envelope (restore_init segment_base) of
                     Inl e \<Rightarrow> Inl e
                   | Inr (v, st) \<Rightarrow>
                       (case (if rs_out_of_order st then restore_remaining v data st
                              else Inr (v, st)) of
                          Inl e \<Rightarrow> Inl e
                        | Inr (v', st') \<Rightarrow>
                            if rs_offset st' \<noteq> total
                            then Inl (Raised ValueError (''Invalid CUIB frame: expected payload size ''
                                        @ show_nat (rs_offset st') @ '', got '' @ show_nat total))
                            else Inr v'))))"

end
