(* ===== verification/Chunking.thy ===== *)
theory Chunking
  imports Codec
begin

text \<open>
  \<open>chunking.py\<close>: splitting a payload into chunks, the assembler that puts one transfer
  together, and the manager of all running transfers with its pool of assemblers. Times are
  readings of the monotonic clock in milliseconds; one operation happens at one reading.
\<close>

section \<open>Splitting\<close>

record chunk_data =
  cd_transferId :: string
  cd_index :: int
  cd_data :: bytes

definition create_chunks :: "bytes \<Rightarrow> string \<Rightarrow> int \<Rightarrow> exc + chunk_data list" where
  "create_chunks encoded chunk_id max_chunk_size =
     (let total_size = int (length encoded)
      in if total_size = 0 then Inr []
         else if max_chunk_size = 0 then Inl (Raised ZeroDivisionError ''integer division or modulo by zero'')
         else
           let total_chunks = (total_size + max_chunk_size - 1) div max_chunk_size
           in Inr (map (\<lambda>i. let start = i * max_chunk_size;
                              stop = min (start + max_chunk_size) total_size
                          in \<lparr>cd_transferId = chunk_id, cd_index = i,
                              cd_data = py_slice start stop encoded\<rparr>)
                       [0 .. total_chunks - 1]))"

section \<open>The assembler\<close>

record assembler =
  a_id :: string
  a_received :: "int set"
  a_total_chunks :: "int option"
  a_total_size :: int
  a_buffer :: "bytes option"
  a_temp :: "(int, bytes) pydict"
  a_chunk_size :: "int option"

definition new_assembler :: "string \<Rightarrow> assembler" where
  "new_assembler chunk_id =
     \<lparr>a_id = chunk_id, a_received = {}, a_total_chunks = None, a_total_size = 0,
      a_buffer = None, a_temp = [], a_chunk_size = None\<rparr>"

text \<open>\<open>can_alloc n\<close> says whether \<open>bytearray(n)\<close> succeeds; \<open>MemoryError\<close> selects the fallback.\<close>

definition set_expected_chunks ::
    "(int \<Rightarrow> bool) \<Rightarrow> int \<Rightarrow> int option \<Rightarrow> int option \<Rightarrow> assembler \<Rightarrow> assembler" where
  "set_expected_chunks can_alloc count total_size chunk_size a =
     (let a = a\<lparr>a_total_chunks := Some count\<rparr>;
          a = (case chunk_size of None \<Rightarrow> a | Some c \<Rightarrow> a\<lparr>a_chunk_size := Some c\<rparr>)
      in case total_size of
           None \<Rightarrow> a
         | Some n \<Rightarrow>
             if 0 < n
             then a\<lparr>a_total_size := n,
                    a_buffer := (if can_alloc n then Some (replicate (nat n) 0) else None)\<rparr>
             else a)"

text \<open>A chunk as it arrives; the keys differ between the senders.\<close>

record raw_chunk =
  rc_id :: "string option"
  rc_transferId :: "string option"
  rc_index :: "int option"
  rc_chunkIndex :: "int option"
  rc_data :: bytes
  rc_isLast :: bool

definition is_complete :: "assembler \<Rightarrow> bool" where
  "is_complete a = (case a_total_chunks a of
      None \<Rightarrow> False
    | Some n \<Rightarrow> int (card (a_received a)) = n)"

text \<open>Writing a chunk into the pre-allocated buffer, the last chunk cut to what is left.\<close>

definition write_chunk :: "int \<Rightarrow> int \<Rightarrow> bytes \<Rightarrow> bytes \<Rightarrow> bytes" where
  "write_chunk total_size offset data buf =
     (if offset + int (length data) \<le> total_size
      then set_slice offset (offset + int (length data)) data buf
      else
        let remaining = total_size - offset
        in if 0 < remaining
           then set_slice offset (int (length buf)) (take (nat remaining) data) buf
           else buf)"

definition add_chunk :: "raw_chunk \<Rightarrow> assembler \<Rightarrow> exc + bool \<times> assembler" where
  "add_chunk chunk a =
     (case rc_transferId chunk of
        None \<Rightarrow> Inl (Raised KeyError ''transferId'')
      | Some tid \<Rightarrow>
          if tid \<noteq> a_id a
          then Inl (Raised ValueError (''Chunk ID mismatch: expected '' @ a_id a @ '', got '' @ tid))
          else
            (case rc_index chunk of
               None \<Rightarrow> Inl (Raised KeyError ''index'')
             | Some chunk_index \<Rightarrow>
                 let data = rc_data chunk;
                     size = int (length data);
                     a = (if a_chunk_size a = None \<and> chunk_index = 0 \<and>
                             (case a_total_chunks a of None \<Rightarrow> False | Some n \<Rightarrow> n > 1)
                          then a\<lparr>a_chunk_size := Some size\<rparr> else a);
                     effective = (case a_chunk_size a of
                                    None \<Rightarrow> size
                                  | Some c \<Rightarrow> if c \<noteq> 0 then c else size);
                     a = (case a_buffer a of
                            Some buf \<Rightarrow> a\<lparr>a_buffer := Some (write_chunk (a_total_size a)
                                               (chunk_index * effective) data buf)\<rparr>
                          | None \<Rightarrow> a\<lparr>a_temp := dset chunk_index data (a_temp a)\<rparr>);
                     a = a\<lparr>a_received := insert chunk_index (a_received a)\<rparr>;
                     a = (if rc_isLast chunk then a\<lparr>a_total_chunks := Some (chunk_index + 1)\<rparr> else a)
                 in Inr (is_complete a, a)))"

text \<open>The fallback's concatenation of \<open>temp_chunks[0], temp_chunks[1], ...\<close>.\<close>

fun combine_temp :: "(int, bytes) pydict \<Rightarrow> int list \<Rightarrow> exc + bytes" where
  "combine_temp temp [] = Inr []"
| "combine_temp temp (i # is) =
     (case dget temp i of
        None \<Rightarrow> Inl (Raised KeyError (show_int i))
      | Some b \<Rightarrow> (case combine_temp temp is of Inl e \<Rightarrow> Inl e | Inr bs \<Rightarrow> Inr (b @ bs)))"

definition assembled_bytes :: "assembler \<Rightarrow> exc + bytes" where
  "assembled_bytes a =
     (if \<not> is_complete a
      then Inl (Raised RuntimeError ''Cannot get data: Not all chunks have been received.'')
      else (case a_buffer a of
              Some buf \<Rightarrow> Inr buf
            | None \<Rightarrow> combine_temp (a_temp a)
                (case a_total_chunks a of None \<Rightarrow> [] | Some n \<Rightarrow> [0 .. n - 1])))"

definition get_data :: "(bytes \<Rightarrow> exc + pyval) \<Rightarrow> assembler \<Rightarrow> exc + pyval" where
  "get_data unpack a =
     (case assembled_bytes a of Inl e \<Rightarrow> Inl e | Inr b \<Rightarrow> decode_message unpack b)"

section \<open>The manager\<close>

text \<open>
  \<open>'cb\<close> identifies a registered callback; calling one is an event of the operation. The
  program's callbacks append to a queue, settle a future or print, so they do not raise and do
  not call back into the manager.
\<close>

datatype 'cb chunk_event = Completed 'cb pyval | Errored 'cb exc

record 'cb manager =
  m_assemblers :: "(string, assembler) pydict"
  m_completed :: "(string, 'cb) pydict"
  m_errors :: "(string, 'cb) pydict"
  m_pool :: "assembler list"
  m_activity :: "(string, int) pydict"
  m_last_sweep :: int

definition STALE_TRANSFER_TTL :: int where
  "STALE_TRANSFER_TTL = 30000"

definition SWEEP_INTERVAL :: int where
  "SWEEP_INTERVAL = 1000"

definition new_manager :: "'cb manager" where
  "new_manager = \<lparr>m_assemblers = [], m_completed = [], m_errors = [], m_pool = [],
                  m_activity = [], m_last_sweep = 0\<rparr>"

definition get_assembler :: "string \<Rightarrow> 'cb manager \<Rightarrow> assembler \<times> 'cb manager" where
  "get_assembler transfer_id m =
     (if m_pool m \<noteq> []
      then ((last (m_pool m))\<lparr>a_id := transfer_id, a_received := {}, a_total_chunks := None,
              a_total_size := 0, a_buffer := None, a_temp := []\<rparr>,
            m\<lparr>m_pool := butlast (m_pool m)\<rparr>)
      else (new_assembler transfer_id, m))"

definition return_assembler :: "assembler \<Rightarrow> 'cb manager \<Rightarrow> 'cb manager" where
  "return_assembler a m =
     (let a = a\<lparr>a_buffer := None, a_temp := []\<rparr>
      in if length (m_pool m) < 10 then m\<lparr>m_pool := m_pool m @ [a]\<rparr> else m)"

text \<open>
  \<open>_handle_error\<close>: the cleanup that errors, cancellation and the sweep share. The assembler
  goes back to the pool, every registry loses the transfer, then the error callback runs.
\<close>

definition handle_error ::
    "string \<Rightarrow> exc \<Rightarrow> 'cb manager \<Rightarrow> 'cb manager \<times> 'cb chunk_event list" where
  "handle_error transfer_id err m =
     (let cb = dget (m_errors m) transfer_id;
          m1 = m\<lparr>m_errors := dpop transfer_id (m_errors m)\<rparr>;
          a = dget (m_assemblers m1) transfer_id;
          m2 = m1\<lparr>m_assemblers := dpop transfer_id (m_assemblers m1)\<rparr>;
          m3 = (case a of None \<Rightarrow> m2 | Some a \<Rightarrow> return_assembler a m2);
          m4 = m3\<lparr>m_completed := dpop transfer_id (m_completed m3),
                  m_activity := dpop transfer_id (m_activity m3)\<rparr>
      in (m4, case cb of None \<Rightarrow> [] | Some cb \<Rightarrow> [Errored cb err]))"

definition cancel :: "string \<Rightarrow> 'cb manager \<Rightarrow> 'cb manager \<times> 'cb chunk_event list" where
  "cancel transfer_id m = handle_error transfer_id (Raised RuntimeError ''Transfer cancelled'') m"

fun drop_stale :: "string list \<Rightarrow> 'cb manager \<Rightarrow> 'cb manager \<times> 'cb chunk_event list" where
  "drop_stale [] m = (m, [])"
| "drop_stale (tid # tids) m =
     (case handle_error tid (Raised RuntimeError ''Transfer timed out'') m of
        (m1, evs1) \<Rightarrow> (case drop_stale tids m1 of (m2, evs2) \<Rightarrow> (m2, evs1 @ evs2)))"

definition sweep_stale :: "int \<Rightarrow> 'cb manager \<Rightarrow> 'cb manager \<times> 'cb chunk_event list" where
  "sweep_stale now m =
     (if m_activity m = [] then (m, [])
      else if now - m_last_sweep m < SWEEP_INTERVAL then (m, [])
      else
        let m = m\<lparr>m_last_sweep := now\<rparr>;
            cutoff = now - STALE_TRANSFER_TTL;
            stale = map fst (filter (\<lambda>(tid, ts). ts < cutoff) (m_activity m))
        in drop_stale stale m)"

definition start_receiving ::
    "(int \<Rightarrow> bool) \<Rightarrow> int \<Rightarrow> string \<Rightarrow> int \<Rightarrow> 'cb \<Rightarrow> 'cb \<Rightarrow> int option \<Rightarrow> int option
      \<Rightarrow> 'cb manager \<Rightarrow> 'cb manager \<times> 'cb chunk_event list" where
  "start_receiving can_alloc now transfer_id total_chunks on_complete on_error total_size chunk_size m =
     (case sweep_stale now m of
        (m1, evs) \<Rightarrow>
          (case get_assembler transfer_id m1 of
             (a, m2) \<Rightarrow>
               let a = set_expected_chunks can_alloc total_chunks total_size chunk_size a
               in (m2\<lparr>m_assemblers := dset transfer_id a (m_assemblers m2),
                      m_completed := dset transfer_id on_complete (m_completed m2),
                      m_errors := dset transfer_id on_error (m_errors m2),
                      m_activity := dset transfer_id now (m_activity m2)\<rparr>, evs)))"

text \<open>\<open>chunk.get("id") or chunk.get("transferId")\<close>, empty names being no names.\<close>

definition chunk_transfer_id :: "raw_chunk \<Rightarrow> string option" where
  "chunk_transfer_id chunk =
     (case rc_id chunk of
        Some s \<Rightarrow> if s \<noteq> [] then Some s
                  else (case rc_transferId chunk of Some t \<Rightarrow> if t \<noteq> [] then Some t else None | None \<Rightarrow> None)
      | None \<Rightarrow> (case rc_transferId chunk of Some t \<Rightarrow> if t \<noteq> [] then Some t else None | None \<Rightarrow> None))"

definition normalize_chunk :: "string \<Rightarrow> raw_chunk \<Rightarrow> raw_chunk" where
  "normalize_chunk transfer_id chunk =
     (let chunk = (if rc_transferId chunk = None then chunk\<lparr>rc_transferId := Some transfer_id\<rparr> else chunk)
      in if rc_index chunk = None \<and> rc_chunkIndex chunk \<noteq> None
         then chunk\<lparr>rc_index := rc_chunkIndex chunk\<rparr> else chunk)"

definition process_chunk ::
    "(bytes \<Rightarrow> exc + pyval) \<Rightarrow> int \<Rightarrow> raw_chunk \<Rightarrow> 'cb manager \<Rightarrow> 'cb manager \<times> 'cb chunk_event list" where
  "process_chunk unpack now chunk m =
     (case sweep_stale now m of
        (m1, evs) \<Rightarrow>
          (case chunk_transfer_id chunk of
             None \<Rightarrow> (m1, evs)
           | Some tid \<Rightarrow>
               (case dget (m_assemblers m1) tid of
                  None \<Rightarrow> (m1, evs)
                | Some a \<Rightarrow>
                    let m2 = m1\<lparr>m_activity := dset tid now (m_activity m1)\<rparr>
                    in case add_chunk (normalize_chunk tid chunk) a of
                         Inl e \<Rightarrow> (case handle_error tid e m2 of (m3, evs') \<Rightarrow> (m3, evs @ evs'))
                       | Inr (complete, a') \<Rightarrow>
                           let m3 = m2\<lparr>m_assemblers := dset tid a' (m_assemblers m2)\<rparr>
                           in if \<not> complete then (m3, evs)
                              else (case get_data unpack a' of
                                      Inl e \<Rightarrow> (case handle_error tid e m3 of (m4, evs') \<Rightarrow> (m4, evs @ evs'))
                                    | Inr data \<Rightarrow>
                                        let cb = dget (m_completed m3) tid;
                                            m4 = m3\<lparr>m_completed := dpop tid (m_completed m3),
                                                    m_assemblers := dpop tid (m_assemblers m3),
                                                    m_errors := dpop tid (m_errors m3),
                                                    m_activity := dpop tid (m_activity m3)\<rparr>
                                        in (return_assembler a' m4,
                                            evs @ (case cb of None \<Rightarrow> [] | Some cb \<Rightarrow> [Completed cb data]))))))"

end
