(* ===== verification/Chunking_Assembly.thy ===== *)
theory Chunking_Assembly
  imports Chunking
begin

section \<open>The pieces of a payload\<close>

text \<open>
  A payload cut into pieces of \<open>c\<close> bytes: piece \<open>i\<close> and the number of pieces. \<open>create_chunks\<close>
  yields exactly these.
\<close>

definition piece :: "bytes \<Rightarrow> nat \<Rightarrow> nat \<Rightarrow> bytes" where
  "piece data c i = slice (i * c) (Suc i * c) data"

definition n_pieces :: "bytes \<Rightarrow> nat \<Rightarrow> nat" where
  "n_pieces data c = (length data + c - 1) div c"

lemma n_pieces_bounds:
  assumes "0 < c"
  shows "length data \<le> n_pieces data c * c" "i < n_pieces data c \<Longrightarrow> i * c < length data"
proof -
  have d: "length data + c - 1 = n_pieces data c * c + (length data + c - 1) mod c"
    by (simp add: n_pieces_def)
  moreover have "(length data + c - 1) mod c \<le> c - 1"
    using assms by (metis Suc_pred' less_Suc_eq_le mod_less_divisor)
  ultimately show "length data \<le> n_pieces data c * c"
    using assms by linarith
  assume "i < n_pieces data c"
  then have "Suc i * c \<le> n_pieces data c * c" by (intro mult_le_mono1) simp
  then have "i * c + c \<le> length data + c - 1" using d by simp
  then show "i * c < length data" using assms by linarith
qed

lemma n_pieces_eq_0 [simp]: "0 < c \<Longrightarrow> n_pieces data c = 0 \<longleftrightarrow> data = []"
  using n_pieces_bounds(1) [of c data] by (auto simp: n_pieces_def)

lemma length_piece:
  "0 < c \<Longrightarrow> i < n_pieces data c \<Longrightarrow> length (piece data c i) = min c (length data - i * c)"
  by (simp add: piece_def)

lemma piece_positive: "0 < c \<Longrightarrow> i < n_pieces data c \<Longrightarrow> 0 < length (piece data c i)"
  using n_pieces_bounds(2) [of c i data] by (simp add: length_piece)

lemma piece_end:
  "0 < c \<Longrightarrow> i < n_pieces data c \<Longrightarrow> i * c + length (piece data c i) \<le> length data"
  using n_pieces_bounds(2) [of c i data] length_piece [of c i data] by linarith

lemma concat_pieces_take: "concat (map (piece data c) [0 ..< n]) = take (n * c) data"
proof (induction n)
  case (Suc n)
  have "take (Suc n * c) data = take (n * c) data @ take c (drop (n * c) data)"
    by (metis add.commute mult_Suc take_add)
  with Suc show ?case by (simp add: piece_def slice_def)
qed simp

lemma concat_pieces: "0 < c \<Longrightarrow> concat (map (piece data c) [0 ..< n_pieces data c]) = data"
  using n_pieces_bounds(1) [of c data] by (simp add: concat_pieces_take)

lemma upto_map_int: "[0 .. int n - 1] = map int [0 ..< n]"
  by (rule nth_equalityI) (simp_all add: nth_upto)

lemma create_chunks_pieces:
  assumes "0 < c"
  shows "create_chunks data tid (int c) = Inr (map (\<lambda>i. \<lparr>cd_transferId = tid, cd_index = int i,
           cd_data = piece data c i\<rparr>) [0 ..< n_pieces data c])"
proof (cases "data = []")
  case True
  with assms show ?thesis by (simp add: create_chunks_def n_pieces_def)
next
  case False
  then have "int (length data) + int c - 1 = int (length data + c - 1)"
    using assms by (simp add: of_nat_diff)
  then have n: "(int (length data) + int c - 1) div int c = int (n_pieces data c)"
    by (metis n_pieces_def zdiv_int)
  have "py_slice (int i * int c) (min (int i * int c + int c) (int (length data))) data = piece data c i" for i
  proof -
    have "min (int i * int c + int c) (int (length data)) = int (min (Suc i * c) (length data))"
      by (simp add: of_nat_min add.commute)
    then have "py_slice (int i * int c) (min (int i * int c + int c) (int (length data))) data
        = slice (i * c) (min (Suc i * c) (length data)) data"
      by (metis of_nat_mult py_slice_nat)
    then show ?thesis by (simp add: piece_def slice_def min_def)
  qed
  then show ?thesis
    using False assms n by (simp add: create_chunks_def Let_def upto_map_int)
qed


section \<open>What a sink of pieces promises\<close>

text \<open>
  The contract between the transfer and the place its pieces are written to: a written piece
  is held, stays held, is counted, and when all are held the whole payload can be read. The
  assembler provides it twice, with its pre-allocated buffer and with its fallback dictionary.
\<close>

locale chunk_sink =
  fixes put :: "nat \<Rightarrow> 's \<Rightarrow> 's"
    and inv :: "'s \<Rightarrow> bool"
    and holds :: "'s \<Rightarrow> nat \<Rightarrow> bool"
    and seen :: "'s \<Rightarrow> nat set"
    and complete :: "'s \<Rightarrow> bool"
    and result :: "'s \<Rightarrow> 'r"
    and n :: nat
    and whole :: 'r
  assumes inv_put: "inv s \<Longrightarrow> i < n \<Longrightarrow> inv (put i s)"
    and holds_put: "inv s \<Longrightarrow> i < n \<Longrightarrow> holds (put i s) i"
    and holds_keep: "inv s \<Longrightarrow> i < n \<Longrightarrow> j < n \<Longrightarrow> holds s j \<Longrightarrow> holds (put i s) j"
    and seen_put: "inv s \<Longrightarrow> i < n \<Longrightarrow> seen (put i s) = insert i (seen s)"
    and complete_seen: "inv s \<Longrightarrow> complete s \<longleftrightarrow> seen s = {..<n}"
    and result_whole: "inv s \<Longrightarrow> complete s \<Longrightarrow> \<forall>i < n. holds s i \<Longrightarrow> result s = whole"
begin

lemma fold_put:
  "inv s \<Longrightarrow> set js \<subseteq> {..<n} \<Longrightarrow>
     inv (fold put js s) \<and> seen (fold put js s) = seen s \<union> set js \<and>
     (\<forall>j < n. j \<in> set js \<or> holds s j \<longrightarrow> holds (fold put js s) j)"
proof (induction js arbitrary: s)
  case (Cons i js)
  then have i: "i < n" by simp
  have "inv (put i s)" by (rule inv_put [OF Cons.prems(1) i])
  from Cons.IH [OF this] Cons.prems show ?case
    using seen_put [OF Cons.prems(1) i] holds_put [OF Cons.prems(1) i]
      holds_keep [OF Cons.prems(1) i] by auto
qed simp

lemma complete_fold:
  assumes "inv s" "seen s = {}" "set js \<subseteq> {..<n}"
  shows "complete (fold put js s) \<longleftrightarrow> set js = {..<n}"
  using fold_put [OF assms(1,3)] assms(2) by (simp add: complete_seen)

lemma result_fold:
  assumes "inv s" "set js = {..<n}" "seen s = {}"
  shows "complete (fold put js s) \<and> result (fold put js s) = whole"
proof -
  have "set js \<subseteq> {..<n}" using assms(2) by simp
  note f = fold_put [OF assms(1) this]
  with assms have c: "complete (fold put js s)" by (simp add: complete_seen)
  with f assms(2) show ?thesis by (auto intro: result_whole)
qed

end

section \<open>The assembler as a sink\<close>

text \<open>
  A chunk as the subscribers pass it on (\<open>id\<close>, \<open>chunkIndex\<close>, \<open>data\<close>, \<open>isLast\<close>), and as the
  manager hands it to the assembler.
\<close>

definition client_chunk :: "string \<Rightarrow> int \<Rightarrow> bytes \<Rightarrow> raw_chunk" where
  "client_chunk tid i data = \<lparr>rc_id = Some tid, rc_transferId = None, rc_index = None,
     rc_chunkIndex = Some i, rc_data = data, rc_isLast = False\<rparr>"

definition wire_chunk :: "string \<Rightarrow> bytes \<Rightarrow> nat \<Rightarrow> nat \<Rightarrow> raw_chunk" where
  "wire_chunk tid data c i = normalize_chunk tid (client_chunk tid (int i) (piece data c i))"

lemma wire_chunk_simps [simp]:
  "rc_transferId (wire_chunk tid data c i) = Some tid" "rc_index (wire_chunk tid data c i) = Some (int i)"
  "rc_data (wire_chunk tid data c i) = piece data c i" "rc_isLast (wire_chunk tid data c i) = False"
  by (simp_all add: wire_chunk_def client_chunk_def normalize_chunk_def Let_def)

definition feed :: "string \<Rightarrow> bytes \<Rightarrow> nat \<Rightarrow> nat \<Rightarrow> assembler \<Rightarrow> assembler" where
  "feed tid data c i a = (case add_chunk (wire_chunk tid data c i) a of Inl _ \<Rightarrow> a | Inr (_, a') \<Rightarrow> a')"

text \<open>
  An assembler that expects the payload: in buffer mode the chunk size has been announced, or
  there is one chunk only; in dictionary mode the chunk size does not matter.
\<close>

definition expects :: "string \<Rightarrow> bytes \<Rightarrow> nat \<Rightarrow> assembler \<Rightarrow> bool" where
  "expects tid data c a \<longleftrightarrow> 0 < c \<and> a_id a = tid \<and> a_total_chunks a = Some (int (n_pieces data c)) \<and>
     a_received a \<subseteq> int ` {..<n_pieces data c}"

definition buffer_inv :: "string \<Rightarrow> bytes \<Rightarrow> nat \<Rightarrow> assembler \<Rightarrow> bool" where
  "buffer_inv tid data c a \<longleftrightarrow> expects tid data c a \<and> a_total_size a = int (length data) \<and>
     (case a_buffer a of None \<Rightarrow> False | Some buf \<Rightarrow> length buf = length data) \<and>
     (a_chunk_size a = Some (int c) \<or> n_pieces data c = 1 \<and> a_chunk_size a = None)"

definition buffer_holds :: "bytes \<Rightarrow> nat \<Rightarrow> assembler \<Rightarrow> nat \<Rightarrow> bool" where
  "buffer_holds data c a i \<longleftrightarrow>
     (case a_buffer a of None \<Rightarrow> False | Some buf \<Rightarrow> piece buf c i = piece data c i)"

definition temp_inv :: "string \<Rightarrow> bytes \<Rightarrow> nat \<Rightarrow> assembler \<Rightarrow> bool" where
  "temp_inv tid data c a \<longleftrightarrow> expects tid data c a \<and> a_buffer a = None"

definition temp_holds :: "bytes \<Rightarrow> nat \<Rightarrow> assembler \<Rightarrow> nat \<Rightarrow> bool" where
  "temp_holds data c a i \<longleftrightarrow> dget (a_temp a) (int i) = Some (piece data c i)"

definition received_pieces :: "assembler \<Rightarrow> nat set" where
  "received_pieces a = nat ` a_received a"

lemma received_insert [simp]:
  "received_pieces (a\<lparr>a_received := insert (int i) (a_received a)\<rparr>) = insert i (received_pieces a)"
  by (simp add: received_pieces_def)

lemma is_complete_received:
  assumes "expects tid data c a"
  shows "is_complete a \<longleftrightarrow> received_pieces a = {..<n_pieces data c}"
proof -
  let ?n = "n_pieces data c"
  have sub: "a_received a \<subseteq> int ` {..<?n}" and tot: "a_total_chunks a = Some (int ?n)"
    using assms by (simp_all add: expects_def)
  have fin: "finite (int ` {..<?n})" by simp
  have "is_complete a \<longleftrightarrow> card (a_received a) = card (int ` {..<?n})"
    by (simp add: is_complete_def tot card_image)
  also have "\<dots> \<longleftrightarrow> a_received a = int ` {..<?n}"
    using card_subset_eq [OF fin sub] by auto
  also have "\<dots> \<longleftrightarrow> nat ` a_received a = {..<?n}"
  proof
    assume "nat ` a_received a = {..<?n}"
    then have "int ` nat ` a_received a = int ` {..<?n}" by simp
    moreover have "int ` nat ` a_received a = a_received a"
      using sub by (force simp: image_image)
    ultimately show "a_received a = int ` {..<?n}" by simp
  qed (simp add: image_image)
  finally show ?thesis by (simp add: received_pieces_def)
qed

lemma feed_buffer:
  assumes "buffer_inv tid data c a" "i < n_pieces data c"
  shows "feed tid data c i a = a\<lparr>a_buffer := Some (overwrite (i * c) (piece data c i) (the (a_buffer a))),
           a_received := insert (int i) (a_received a)\<rparr>"
proof -
  obtain buf where buf: "a_buffer a = Some buf" "length buf = length data"
    using assms(1) by (auto simp: buffer_inv_def split: option.splits)
  have c: "0 < c" "a_id a = tid" "a_total_size a = int (length data)"
    "a_total_chunks a = Some (int (n_pieces data c))"
    using assms(1) by (simp_all add: buffer_inv_def expects_def)
  note e = piece_end [OF c(1) assms(2)]
  have w: "write_chunk (a_total_size a) (int (i * c)) (piece data c i) buf
      = overwrite (i * c) (piece data c i) buf"
    using e set_slice_overwrite [of "i * c" "piece data c i" buf]
    by (simp add: write_chunk_def c(3) buf(2) nat_int_add flip: of_nat_add of_nat_mult)
  show "feed tid data c i a = a\<lparr>a_buffer := Some (overwrite (i * c) (piece data c i) (the (a_buffer a))),
           a_received := insert (int i) (a_received a)\<rparr>"
  proof (cases "a_chunk_size a")
    case None
    then have "i = 0" "n_pieces data c = 1"
      using assms by (auto simp: buffer_inv_def)
    with None w c buf show ?thesis
      by (simp add: feed_def add_chunk_def Let_def)
  next
    case (Some cs)
    then have "cs = int c" using assms(1) by (auto simp: buffer_inv_def)
    with Some w c buf show ?thesis
      by (simp add: feed_def add_chunk_def Let_def)
  qed
qed

lemma piece_overwrite_same:
  assumes "0 < c" "i < n_pieces data c" "length buf = length data"
  shows "piece (overwrite (i * c) (piece data c i) buf) c i = piece data c i"
proof -
  let ?p = "piece data c i"
  have e: "i * c \<le> length buf" and lp: "length ?p = min c (length buf - i * c)"
    using n_pieces_bounds(2) [OF assms(1,2)] length_piece [OF assms(1,2)] assms(3) by simp_all
  have "piece (overwrite (i * c) ?p buf) c i = take c (?p @ drop (i * c + length ?p) buf)"
    using e by (simp add: piece_def slice_def overwrite_def)
  also have "\<dots> = ?p"
    by (cases "c \<le> length buf - i * c") (simp_all add: lp)
  finally show ?thesis .
qed

lemma piece_overwrite_other:
  assumes "0 < c" "i < n_pieces data c" "length buf = length data" "i \<noteq> j"
  shows "piece (overwrite (i * c) (piece data c i) buf) c j = piece buf c j"
proof -
  let ?p = "piece data c i"
  have e: "i * c + length ?p \<le> length buf" and lp: "length ?p \<le> c"
    using piece_end [OF assms(1,2)] length_piece [OF assms(1,2)] assms(3) by simp_all
  have far: "j * c + c \<le> i * c \<or> i * c + c \<le> j * c"
    using assms(4) by (metis add.commute linorder_neqE_nat mult_Suc mult_le_mono1 Suc_leI)
  show ?thesis
  proof (rule nth_equalityI)
    show len: "length (piece (overwrite (i * c) ?p buf) c j) = length (piece buf c j)"
      using e by (simp add: piece_def length_overwrite)
    fix k assume "k < length (piece (overwrite (i * c) ?p buf) c j)"
    then have "k < c \<and> k < length buf - j * c"
      using e by (simp add: piece_def length_overwrite)
    then have k: "k < c" "j * c + k < length buf" by linarith+
    then have "overwrite (i * c) ?p buf ! (j * c + k) = buf ! (j * c + k)"
      using nth_overwrite [OF e k(2)] far lp by auto
    then show "piece (overwrite (i * c) ?p buf) c j ! k = piece buf c j ! k"
      using k e by (simp add: piece_def slice_def length_overwrite)
  qed
qed

lemma buffer_inv_feed:
  assumes "buffer_inv tid data c a" "i < n_pieces data c"
  shows "buffer_inv tid data c (feed tid data c i a)"
  using assms piece_end [of c i data]
  by (auto simp: feed_buffer [OF assms] buffer_inv_def expects_def length_overwrite split: option.splits)

lemma combine_temp_pieces:
  "\<forall>i < m. k \<le> i \<longrightarrow> dget temp (int i) = Some (f i) \<Longrightarrow>
     combine_temp temp (map int [k ..< m]) = Inr (concat (map f [k ..< m]))"
proof (induction "m - k" arbitrary: k)
  case (Suc r)
  then have "[k ..< m] = k # [Suc k ..< m]" by (simp add: upt_conv_Cons)
  moreover have "combine_temp temp (map int [Suc k ..< m]) = Inr (concat (map f [Suc k ..< m]))"
    using Suc by (intro Suc.hyps(1)) auto
  ultimately show ?case using Suc by simp
qed simp

interpretation buf: chunk_sink "feed tid data c" "buffer_inv tid data c" "buffer_holds data c"
    received_pieces is_complete assembled_bytes "n_pieces data c" "Inr data"
  for tid data c
proof
  fix a i assume a: "buffer_inv tid data c a" and i: "i < n_pieces data c"
  show "buffer_inv tid data c (feed tid data c i a)" by (rule buffer_inv_feed [OF a i])
  obtain buf where b: "a_buffer a = Some buf" "length buf = length data" "0 < c"
    using a by (auto simp: buffer_inv_def expects_def split: option.splits)
  show "buffer_holds data c (feed tid data c i a) i"
    using b i by (simp add: feed_buffer [OF a i] buffer_holds_def piece_overwrite_same)
  show "buffer_holds data c (feed tid data c i a) j" if "j < n_pieces data c" "buffer_holds data c a j" for j
    using b i that piece_overwrite_other [of c i data buf j]
    by (cases "j = i") (simp_all add: feed_buffer [OF a i] buffer_holds_def piece_overwrite_same)
  show "received_pieces (feed tid data c i a) = insert i (received_pieces a)"
    by (simp add: feed_buffer [OF a i] received_pieces_def)
next
  fix a assume a: "buffer_inv tid data c a"
  then show "is_complete a \<longleftrightarrow> received_pieces a = {..<n_pieces data c}"
    by (intro is_complete_received [of tid]) (simp add: buffer_inv_def)
  obtain buf where b: "a_buffer a = Some buf" "length buf = length data" "0 < c"
    using a by (auto simp: buffer_inv_def expects_def split: option.splits)
  assume "is_complete a" and h: "\<forall>i < n_pieces data c. buffer_holds data c a i"
  have "buf = concat (map (piece buf c) [0 ..< n_pieces data c])"
    using concat_pieces [OF b(3), of buf] b(2) by (simp add: n_pieces_def)
  also have "map (piece buf c) [0 ..< n_pieces data c] = map (piece data c) [0 ..< n_pieces data c]"
    using h b(1) by (simp add: buffer_holds_def)
  finally have "buf = data" by (simp add: concat_pieces [OF b(3)])
  with \<open>is_complete a\<close> b(1) show "assembled_bytes a = Inr data"
    by (simp add: assembled_bytes_def)
qed

lemma feed_temp:
  assumes "temp_inv tid data c a"
  shows "\<exists>cs. feed tid data c i a = a\<lparr>a_temp := dset (int i) (piece data c i) (a_temp a),
           a_received := insert (int i) (a_received a), a_chunk_size := cs\<rparr>"
proof -
  have c: "a_id a = tid" "a_buffer a = None"
    using assms by (simp_all add: temp_inv_def expects_def)
  then show ?thesis
    by (cases a) (auto simp: feed_def add_chunk_def Let_def)
qed

interpretation temp: chunk_sink "feed tid data c" "temp_inv tid data c" "temp_holds data c"
    received_pieces is_complete assembled_bytes "n_pieces data c" "Inr data"
  for tid data c
proof
  fix a i assume a: "temp_inv tid data c a" and i: "i < n_pieces data c"
  obtain cs where f: "feed tid data c i a = a\<lparr>a_temp := dset (int i) (piece data c i) (a_temp a),
      a_received := insert (int i) (a_received a), a_chunk_size := cs\<rparr>"
    using feed_temp [OF a] by blast
  show "temp_inv tid data c (feed tid data c i a)"
    using a i by (auto simp: f temp_inv_def expects_def)
  show "temp_holds data c (feed tid data c i a) i"
    by (simp add: f temp_holds_def)
  show "temp_holds data c (feed tid data c i a) j" if "j < n_pieces data c" "temp_holds data c a j" for j
    using that by (auto simp: f temp_holds_def)
  show "received_pieces (feed tid data c i a) = insert i (received_pieces a)"
    by (simp add: f received_pieces_def)
next
  fix a assume a: "temp_inv tid data c a"
  then show "is_complete a \<longleftrightarrow> received_pieces a = {..<n_pieces data c}"
    by (intro is_complete_received [of tid]) (simp add: temp_inv_def)
  assume "is_complete a" and h: "\<forall>i < n_pieces data c. temp_holds data c a i"
  then have "combine_temp (a_temp a) (map int [0 ..< n_pieces data c])
      = Inr (concat (map (piece data c) [0 ..< n_pieces data c]))"
    by (intro combine_temp_pieces) (simp add: temp_holds_def)
  with \<open>is_complete a\<close> a show "assembled_bytes a = Inr data"
    by (simp add: assembled_bytes_def temp_inv_def expects_def concat_pieces upto_map_int)
qed

lemma add_chunk_feed:
  "a_id a = tid \<Longrightarrow> add_chunk (wire_chunk tid data c i) a
     = Inr (is_complete (feed tid data c i a), feed tid data c i a)"
  by (simp add: feed_def add_chunk_def Let_def)

text \<open>
  \<open>set_expected_chunks\<close> on a fresh or reset assembler makes it a sink in one of the two modes,
  as the allocation goes.
\<close>

definition reset_for :: "string \<Rightarrow> assembler \<Rightarrow> bool" where
  "reset_for tid a \<longleftrightarrow> a_id a = tid \<and> a_received a = {} \<and> a_buffer a = None"

definition announced :: "(int \<Rightarrow> bool) \<Rightarrow> bytes \<Rightarrow> nat \<Rightarrow> assembler \<Rightarrow> assembler" where
  "announced can_alloc data c a =
     set_expected_chunks can_alloc (int (n_pieces data c)) (Some (int (length data))) (Some (int c)) a"

lemma announced_sink:
  assumes "reset_for tid a" "0 < c" "data \<noteq> []"
  shows "if can_alloc (int (length data)) then buffer_inv tid data c (announced can_alloc data c a)
         else temp_inv tid data c (announced can_alloc data c a)"
    and "received_pieces (announced can_alloc data c a) = {}"
  using assms
  by (simp_all add: announced_def set_expected_chunks_def reset_for_def buffer_inv_def temp_inv_def
      expects_def received_pieces_def Let_def)

lemma announced_feed:
  assumes "reset_for tid a" "0 < c" "data \<noteq> []" "set js \<subseteq> {..<n_pieces data c}"
    and "a' = fold (feed tid data c) js (announced can_alloc data c a)"
  shows "a_id a' = tid"
    and "is_complete a' \<longleftrightarrow> set js = {..<n_pieces data c}"
    and "is_complete a' \<Longrightarrow> assembled_bytes a' = Inr data"
proof -
  note S = announced_sink [OF assms(1-3), of can_alloc]
  have "a_id a' = tid \<and> (is_complete a' \<longleftrightarrow> set js = {..<n_pieces data c}) \<and>
      (is_complete a' \<longrightarrow> assembled_bytes a' = Inr data)"
  proof (cases "can_alloc (int (length data))")
    case True
    with S(1) have b: "buffer_inv tid data c (announced can_alloc data c a)" by simp
    have "buffer_inv tid data c a'"
      using buf.fold_put [OF b assms(4)] assms(5) by simp
    with buf.complete_fold [OF b S(2) assms(4)] buf.result_fold [OF b _ S(2)] show ?thesis
      by (auto simp: assms(5) buffer_inv_def expects_def)
  next
    case False
    with S(1) have b: "temp_inv tid data c (announced can_alloc data c a)" by simp
    have "temp_inv tid data c a'"
      using temp.fold_put [OF b assms(4)] assms(5) by simp
    with temp.complete_fold [OF b S(2) assms(4)] temp.result_fold [OF b _ S(2)] show ?thesis
      by (auto simp: assms(5) temp_inv_def expects_def)
  qed
  then show "a_id a' = tid" "is_complete a' \<longleftrightarrow> set js = {..<n_pieces data c}"
    "is_complete a' \<Longrightarrow> assembled_bytes a' = Inr data" by simp_all
qed

section \<open>Properties of splitting and assembling\<close>

text \<open>
  The chunks of a payload: numbered from zero, none empty, none larger than the maximum,
  all but the last exactly that large, and together the payload.
\<close>

theorem create_chunks_split:
  assumes "0 < c"
  shows "\<exists>cs. create_chunks data tid (int c) = Inr cs \<and>
    concat (map cd_data cs) = data \<and>
    map cd_index cs = map int [0 ..< length cs] \<and>
    length cs = (length data + c - 1) div c \<and>
    (\<forall>ch \<in> set cs. cd_transferId ch = tid \<and> cd_data ch \<noteq> [] \<and> length (cd_data ch) \<le> c) \<and>
    (\<forall>i. Suc i < length cs \<longrightarrow> length (cd_data (cs ! i)) = c)"
proof -
  define cs where "cs = map (\<lambda>i. \<lparr>cd_transferId = tid, cd_index = int i, cd_data = piece data c i\<rparr>)
    [0 ..< n_pieces data c]"
  have "length (piece data c i) = c" if "Suc i < n_pieces data c" for i
    using n_pieces_bounds(2) [OF assms that] that assms by (simp add: length_piece min_def)
  then have "\<forall>i. Suc i < length cs \<longrightarrow> length (cd_data (cs ! i)) = c"
    by (simp add: cs_def)
  moreover have ne: "piece data c i \<noteq> []" if "i < n_pieces data c" for i
    using piece_positive [OF assms that] by auto
  moreover have "\<forall>ch \<in> set cs. cd_transferId ch = tid \<and> cd_data ch \<noteq> [] \<and> length (cd_data ch) \<le> c"
    using ne by (auto simp: cs_def length_piece [OF assms])
  moreover have "concat (map cd_data cs) = data"
    by (simp add: cs_def o_def concat_pieces assms)
  moreover have "map cd_index cs = map int [0 ..< length cs]" "length cs = (length data + c - 1) div c"
    by (simp_all add: cs_def o_def n_pieces_def)
  ultimately show ?thesis
    using create_chunks_pieces [OF assms, of data tid] by (auto simp: cs_def)
qed

theorem create_chunks_split_witness:
  "\<exists>cs. create_chunks [1, 2, 3, 4, 5] ''t'' (int 2) = Inr cs \<and> concat (map cd_data cs) = [1, 2, 3, 4, 5]"
  using create_chunks_split [of 2 "[1, 2, 3, 4, 5]" "''t''"] by auto

text \<open>Running the assembler over a list of chunks, as the manager does for one transfer.\<close>

fun receive_all :: "raw_chunk list \<Rightarrow> assembler \<Rightarrow> exc + assembler" where
  "receive_all [] a = Inr a"
| "receive_all (ch # chs) a =
     (case add_chunk ch a of Inl e \<Rightarrow> Inl e | Inr (_, a') \<Rightarrow> receive_all chs a')"

lemma receive_all_feed:
  "a_id a = tid \<Longrightarrow> receive_all (map (wire_chunk tid data c) js) a = Inr (fold (feed tid data c) js a)"
proof (induction js arbitrary: a)
  case (Cons j js)
  have "a_id (feed tid data c j a) = tid"
    using Cons.prems by (auto simp: feed_def add_chunk_def Let_def split: option.splits)
  with Cons show ?case by (simp add: add_chunk_feed)
qed simp

text \<open>
  C8. Reassembly does not depend on the order of the chunks, on repeated chunks, or on whether
  the buffer could be allocated: the assembler is complete exactly when every chunk has come,
  and then it decodes the sender's payload.
\<close>

theorem assembler_any_order:
  assumes "create_chunks data tid (int c) = Inr cs" "0 < c" "data \<noteq> []" "set ds \<subseteq> set cs"
    and "a0 = set_expected_chunks can_alloc (int (length cs)) (Some (int (length data))) (Some (int c))
               (new_assembler tid)"
  shows "\<exists>a. receive_all (map (\<lambda>ch. normalize_chunk tid (client_chunk tid (cd_index ch) (cd_data ch))) ds) a0
           = Inr a \<and>
         (is_complete a \<longleftrightarrow> set ds = set cs) \<and>
         (is_complete a \<longrightarrow> get_data unpack a = decode_message unpack data)"
proof -
  define mk where "mk i = \<lparr>cd_transferId = tid, cd_index = int i, cd_data = piece data c i\<rparr>" for i
  define js where "js = map (\<lambda>ch. nat (cd_index ch)) ds"
  let ?n = "n_pieces data c"
  have cs: "cs = map mk [0 ..< ?n]"
    using assms(1) create_chunks_pieces [OF assms(2), of data tid] by (simp add: mk_def [abs_def])
  have mem: "\<exists>i < ?n. ch = mk i" if "ch \<in> set ds" for ch
    using that assms(4) by (force simp: cs)
  have ds: "ds = map mk js"
  proof -
    have "mk (nat (cd_index ch)) = ch" if "ch \<in> set ds" for ch
      using mem [OF that] by (auto simp: mk_def)
    then show ?thesis by (simp add: js_def o_def map_idI)
  qed
  have sub: "set js \<subseteq> {..<?n}" using mem by (fastforce simp: js_def mk_def)
  have inj: "inj mk" by (rule injI) (simp add: mk_def)
  have all: "set ds = set cs \<longleftrightarrow> set js = {..<?n}"
    using inj by (simp add: ds cs inj_image_eq_iff atLeast0LessThan)
  have wire: "map (\<lambda>ch. normalize_chunk tid (client_chunk tid (cd_index ch) (cd_data ch))) ds
      = map (wire_chunk tid data c) js"
    by (simp add: ds wire_chunk_def mk_def o_def)
  have r: "reset_for tid (new_assembler tid)" by (simp add: reset_for_def new_assembler_def)
  have a0: "a0 = announced can_alloc data c (new_assembler tid)"
    by (simp add: assms(5) announced_def cs)
  note F = announced_feed [OF r assms(2,3) sub refl, of can_alloc]
  have "a_id a0 = tid" using announced_feed(1) [OF r assms(2,3), of "[]" _ can_alloc] by (simp add: a0)
  with F show ?thesis
    by (auto simp: wire all receive_all_feed a0 get_data_def)
qed

theorem assembler_any_order_witness:
  "\<exists>a. receive_all (map (\<lambda>ch. normalize_chunk ''t'' (client_chunk ''t'' (cd_index ch) (cd_data ch)))
          [\<lparr>cd_transferId = ''t'', cd_index = 1, cd_data = [3]\<rparr>,
           \<lparr>cd_transferId = ''t'', cd_index = 0, cd_data = [1, 2]\<rparr>,
           \<lparr>cd_transferId = ''t'', cd_index = 1, cd_data = [3]\<rparr>])
        (set_expected_chunks (\<lambda>_. True) 2 (Some 3) (Some 2) (new_assembler ''t'')) = Inr a \<and>
       is_complete a \<and> get_data (\<lambda>_. Inr PNone) a = Inr PNone"
proof -
  have cs: "create_chunks [1, 2, 3] ''t'' (int 2) =
      Inr [\<lparr>cd_transferId = ''t'', cd_index = 0, cd_data = [1, 2]\<rparr>,
           \<lparr>cd_transferId = ''t'', cd_index = 1, cd_data = [3]\<rparr>]"
    by code_simp
  show ?thesis
    using assembler_any_order [OF cs _ _ _ refl, of "[\<lparr>cd_transferId = ''t'', cd_index = 1, cd_data = [3]\<rparr>,
       \<lparr>cd_transferId = ''t'', cd_index = 0, cd_data = [1, 2]\<rparr>, \<lparr>cd_transferId = ''t'', cd_index = 1, cd_data = [3]\<rparr>]"
       "\<lambda>_. True" "\<lambda>_. Inr PNone"]
    by (auto simp: decode_message_def HEADER_SIZE_def)
qed

end
