(* ===== verification/Chunking_Manager.thy ===== *)
theory Chunking_Manager
  imports Chunking_Assembly
begin

text \<open>
  The manager of \<open>chunking.py\<close> over whole runs: the invariant that ties its registries
  together, the accounting of callbacks, and the delivery of one transfer among others.
\<close>

section \<open>Runs of the manager\<close>

text \<open>
  The operations that the subscribers invoke; \<open>start_receiving\<close> for a chunk header,
  \<open>process_chunk\<close> for a chunk.
\<close>

datatype 'cb chunk_op =
    Start int string int 'cb 'cb "int option" "int option"
  | Chunk int raw_chunk
  | Cancel string

fun chunk_step :: "(int \<Rightarrow> bool) \<Rightarrow> (bytes \<Rightarrow> exc + pyval) \<Rightarrow> 'cb chunk_op
    \<Rightarrow> 'cb manager \<Rightarrow> 'cb manager \<times> 'cb chunk_event list" where
  "chunk_step can_alloc unpack (Start now tid n ok er tsize csize) m =
     start_receiving can_alloc now tid n ok er tsize csize m"
| "chunk_step can_alloc unpack (Chunk now ch) m = process_chunk unpack now ch m"
| "chunk_step can_alloc unpack (Cancel tid) m = cancel tid m"

fun chunk_run :: "(int \<Rightarrow> bool) \<Rightarrow> (bytes \<Rightarrow> exc + pyval) \<Rightarrow> 'cb chunk_op list
    \<Rightarrow> 'cb manager \<Rightarrow> 'cb manager \<times> 'cb chunk_event list" where
  "chunk_run can_alloc unpack [] m = (m, [])"
| "chunk_run can_alloc unpack (op # ops) m =
     (case chunk_step can_alloc unpack op m of
        (m1, evs1) \<Rightarrow> (case chunk_run can_alloc unpack ops m1 of (m2, evs2) \<Rightarrow> (m2, evs1 @ evs2)))"

section \<open>The invariant\<close>

definition transfers :: "'cb manager \<Rightarrow> string set" where
  "transfers m = dkeys (m_assemblers m)"

definition mgr_ok :: "'cb manager \<Rightarrow> bool" where
  "mgr_ok m \<longleftrightarrow>
     dkeys (m_completed m) = transfers m \<and> dkeys (m_errors m) = transfers m \<and>
     dkeys (m_activity m) = transfers m \<and> distinct (map fst (m_activity m)) \<and>
     length (m_pool m) \<le> 10 \<and> list_all (\<lambda>a. a_buffer a = None \<and> a_temp a = []) (m_pool m) \<and>
     (\<forall>tid a. dget (m_assemblers m) tid = Some a \<longrightarrow> a_id a = tid)"

text \<open>What the registries say of one transfer.\<close>

definition view :: "'cb manager \<Rightarrow> string \<Rightarrow> assembler option \<times> 'cb option \<times> 'cb option \<times> int option" where
  "view m t = (dget (m_assemblers m) t, dget (m_completed m) t, dget (m_errors m) t, dget (m_activity m) t)"

lemma return_assembler_fields [simp]:
  "m_assemblers (return_assembler a m) = m_assemblers m"
  "m_completed (return_assembler a m) = m_completed m"
  "m_errors (return_assembler a m) = m_errors m"
  "m_activity (return_assembler a m) = m_activity m"
  "m_last_sweep (return_assembler a m) = m_last_sweep m"
  by (simp_all add: return_assembler_def Let_def)

lemma return_assembler_pool:
  "length (m_pool m) \<le> 10 \<and> list_all (\<lambda>a. a_buffer a = None \<and> a_temp a = []) (m_pool m) \<Longrightarrow>
   length (m_pool (return_assembler a m)) \<le> 10 \<and>
   list_all (\<lambda>a. a_buffer a = None \<and> a_temp a = []) (m_pool (return_assembler a m))"
  by (simp add: return_assembler_def Let_def)

lemma mgr_ok_return: "mgr_ok m \<Longrightarrow> mgr_ok (return_assembler a m)"
  using return_assembler_pool [of m a] by (simp add: mgr_ok_def transfers_def)

lemma transfers_iff: "t \<in> transfers m \<longleftrightarrow> (\<exists>a. dget (m_assemblers m) t = Some a)"
  by (simp add: transfers_def pd.in_keys_iff)

lemma mgr_okD:
  assumes "mgr_ok m"
  shows "t \<in> transfers m \<Longrightarrow> \<exists>cb. dget (m_errors m) t = Some cb"
    "t \<in> transfers m \<Longrightarrow> \<exists>cb. dget (m_completed m) t = Some cb"
    "t \<notin> transfers m \<Longrightarrow> dget (m_errors m) t = None"
    "t \<notin> transfers m \<Longrightarrow> dget (m_completed m) t = None"
    "t \<notin> transfers m \<Longrightarrow> dget (m_activity m) t = None"
  using assms unfolding mgr_ok_def by (metis pd.in_keys_iff not_None_eq)+

text \<open>The common step: one transfer leaves all registries and its assembler is pooled.\<close>

definition drop_transfer :: "string \<Rightarrow> 'cb manager \<Rightarrow> 'cb manager" where
  "drop_transfer tid m =
     m\<lparr>m_assemblers := dpop tid (m_assemblers m), m_completed := dpop tid (m_completed m),
       m_errors := dpop tid (m_errors m), m_activity := dpop tid (m_activity m)\<rparr>"

lemma drop_transfer_ok:
  assumes "mgr_ok m"
  shows "mgr_ok (drop_transfer tid m)" "transfers (drop_transfer tid m) = transfers m - {tid}"
    "t \<noteq> tid \<Longrightarrow> view (drop_transfer tid m) t = view m t"
  using assms by (auto simp: mgr_ok_def drop_transfer_def transfers_def view_def distinct_delete)

lemma mgr_eqI:
  "m_assemblers m = m_assemblers m' \<Longrightarrow> m_completed m = m_completed m' \<Longrightarrow> m_errors m = m_errors m' \<Longrightarrow>
   m_pool m = m_pool m' \<Longrightarrow> m_activity m = m_activity m' \<Longrightarrow> m_last_sweep m = m_last_sweep m' \<Longrightarrow>
   (m :: 'cb manager) = m'"
  by simp

lemma handle_error_eq:
  "handle_error tid e m =
     ((case dget (m_assemblers m) tid of None \<Rightarrow> drop_transfer tid m
       | Some a \<Rightarrow> return_assembler a (drop_transfer tid m)),
      case dget (m_errors m) tid of None \<Rightarrow> [] | Some cb \<Rightarrow> [Errored cb e])"
  by (auto simp: handle_error_def drop_transfer_def return_assembler_def Let_def split: option.splits)

text \<open>Retiring one transfer, in whatever way: what it means for the rest.\<close>

lemma view_return [simp]: "view (return_assembler a m) = view m"
  by (rule ext) (simp add: view_def)

lemma transfers_return [simp]: "transfers (return_assembler a m) = transfers m"
  by (simp add: transfers_def)

lemma handle_error_ok:
  assumes "mgr_ok m" "handle_error tid e m = (m', evs)"
  shows "mgr_ok m'" "transfers m' = transfers m - {tid}" "t \<noteq> tid \<Longrightarrow> view m' t = view m t"
    "evs = (case dget (m_errors m) tid of None \<Rightarrow> [] | Some cb \<Rightarrow> [Errored cb e])"
  using assms drop_transfer_ok [OF assms(1)]
  by (auto simp: handle_error_eq mgr_ok_return split: option.splits)

lemma finite_transfers [simp]: "finite (transfers m)"
  by (simp add: transfers_def)

text \<open>
  Every callback belongs to one transfer: \<open>owner cb\<close>. The accounting of one operation from the
  manager's side is \<open>balance\<close>: per transfer, the callbacks made and the entries left add up to
  the entries before.
\<close>

fun event_cb :: "'cb chunk_event \<Rightarrow> 'cb" where
  "event_cb (Completed cb _) = cb"
| "event_cb (Errored cb _) = cb"

definition calls_of :: "('cb \<Rightarrow> string) \<Rightarrow> string \<Rightarrow> 'cb chunk_event list \<Rightarrow> 'cb chunk_event list" where
  "calls_of owner t evs = filter (\<lambda>ev. owner (event_cb ev) = t) evs"

lemma calls_of_append [simp]: "calls_of owner t (xs @ ys) = calls_of owner t xs @ calls_of owner t ys"
  by (simp add: calls_of_def)

lemma calls_of_Nil [simp]: "calls_of owner t [] = []"
  by (simp add: calls_of_def)

definition owned :: "('cb \<Rightarrow> string) \<Rightarrow> 'cb manager \<Rightarrow> bool" where
  "owned owner m \<longleftrightarrow> mgr_ok m \<and>
     (\<forall>t cb. dget (m_completed m) t = Some cb \<or> dget (m_errors m) t = Some cb \<longrightarrow> owner cb = t)"

definition balance :: "('cb \<Rightarrow> string) \<Rightarrow> 'cb manager \<Rightarrow> 'cb chunk_event list \<Rightarrow> 'cb manager \<Rightarrow> bool" where
  "balance owner m evs m' \<longleftrightarrow> owned owner m' \<and>
     (\<forall>t. length (calls_of owner t evs) + of_bool (t \<in> transfers m') = of_bool (t \<in> transfers m))"

lemma balance_refl: "owned owner m \<Longrightarrow> balance owner m [] m"
  by (simp add: balance_def)

lemma balance_trans:
  "balance owner m evs1 m1 \<Longrightarrow> balance owner m1 evs2 m2 \<Longrightarrow> balance owner m (evs1 @ evs2) m2"
proof -
  assume a: "balance owner m evs1 m1" and b: "balance owner m1 evs2 m2"
  have "length (calls_of owner t (evs1 @ evs2)) + of_bool (t \<in> transfers m2) = of_bool (t \<in> transfers m)" for t
  proof -
    have "length (calls_of owner t evs1) + of_bool (t \<in> transfers m1) = of_bool (t \<in> transfers m)"
      "length (calls_of owner t evs2) + of_bool (t \<in> transfers m2) = of_bool (t \<in> transfers m1)"
      using a b unfolding balance_def by blast+
    then show ?thesis by simp
  qed
  then show ?thesis using b unfolding balance_def by blast
qed

lemma balance_owned: "balance owner m evs m' \<Longrightarrow> owned owner m'"
  by (simp add: balance_def)

lemma owned_ok: "owned owner m \<Longrightarrow> mgr_ok m"
  by (simp add: owned_def)

lemma balance_quiet:
  assumes "balance owner m evs m'" "t \<in> transfers m' \<or> t \<notin> transfers m"
  shows "calls_of owner t evs = []"
proof -
  have "length (calls_of owner t evs) + of_bool (t \<in> transfers m') = of_bool (t \<in> transfers m)"
    using assms(1) unfolding balance_def by blast
  with assms(2) have "length (calls_of owner t evs) = 0"
    by (cases "t \<in> transfers m"; cases "t \<in> transfers m'") simp_all
  then show ?thesis by simp
qed

text \<open>Whatever retires one transfer and calls one of its callbacks keeps the balance.\<close>

lemma balance_retire:
  assumes "owned owner m" "mgr_ok m'" "transfers m' = transfers m - {tid}"
    and "\<And>t. t \<noteq> tid \<Longrightarrow> view m' t = view m t"
    and "if tid \<in> transfers m then \<exists>ev. evs = [ev] \<and> owner (event_cb ev) = tid else evs = []"
  shows "balance owner m evs m'"
proof -
  have "owner cb = t" if "dget (m_completed m') t = Some cb \<or> dget (m_errors m') t = Some cb" for t cb
  proof (cases "t = tid")
    case True
    then show ?thesis using that mgr_okD(3,4) [OF assms(2), of tid] assms(3) by auto
  next
    case False
    then have "dget (m_completed m') t = dget (m_completed m) t" "dget (m_errors m') t = dget (m_errors m) t"
      using assms(4) [OF False] by (simp_all add: view_def)
    then show ?thesis using that assms(1) unfolding owned_def by metis
  qed
  then have "owned owner m'" using assms(2) by (simp add: owned_def)
  moreover have "length (calls_of owner t evs) + of_bool (t \<in> transfers m') = of_bool (t \<in> transfers m)" for t
  proof (cases "tid \<in> transfers m")
    case True
    then obtain ev where "evs = [ev]" "owner (event_cb ev) = tid" using assms(5) by auto
    then show ?thesis using True by (auto simp: calls_of_def assms(3))
  next
    case False
    then show ?thesis using assms(5) by (simp add: assms(3))
  qed
  ultimately show ?thesis by (simp add: balance_def)
qed

lemma handle_error_balance:
  assumes "owned owner m" "handle_error tid e m = (m', evs)"
  shows "balance owner m evs m'"
proof (rule balance_retire [OF assms(1)])
  note H = handle_error_ok [OF owned_ok [OF assms(1)] assms(2)]
  show "mgr_ok m'" "transfers m' = transfers m - {tid}" "\<And>t. t \<noteq> tid \<Longrightarrow> view m' t = view m t"
    using H by auto
  show "if tid \<in> transfers m then \<exists>ev. evs = [ev] \<and> owner (event_cb ev) = tid else evs = []"
  proof (cases "tid \<in> transfers m")
    case True
    then obtain cb where cb: "dget (m_errors m) tid = Some cb"
      using mgr_okD(1) [OF owned_ok [OF assms(1)]] by blast
    then have "owner cb = tid" using assms(1) unfolding owned_def by blast
    with True cb show ?thesis by (simp add: H(4))
  next
    case False
    then show ?thesis using mgr_okD(3) [OF owned_ok [OF assms(1)]] by (simp add: H(4))
  qed
qed

section \<open>The sweep\<close>

lemma drop_stale_balance:
  assumes "owned owner m" "drop_stale tids m = (m', evs)"
  shows "balance owner m evs m' \<and> (\<forall>t. t \<notin> set tids \<longrightarrow> view m' t = view m t)"
  using assms
proof (induction tids arbitrary: m m' evs)
  case (Cons tid tids)
  obtain m1 evs1 where h: "handle_error tid (Raised RuntimeError ''Transfer timed out'') m = (m1, evs1)"
    by fastforce
  obtain evs2 where d: "drop_stale tids m1 = (m', evs2)" and evs: "evs = evs1 @ evs2"
    using Cons.prems(2) h by (auto split: prod.splits)
  note B = handle_error_balance [OF Cons.prems(1) h]
  note IH = Cons.IH [OF balance_owned [OF B] d]
  show ?case
    using balance_trans [OF B] IH handle_error_ok(3) [OF owned_ok [OF Cons.prems(1)] h]
    by (simp add: evs)
qed (simp add: balance_refl)

definition stale_at :: "int \<Rightarrow> 'cb manager \<Rightarrow> string \<Rightarrow> bool" where
  "stale_at now m t =
     (case dget (m_activity m) t of None \<Rightarrow> False | Some ts \<Rightarrow> ts < now - STALE_TRANSFER_TTL)"

lemma sweep_time [simp]:
  "owned owner (m\<lparr>m_last_sweep := now\<rparr>) = owned owner m"
  "view (m\<lparr>m_last_sweep := now\<rparr>) = view m"
  "balance owner (m\<lparr>m_last_sweep := now\<rparr>) evs m' = balance owner m evs m'"
  by (auto simp: owned_def mgr_ok_def transfers_def view_def balance_def fun_eq_iff)

lemma sweep_cases:
  assumes "mgr_ok m" "sweep_stale now m = (m', evs)"
  obtains "m' = m" "evs = []"
  | stale where "set stale = {t. stale_at now m t}"
      "drop_stale stale (m\<lparr>m_last_sweep := now\<rparr>) = (m', evs)"
proof -
  define stale where "stale = map fst (filter (\<lambda>(tid, ts). ts < now - STALE_TRANSFER_TTL) (m_activity m))"
  have "distinct (map fst (m_activity m))" using assms(1) by (simp add: mgr_ok_def)
  then have "(t, ts) \<in> set (m_activity m) \<longleftrightarrow> dget (m_activity m) t = Some ts" for t ts by simp
  then have stale: "set stale = {t. stale_at now m t}"
    by (auto simp: stale_def stale_at_def image_iff split: option.splits)
  consider "m' = m" "evs = []" | "drop_stale stale (m\<lparr>m_last_sweep := now\<rparr>) = (m', evs)"
  proof (cases "m_activity m = [] \<or> now - m_last_sweep m < SWEEP_INTERVAL")
    case True
    then show ?thesis using assms(2) that(1) by (simp add: sweep_stale_def split: if_splits)
  next
    case False
    then show ?thesis using assms(2) that(2) by (simp add: sweep_stale_def stale_def Let_def)
  qed
  then show thesis using that stale by cases blast+
qed

lemma sweep_balance:
  assumes "owned owner m" "sweep_stale now m = (m', evs)"
  shows "balance owner m evs m'" "\<not> stale_at now m t \<Longrightarrow> view m' t = view m t"
proof -
  have "balance owner m evs m' \<and> (\<forall>t. \<not> stale_at now m t \<longrightarrow> view m' t = view m t)"
  proof (rule sweep_cases [OF owned_ok [OF assms(1)] assms(2)])
    fix stale assume s: "set stale = {t. stale_at now m t}"
      and d: "drop_stale stale (m\<lparr>m_last_sweep := now\<rparr>) = (m', evs)"
    show ?thesis
      using drop_stale_balance [OF _ d, of owner] assms(1) by (simp add: s)
  next
    assume "m' = m" "evs = []"
    then show ?thesis by (simp add: balance_refl assms(1))
  qed
  then show "balance owner m evs m'" "\<not> stale_at now m t \<Longrightarrow> view m' t = view m t" by blast+
qed

section \<open>Chunks and headers\<close>

text \<open>Noting a chunk of a running transfer: its time and its assembler.\<close>

definition touch :: "int \<Rightarrow> string \<Rightarrow> assembler \<Rightarrow> 'cb manager \<Rightarrow> 'cb manager" where
  "touch now tid a m = m\<lparr>m_activity := dset tid now (m_activity m), m_assemblers := dset tid a (m_assemblers m)\<rparr>"

lemma touch_ok:
  assumes "owned owner m" "tid \<in> transfers m" "a_id a = tid"
  shows "owned owner (touch now tid a m)" "transfers (touch now tid a m) = transfers m"
    "t \<noteq> tid \<Longrightarrow> view (touch now tid a m) t = view m t" "balance owner m [] (touch now tid a m)"
    "view (touch now tid a m) tid = (Some a, dget (m_completed m) tid, dget (m_errors m) tid, Some now)"
proof -
  show T: "transfers (touch now tid a m) = transfers m"
    using assms(2) by (auto simp: touch_def transfers_def)
  have "mgr_ok (touch now tid a m)"
    using owned_ok [OF assms(1)] assms(2,3) T
    by (auto simp: mgr_ok_def touch_def transfers_def distinct_update)
  moreover have "m_completed (touch now tid a m) = m_completed m" "m_errors (touch now tid a m) = m_errors m"
    by (simp_all add: touch_def)
  ultimately show O: "owned owner (touch now tid a m)"
    using assms(1) by (simp add: owned_def)
  show "balance owner m [] (touch now tid a m)" by (simp add: balance_def O T)
qed (auto simp: touch_def view_def)

lemma add_chunk_id:
  "add_chunk ch a = Inr (b, a') \<Longrightarrow> a_id a' = a_id a"
  by (auto simp: add_chunk_def Let_def split: option.splits if_splits)

lemma update_order:
  "(m :: 'cb manager)\<lparr>m_completed := x, m_assemblers := y\<rparr> = m\<lparr>m_assemblers := y, m_completed := x\<rparr>"
  by (cases m) simp

text \<open>
  What a chunk does after the sweep: nothing, when its transfer is unknown; else it is noted,
  and the transfer goes on, or ends with one call of one of its callbacks.
\<close>

definition chunk_effect :: "(bytes \<Rightarrow> exc + pyval) \<Rightarrow> raw_chunk \<Rightarrow> assembler \<Rightarrow> (assembler, exc + pyval) sum" where
  "chunk_effect unpack ch a =
     (case add_chunk ch a of
        Inl e \<Rightarrow> Inr (Inl e)
      | Inr (complete, a') \<Rightarrow> if complete then Inr (get_data unpack a') else Inl a')"

lemma process_known:
  assumes "owned owner m" "sweep_stale now m = (m1, evs1)" "chunk_transfer_id ch = Some tid"
    and "dget (m_assemblers m1) tid = Some a" "process_chunk unpack now ch m = (m', evs)"
  shows "case chunk_effect unpack (normalize_chunk tid ch) a of
      Inl a' \<Rightarrow> a_id a' = tid \<and> m' = touch now tid a' m1 \<and> evs = evs1
    | Inr r \<Rightarrow> mgr_ok m' \<and> transfers m' = transfers m1 - {tid} \<and> (\<forall>t. t \<noteq> tid \<longrightarrow> view m' t = view m1 t) \<and>
        evs = evs1 @ (case r of Inl e \<Rightarrow> (case dget (m_errors m1) tid of None \<Rightarrow> [] | Some cb \<Rightarrow> [Errored cb e])
                              | Inr v \<Rightarrow> (case dget (m_completed m1) tid of None \<Rightarrow> [] | Some cb \<Rightarrow> [Completed cb v]))"
proof -
  note B1 = sweep_balance(1) [OF assms(1,2)]
  note O1 = balance_owned [OF B1]
  have tid: "tid \<in> transfers m1" using assms(4) by (auto simp: transfers_iff)
  have aid: "a_id a = tid" using owned_ok [OF O1] assms(4) unfolding mgr_ok_def by blast
  let ?m2 = "m1\<lparr>m_activity := dset tid now (m_activity m1)\<rparr>"
  have ok2: "mgr_ok ?m2"
    using owned_ok [OF O1] tid by (auto simp: mgr_ok_def transfers_def distinct_update)
  have t2: "transfers ?m2 = transfers m1" by (simp add: transfers_def)
  have v2: "view ?m2 t = view m1 t" if "t \<noteq> tid" for t using that by (simp add: view_def)
  show ?thesis
  proof (cases "add_chunk (normalize_chunk tid ch) a")
    case (Inl e)
    obtain m3 evs3 where h: "handle_error tid e ?m2 = (m3, evs3)" by fastforce
    have "m' = m3" "evs = evs1 @ evs3"
      using assms(2-5) Inl h by (simp_all add: process_chunk_def)
    with handle_error_ok [OF ok2 h] v2 show ?thesis
      by (simp add: chunk_effect_def Inl t2)
  next
    case (Inr p)
    obtain complete a' where p: "p = (complete, a')" by fastforce
    have aid': "a_id a' = tid" using add_chunk_id Inr aid by (simp add: p)
    let ?m3 = "touch now tid a' m1"
    have m3: "?m2\<lparr>m_assemblers := dset tid a' (m_assemblers ?m2)\<rparr> = ?m3"
      by (simp add: touch_def)
    note T = touch_ok [OF O1 tid aid', where now = now]
    show ?thesis
    proof (cases complete)
      case False
      then show ?thesis
        using assms(2-5) Inr m3 by (simp add: process_chunk_def chunk_effect_def p aid')
    next
      case True
      show ?thesis
      proof (cases "get_data unpack a'")
        case (Inl e)
        obtain m4 evs4 where h: "handle_error tid e ?m3 = (m4, evs4)" by fastforce
        have "m' = m4" "evs = evs1 @ evs4"
          using assms(2-5) Inr True Inl h m3 by (simp_all add: process_chunk_def p)
        with handle_error_ok [OF owned_ok [OF T(1)] h] T(2,3) show ?thesis
          by (simp add: chunk_effect_def Inl Inr p True touch_def)
      next
        case (Inr v)
        have "m' = return_assembler a' (drop_transfer tid ?m3)"
          "evs = evs1 @ (case dget (m_completed m1) tid of None \<Rightarrow> [] | Some cb \<Rightarrow> [Completed cb v])"
          using assms(2-5) \<open>add_chunk _ _ = Inr p\<close> True Inr
          by (auto simp: process_chunk_def p touch_def drop_transfer_def Let_def update_order split: option.splits)
        with drop_transfer_ok [OF owned_ok [OF T(1)], where tid = tid] T(2,3) show ?thesis
          by (simp add: chunk_effect_def Inr \<open>add_chunk _ _ = Inr p\<close> p True mgr_ok_return)
      qed
    qed
  qed
qed

lemma process_unknown:
  assumes "sweep_stale now m = (m1, evs1)"
    and "case chunk_transfer_id ch of None \<Rightarrow> True | Some tid \<Rightarrow> tid \<notin> transfers m1"
  shows "process_chunk unpack now ch m = (m1, evs1)"
proof -
  have "dget (m_assemblers m1) tid = None" if "chunk_transfer_id ch = Some tid" for tid
    using assms(2) that by (simp add: transfers_def map_of_eq_None_iff)
  then show ?thesis by (auto simp: process_chunk_def assms(1) split: option.splits)
qed

lemma process_balance:
  assumes "owned owner m" "process_chunk unpack now ch m = (m', evs)"
  shows "balance owner m evs m'"
    "\<lbrakk>\<not> stale_at now m t; chunk_transfer_id ch \<noteq> Some t\<rbrakk> \<Longrightarrow> view m' t = view m t"
proof -
  obtain m1 evs1 where s: "sweep_stale now m = (m1, evs1)" by fastforce
  note B = sweep_balance [OF assms(1) s]
  note O1 = balance_owned [OF B(1)]
  have "balance owner m evs m' \<and> (chunk_transfer_id ch \<noteq> Some t \<longrightarrow> view m' t = view m1 t)" for t
  proof (cases "case chunk_transfer_id ch of None \<Rightarrow> True | Some tid \<Rightarrow> tid \<notin> transfers m1")
    case True
    with process_unknown [OF s True] assms(2) B(1) show ?thesis by simp
  next
    case False
    then obtain tid a where c: "chunk_transfer_id ch = Some tid" and a: "dget (m_assemblers m1) tid = Some a"
      by (auto simp: transfers_iff split: option.splits)
    have tid: "tid \<in> transfers m1" using a by (auto simp: transfers_iff)
    note K = process_known [OF assms(1) s c a assms(2)]
    show ?thesis
    proof (cases "chunk_effect unpack (normalize_chunk tid ch) a")
      case (Inl a')
      with K have a': "a_id a' = tid" "m' = touch now tid a' m1" "evs = evs1" by simp_all
      show ?thesis
        using balance_trans [OF B(1) touch_ok(4) [OF O1 tid a'(1)]]
          touch_ok(3) [OF O1 tid a'(1), of t now] c by (auto simp: a'(2,3))
    next
      case (Inr r)
      obtain ok er where reg: "dget (m_completed m1) tid = Some ok" "dget (m_errors m1) tid = Some er"
        using mgr_okD(1,2) [OF owned_ok [OF O1] tid] by blast
      then have own: "owner ok = tid" "owner er = tid" using O1 unfolding owned_def by blast+
      from K Inr reg obtain ev where m': "mgr_ok m'" "transfers m' = transfers m1 - {tid}"
          "\<And>t. t \<noteq> tid \<Longrightarrow> view m' t = view m1 t" "evs = evs1 @ [ev]"
        and ev: "event_cb ev = ok \<or> event_cb ev = er"
        by (cases r) auto
      have "balance owner m1 [ev] m'"
        using ev own tid by (intro balance_retire [OF O1 m'(1-3)]) auto
      with balance_trans [OF B(1)] m'(3,4) c show ?thesis by auto
    qed
  qed
  with B(2) show "balance owner m evs m'"
    "\<lbrakk>\<not> stale_at now m t; chunk_transfer_id ch \<noteq> Some t\<rbrakk> \<Longrightarrow> view m' t = view m t"
    by auto
qed

lemma get_assembler_reset:
  assumes "owned owner m" "get_assembler tid m = (a, m')"
  shows "reset_for tid a" "mgr_ok m'" "m_assemblers m' = m_assemblers m" "m_completed m' = m_completed m"
    "m_errors m' = m_errors m" "m_activity m' = m_activity m"
proof -
  have "list_all (\<lambda>a. a_buffer a = None \<and> a_temp a = []) (butlast (m_pool m))"
    using owned_ok [OF assms(1)] by (auto simp: mgr_ok_def list_all_iff dest: in_set_butlastD)
  then have "mgr_ok (m\<lparr>m_pool := butlast (m_pool m)\<rparr>)"
    using owned_ok [OF assms(1)] by (simp add: mgr_ok_def transfers_def) (elim conjE; linarith)
  then show "mgr_ok m'"
    using owned_ok [OF assms(1)] assms(2) by (auto simp: get_assembler_def split: if_splits)
qed (use assms(2) in \<open>auto simp: get_assembler_def reset_for_def new_assembler_def split: if_splits\<close>)

lemma start_ok:
  assumes "owned owner m" "start_receiving can_alloc now tid n ok er tsize csize m = (m', evs)"
    and "owner ok = tid" "owner er = tid"
  obtains m1 a where "sweep_stale now m = (m1, evs)" "reset_for tid a" "owned owner m'"
    "transfers m' = insert tid (transfers m1)" "\<And>t. t \<noteq> tid \<Longrightarrow> view m' t = view m1 t"
    "view m' tid = (Some (set_expected_chunks can_alloc n tsize csize a), Some ok, Some er, Some now)"
proof -
  obtain m1 where s: "sweep_stale now m = (m1, evs)"
    using assms(2) by (auto simp: start_receiving_def Let_def split: prod.splits)
  note O1 = balance_owned [OF sweep_balance(1) [OF assms(1) s]]
  obtain a m2 where g: "get_assembler tid m1 = (a, m2)" by fastforce
  note G = get_assembler_reset [OF O1 g]
  let ?a = "set_expected_chunks can_alloc n tsize csize a"
  have m': "m' = m2\<lparr>m_assemblers := dset tid ?a (m_assemblers m2),
      m_completed := dset tid ok (m_completed m2), m_errors := dset tid er (m_errors m2),
      m_activity := dset tid now (m_activity m2)\<rparr>"
    using assms(2) by (simp add: start_receiving_def s g Let_def)
  have id: "a_id ?a = tid"
    using G(1) by (simp add: set_expected_chunks_def reset_for_def Let_def split: option.splits)
  have T: "transfers m' = insert tid (transfers m1)"
    by (simp add: m' transfers_def G)
  have ok: "mgr_ok m'"
    using G(2) id by (auto simp: m' mgr_ok_def transfers_def distinct_update)
  have "owner cb = t" if "dget (m_completed m') t = Some cb \<or> dget (m_errors m') t = Some cb" for t cb
    using that O1 assms(3,4) unfolding owned_def m' by (auto simp: G split: if_splits)
  then have "owned owner m'" using ok by (simp add: owned_def)
  then show thesis
    by (rule that [OF s G(1) _ T]) (auto simp: view_def m' G)
qed

section \<open>Whole runs\<close>

fun started :: "'cb chunk_op list \<Rightarrow> string list" where
  "started [] = []"
| "started (Start now tid n ok er tsize csize # ops) = tid # started ops"
| "started (Chunk now ch # ops) = started ops"
| "started (Cancel tid # ops) = started ops"

text \<open>Both callbacks of a header belong to its transfer.\<close>

fun owns_op :: "('cb \<Rightarrow> string) \<Rightarrow> 'cb chunk_op \<Rightarrow> bool" where
  "owns_op owner (Start now tid n ok er tsize csize) \<longleftrightarrow> owner ok = tid \<and> owner er = tid"
| "owns_op owner _ \<longleftrightarrow> True"

fun op_time :: "'cb chunk_op \<Rightarrow> int option" where
  "op_time (Start now tid n ok er tsize csize) = Some now"
| "op_time (Chunk now ch) = Some now"
| "op_time (Cancel tid) = None"

fun op_about :: "'cb chunk_op \<Rightarrow> string option" where
  "op_about (Start now tid n ok er tsize csize) = Some tid"
| "op_about (Chunk now ch) = chunk_transfer_id ch"
| "op_about (Cancel tid) = Some tid"

text \<open>One operation, seen from the transfer \<open>t\<close>.\<close>

lemma step_accounting:
  assumes "owned owner m" "owns_op owner op" "chunk_step can_alloc unpack op m = (m', evs)"
    and "set (started [op]) \<inter> transfers m = {}"
  shows "owned owner m' \<and> (length (calls_of owner t evs) + of_bool (t \<in> transfers m')
      = of_bool (t \<in> transfers m) + of_bool (t \<in> set (started [op])))"
proof (cases op)
  case (Start now tid n ok er tsize csize)
  then have own: "owner ok = tid" "owner er = tid" and fresh: "tid \<notin> transfers m"
    and s: "start_receiving can_alloc now tid n ok er tsize csize m = (m', evs)"
    using assms(2-4) by simp_all
  obtain m1 a where s: "sweep_stale now m = (m1, evs)" and S: "owned owner m'" "transfers m' = insert tid (transfers m1)"
    using start_ok [OF assms(1) s own] by metis
  have b: "length (calls_of owner t evs) + of_bool (t \<in> transfers m1) = of_bool (t \<in> transfers m)" for t
    using sweep_balance(1) [OF assms(1) s] by (simp add: balance_def)
  have "tid \<notin> transfers m1" using b [of tid] fresh by (cases "tid \<in> transfers m1") simp_all
  then show ?thesis using b [of t] S by (auto simp: Start)
next
  case (Chunk now ch)
  then have "balance owner m evs m'" using process_balance(1) assms(1,3) by simp
  then show ?thesis by (simp add: Chunk balance_def)
next
  case (Cancel tid)
  then have "balance owner m evs m'" using handle_error_balance assms(1,3) by (simp add: cancel_def)
  then show ?thesis by (simp add: Cancel balance_def)
qed

lemma started_Cons: "started (op # ops) = started [op] @ started ops"
  by (cases op) simp_all

lemma run_accounting:
  assumes "owned owner m" "list_all (owns_op owner) ops" "distinct (started ops)"
    and "set (started ops) \<inter> transfers m = {}" "chunk_run can_alloc unpack ops m = (m', evs)"
  shows "owned owner m' \<and> (length (calls_of owner t evs) + of_bool (t \<in> transfers m')
      = of_bool (t \<in> transfers m) + of_bool (t \<in> set (started ops)))"
  using assms
proof (induction ops arbitrary: m m' evs)
  case (Cons op ops)
  obtain m1 evs1 where s: "chunk_step can_alloc unpack op m = (m1, evs1)" by fastforce
  obtain evs2 where r: "chunk_run can_alloc unpack ops m1 = (m', evs2)" and evs: "evs = evs1 @ evs2"
    using Cons.prems(5) s by (auto split: prod.splits)
  have fresh: "set (started [op]) \<inter> transfers m = {}" and d: "distinct (started ops)"
    "set (started [op]) \<inter> set (started ops) = {}"
    using Cons.prems(3,4) by (auto simp: started_Cons [of op ops])
  have own: "owns_op owner op" "list_all (owns_op owner) ops" using Cons.prems(2) by simp_all
  note A = step_accounting [OF Cons.prems(1) own(1) s fresh]
  have "u \<notin> transfers m1" if "u \<in> set (started ops)" for u
  proof -
    have "u \<notin> transfers m" "u \<notin> set (started [op])"
      using that Cons.prems(4) d(2) by (auto simp: started_Cons [of op ops])
    then show ?thesis using conjunct2 [OF A, of u] by (cases "u \<in> transfers m1") simp_all
  qed
  then have fresh1: "set (started ops) \<inter> transfers m1 = {}" by blast
  note IH = Cons.IH [OF conjunct1 [OF A] own(2) d(1) fresh1 r]
  have "of_bool (t \<in> set (started (op # ops)))
      = (of_bool (t \<in> set (started [op])) + of_bool (t \<in> set (started ops)) :: nat)"
    using d(2) by (auto simp: started_Cons [of op ops])
  with A [of t] IH show ?case by (simp add: evs)
qed simp

lemma new_manager_owned [simp]: "owned owner new_manager" "transfers new_manager = {}"
  by (simp_all add: owned_def mgr_ok_def new_manager_def transfers_def)



section \<open>Delivery of one transfer among others\<close>

lemma view_eqD:
  "view m' t = view m t \<Longrightarrow> (t \<in> transfers m' \<longleftrightarrow> t \<in> transfers m)"
  by (simp add: view_def transfers_iff)

lemma absent_not_stale: "mgr_ok m \<Longrightarrow> t \<notin> transfers m \<Longrightarrow> \<not> stale_at now m t"
  using mgr_okD(5) [of m t] by (simp add: stale_at_def)

text \<open>An operation that is about another transfer, with the time to live not run out.\<close>

lemma other_step:
  assumes "owned owner m" "owns_op owner op" "chunk_step can_alloc unpack op m = (m', evs)"
    and "op_about op \<noteq> Some t" "\<And>now. op_time op = Some now \<Longrightarrow> \<not> stale_at now m t"
  shows "owned owner m'" "view m' t = view m t" "calls_of owner t evs = []"
proof -
  have "owned owner m' \<and> view m' t = view m t \<and> calls_of owner t evs = []"
  proof (cases op)
    case (Start now tid n ok er tsize csize)
    then have own: "owner ok = tid" "owner er = tid" and ne: "tid \<noteq> t"
      and s: "start_receiving can_alloc now tid n ok er tsize csize m = (m', evs)"
      and ns: "\<not> stale_at now m t"
      using assms(2-5) by simp_all
    obtain m1 where w: "sweep_stale now m = (m1, evs)" "owned owner m'" "view m' t = view m1 t"
      using start_ok [OF assms(1) s own] ne by metis
    note B = sweep_balance [OF assms(1) w(1)]
    have "view m1 t = view m t" by (rule B(2) [OF ns])
    with w(2,3) balance_quiet [OF B(1)] view_eqD [of m1 t m] show ?thesis by auto
  next
    case (Chunk now ch)
    then have p: "process_chunk unpack now ch m = (m', evs)" and "\<not> stale_at now m t" "chunk_transfer_id ch \<noteq> Some t"
      using assms(3-5) by simp_all
    note B = process_balance [OF assms(1) p]
    have "view m' t = view m t" by (rule B(2)) fact+
    with B(1) balance_owned balance_quiet [OF B(1)] view_eqD [of m' t m] show ?thesis by auto
  next
    case (Cancel tid)
    then have h: "handle_error tid (Raised RuntimeError ''Transfer cancelled'') m = (m', evs)" and "t \<noteq> tid"
      using assms(3,4) by (auto simp: cancel_def)
    note B = handle_error_balance [OF assms(1) h]
    have "view m' t = view m t" by (rule handle_error_ok(3) [OF owned_ok [OF assms(1)] h]) fact
    with B balance_owned balance_quiet [OF B] view_eqD [of m' t m] show ?thesis by auto
  qed
  then show "owned owner m'" "view m' t = view m t" "calls_of owner t evs = []" by blast+
qed

text \<open>The chunks of one transfer among the operations: \<open>ds\<close> in their order of arrival.\<close>

fun chunks_of :: "string \<Rightarrow> 'cb chunk_op list \<Rightarrow> 'cb chunk_op list" where
  "chunks_of tid ops = filter (\<lambda>op. op_about op = Some tid) ops"

definition carries :: "string \<Rightarrow> bytes \<Rightarrow> nat \<Rightarrow> 'cb chunk_op \<Rightarrow> nat \<Rightarrow> bool" where
  "carries tid data c op i \<longleftrightarrow> (\<exists>now. op = Chunk now (client_chunk tid (int i) (piece data c i)))"

definition result_event :: "'cb \<Rightarrow> 'cb \<Rightarrow> exc + pyval \<Rightarrow> 'cb chunk_event" where
  "result_event ok er r = (case r of Inl e \<Rightarrow> Errored er e | Inr v \<Rightarrow> Completed ok v)"

lemma client_chunk_id: "tid \<noteq> [] \<Longrightarrow> chunk_transfer_id (client_chunk tid i d) = Some tid"
  by (simp add: chunk_transfer_id_def client_chunk_def)

text \<open>After the transfer is gone, nothing brings it back and late chunks are dropped.\<close>

lemma run_gone:
  assumes "owned owner m" "tid \<notin> transfers m" "tid \<noteq> []" "list_all (owns_op owner) ops"
    and "list_all2 (carries tid data c) (chunks_of tid ops) js"
    and "chunk_run can_alloc unpack ops m = (m', evs)"
  shows "tid \<notin> transfers m' \<and> calls_of owner tid evs = []"
  using assms
proof (induction ops arbitrary: m m' evs js)
  case (Cons op ops)
  obtain m1 evs1 where s: "chunk_step can_alloc unpack op m = (m1, evs1)" by fastforce
  obtain evs2 where r: "chunk_run can_alloc unpack ops m1 = (m', evs2)" and evs: "evs = evs1 @ evs2"
    using Cons.prems(6) s by (auto split: prod.splits)
  have own: "owns_op owner op" "list_all (owns_op owner) ops" using Cons.prems(4) by simp_all
  note ns = absent_not_stale [OF owned_ok [OF Cons.prems(1)] Cons.prems(2)]
  have "owned owner m1 \<and> tid \<notin> transfers m1 \<and> calls_of owner tid evs1 = [] \<and>
      (\<exists>js. list_all2 (carries tid data c) (chunks_of tid ops) js)"
  proof (cases "op_about op = Some tid")
    case True
    then obtain j js' where j: "carries tid data c op j"
        and js: "list_all2 (carries tid data c) (chunks_of tid ops) js'"
      using Cons.prems(5) by (auto simp: list_all2_Cons1)
    from j obtain now where "op = Chunk now (client_chunk tid (int j) (piece data c j))"
      by (auto simp: carries_def)
    then have p: "process_chunk unpack now (client_chunk tid (int j) (piece data c j)) m = (m1, evs1)"
      using s by simp
    obtain m0 evs0 where w: "sweep_stale now m = (m0, evs0)" by fastforce
    note B = sweep_balance [OF Cons.prems(1) w]
    have "tid \<notin> transfers m0" using view_eqD [OF B(2) [OF ns]] Cons.prems(2) by simp
    moreover from this have "m1 = m0" "evs1 = evs0"
      using process_unknown [OF w, of "client_chunk tid (int j) (piece data c j)" unpack] p Cons.prems(3)
      by (simp_all add: client_chunk_id)
    ultimately show ?thesis
      using balance_owned [OF B(1)] balance_quiet [OF B(1)] Cons.prems(2) js by auto
  next
    case False
    note O = other_step [OF Cons.prems(1) own(1) s False ns]
    show ?thesis using O view_eqD [OF O(2)] Cons.prems(2,5) False by auto
  qed
  with Cons.IH [OF _ _ Cons.prems(3) own(2) _ r] show ?case by (auto simp: evs)
qed simp

text \<open>While chunks are missing, the transfer stays; the last missing one ends it.\<close>

lemma chunk_effect_feed:
  assumes "reset_for tid a" "0 < c" "data \<noteq> []" "set js \<subseteq> {..<n_pieces data c}" "j < n_pieces data c"
    and "b = fold (feed tid data c) js (announced can_alloc data c a)"
  shows "chunk_effect unpack (normalize_chunk tid (client_chunk tid (int j) (piece data c j))) b =
    (if set (js @ [j]) = {..<n_pieces data c} then Inr (decode_message unpack data)
     else Inl (fold (feed tid data c) (js @ [j]) (announced can_alloc data c a)))"
proof -
  let ?b = "fold (feed tid data c) (js @ [j]) (announced can_alloc data c a)"
  have sub: "set (js @ [j]) \<subseteq> {..<n_pieces data c}" using assms(4,5) by simp
  note F = announced_feed [OF assms(1-3) sub refl, of can_alloc]
  have id: "a_id b = tid" by (rule announced_feed(1) [OF assms(1-4,6)])
  have "add_chunk (wire_chunk tid data c j) b = Inr (is_complete ?b, ?b)"
    using add_chunk_feed [OF id] by (simp add: assms(6))
  then have "chunk_effect unpack (wire_chunk tid data c j) b =
      (if is_complete ?b then Inr (get_data unpack ?b) else Inl ?b)"
    by (simp add: chunk_effect_def)
  then show ?thesis
    using F(2,3) by (simp add: get_data_def flip: wire_chunk_def)
qed

lemma run_delivers:
  assumes "reset_for tid a" "0 < c" "data \<noteq> []" "tid \<noteq> []"
    and "owned owner m" "t0 \<le> ts" "set js \<subset> {..<n_pieces data c}"
    and "view m tid = (Some (fold (feed tid data c) js (announced can_alloc data c a)), Some ok, Some er, Some ts)"
    and "list_all (owns_op owner) ops" "list_all2 (carries tid data c) (chunks_of tid ops) ks"
    and "set ks \<subseteq> {..<n_pieces data c}"
    and "\<forall>op \<in> set ops. \<forall>now. op_time op = Some now \<longrightarrow> t0 \<le> now \<and> now \<le> t0 + STALE_TRANSFER_TTL"
    and "chunk_run can_alloc' unpack ops m = (m', evs)"
  shows "(tid \<in> transfers m' \<longleftrightarrow> set js \<union> set ks \<noteq> {..<n_pieces data c}) \<and> calls_of owner tid evs =
    (if set js \<union> set ks = {..<n_pieces data c} then [result_event ok er (decode_message unpack data)] else [])"
  using assms(5-)
proof (induction ops arbitrary: m m' evs ts js ks)
  case Nil
  then show ?case by (auto simp: view_def transfers_iff)
next
  case (Cons op ops)
  let ?all = "{..<n_pieces data c}"
  obtain m1 evs1 where s: "chunk_step can_alloc' unpack op m = (m1, evs1)" by fastforce
  obtain evs2 where r: "chunk_run can_alloc' unpack ops m1 = (m', evs2)" and evs: "evs = evs1 @ evs2"
    using Cons.prems(9) s by (auto split: prod.splits)
  have own: "owns_op owner op" "list_all (owns_op owner) ops" using Cons.prems(5) by simp_all
  have times: "\<forall>op \<in> set ops. \<forall>now. op_time op = Some now \<longrightarrow> t0 \<le> now \<and> now \<le> t0 + STALE_TRANSFER_TTL"
    using Cons.prems(8) by simp
  have act: "dget (m_activity m) tid = Some ts" using Cons.prems(4) by (simp add: view_def)
  have ns: "\<not> stale_at now m tid" if "op_time op = Some now" for now
    using Cons.prems(2,8) that by (auto simp: stale_at_def act)
  show ?case
  proof (cases "op_about op = Some tid")
    case False
    note O = other_step [OF Cons.prems(1) own(1) s False ns]
    have ks: "list_all2 (carries tid data c) (chunks_of tid ops) ks"
      using Cons.prems(6) False by simp
    show ?thesis
      using Cons.IH [OF O(1) Cons.prems(2,3) _ own(2) ks Cons.prems(7) times r] O(2,3) Cons.prems(4)
      by (simp add: evs)
  next
    case True
    then obtain j ks' where j: "carries tid data c op j" and ks: "ks = j # ks'"
        and ks': "list_all2 (carries tid data c) (chunks_of tid ops) ks'"
      using Cons.prems(6) by (auto simp: list_all2_Cons1)
    from j obtain now where op: "op = Chunk now (client_chunk tid (int j) (piece data c j))"
      by (auto simp: carries_def)
    then have now: "t0 \<le> now" using Cons.prems(8) by auto
    let ?ch = "client_chunk tid (int j) (piece data c j)" and ?A = "announced can_alloc data c a"
    have p: "process_chunk unpack now ?ch m = (m1, evs1)" using s by (simp add: op)
    obtain m0 evs0 where w: "sweep_stale now m = (m0, evs0)" by fastforce
    note B = sweep_balance [OF Cons.prems(1) w]
    have v0: "view m0 tid = view m tid" using B(2) ns by (simp add: op)
    have regs: "dget (m_assemblers m0) tid = Some (fold (feed tid data c) js ?A)"
        "dget (m_completed m0) tid = Some ok" "dget (m_errors m0) tid = Some er"
      using v0 Cons.prems(4) by (simp_all add: view_def)
    have tid0: "tid \<in> transfers m0" using regs(1) by (auto simp: transfers_iff)
    then have q0: "calls_of owner tid evs0 = []" by (intro balance_quiet [OF B(1)] disjI1)
    have own_cb: "owner ok = tid" "owner er = tid"
      using balance_owned [OF B(1)] regs(2,3) unfolding owned_def by blast+
    have bnd: "set js \<subseteq> ?all" "j < n_pieces data c" "set ks' \<subseteq> ?all"
      using Cons.prems(3,7) ks by auto
    note E = chunk_effect_feed [OF assms(1-3) bnd(1,2) refl, of unpack can_alloc]
    note K = process_known [OF Cons.prems(1) w client_chunk_id [OF assms(4)] regs(1) p, unfolded E]
    have O1: "owned owner m1" by (rule balance_owned [OF process_balance(1) [OF Cons.prems(1) p]])
    show ?thesis
    proof (cases "set (js @ [j]) = ?all")
      case True
      with K regs have gone: "tid \<notin> transfers m1"
        and ev: "evs1 = evs0 @ [result_event ok er (decode_message unpack data)]"
        by (auto simp: result_event_def split: sum.splits)
      have "set js \<union> set ks = ?all" using True bnd by (auto simp: ks)
      moreover have "owner (event_cb (result_event ok er (decode_message unpack data))) = tid"
        using own_cb by (simp add: result_event_def split: sum.splits)
      ultimately show ?thesis
        using run_gone [OF O1 gone assms(4) own(2) ks' r] q0
        by (auto simp: evs ev calls_of_def)
    next
      case False
      then have sub: "set (js @ [j]) \<subset> ?all" using bnd by auto
      have m1: "a_id (fold (feed tid data c) (js @ [j]) ?A) = tid"
          "m1 = touch now tid (fold (feed tid data c) (js @ [j]) ?A) m0" "evs1 = evs0"
        using K False by simp_all
      have "view m1 tid = (Some (fold (feed tid data c) (js @ [j]) ?A), Some ok, Some er, Some now)"
        using touch_ok(5) [OF balance_owned [OF B(1)] tid0 m1(1), of now] m1(2) regs(2,3) by simp
      from Cons.IH [OF O1 now sub this own(2) ks' bnd(3) times r] q0 show ?thesis
        by (simp add: evs m1(3) ks Un_assoc insert_commute)
    qed
  qed
qed

text \<open>The chunks of a payload among the operations, as \<open>carries\<close> sees them.\<close>

lemma carried_chunks:
  assumes "create_chunks data tid (int c) = Inr cs" "0 < c" "snd ` set ds \<subseteq> set cs"
    and "chunks_of tid ops = map (\<lambda>(now, ch). Chunk now (client_chunk tid (cd_index ch) (cd_data ch))) ds"
  obtains ks where "list_all2 (carries tid data c) (chunks_of tid ops) ks" "set ks \<subseteq> {..<n_pieces data c}"
    "set ks = {..<n_pieces data c} \<longleftrightarrow> snd ` set ds = set cs" "length cs = n_pieces data c"
proof -
  define mk where "mk i = \<lparr>cd_transferId = tid, cd_index = int i, cd_data = piece data c i\<rparr>" for i
  let ?n = "n_pieces data c"
  have cs: "cs = map mk [0 ..< ?n]"
    using assms(1) create_chunks_pieces [OF assms(2), of data tid] by (simp add: mk_def [abs_def])
  define ks where "ks = map (\<lambda>(now, ch). nat (cd_index ch)) ds"
  have mem: "\<exists>i < ?n. ch = mk i" if "(now, ch) \<in> set ds" for now ch
    using that assms(3) by (force simp: cs)
  have "list_all2 (carries tid data c)
      (map (\<lambda>(now, ch). Chunk now (client_chunk tid (cd_index ch) (cd_data ch))) ds) ks"
    using mem by (fastforce simp: ks_def carries_def mk_def list_all2_map1 list_all2_map2 intro!: list.rel_refl_strong)
  moreover have img: "mk ` set ks = snd ` set ds"
    using mem by (force simp: ks_def mk_def image_iff)
  have inj: "inj mk" by (rule injI) (simp add: mk_def)
  have "set cs = mk ` {..<?n}" by (simp add: cs atLeast0LessThan)
  then have "set ks = {..<?n} \<longleftrightarrow> snd ` set ds = set cs" using inj_image_eq_iff [OF inj] img by metis
  moreover have "set ks \<subseteq> {..<?n}"
    using mem by (fastforce simp: ks_def mk_def)
  ultimately show thesis using that assms(4) by (simp add: cs)
qed

lemma start_then_chunks:
  assumes "create_chunks data tid (int c) = Inr cs" "0 < c" "data \<noteq> []" "tid \<noteq> []"
    and "owned owner m" "tid \<notin> transfers m" "owner ok = tid" "owner er = tid"
    and "list_all (owns_op owner) ops"
    and "chunks_of tid ops = map (\<lambda>(now, ch). Chunk now (client_chunk tid (cd_index ch) (cd_data ch))) ds"
    and "snd ` set ds \<subseteq> set cs"
    and "\<forall>op \<in> set ops. \<forall>now. op_time op = Some now \<longrightarrow> t0 \<le> now \<and> now \<le> t0 + STALE_TRANSFER_TTL"
    and "chunk_run can_alloc unpack
           (Start t0 tid (int (length cs)) ok er (Some (int (length data))) (Some (int c)) # ops) m = (m', evs)"
  shows "calls_of owner tid evs =
      (if snd ` set ds = set cs then [result_event ok er (decode_message unpack data)] else []) \<and>
    (tid \<in> transfers m' \<longleftrightarrow> snd ` set ds \<noteq> set cs)"
proof -
  obtain ks where ks: "list_all2 (carries tid data c) (chunks_of tid ops) ks" "set ks \<subseteq> {..<n_pieces data c}"
    "set ks = {..<n_pieces data c} \<longleftrightarrow> snd ` set ds = set cs" "length cs = n_pieces data c"
    using carried_chunks [OF assms(1,2,11,10)] by metis
  obtain m1 evs1 evs2 where
    s: "start_receiving can_alloc t0 tid (int (length cs)) ok er (Some (int (length data))) (Some (int c)) m = (m1, evs1)"
    and r: "chunk_run can_alloc unpack ops m1 = (m', evs2)" and evs: "evs = evs1 @ evs2"
    using assms(13) by (auto split: prod.splits)
  obtain m0 a where w: "sweep_stale t0 m = (m0, evs1)" and S: "reset_for tid a" "owned owner m1"
    "view m1 tid = (Some (set_expected_chunks can_alloc (int (length cs)) (Some (int (length data)))
       (Some (int c)) a), Some ok, Some er, Some t0)"
    by (rule start_ok [OF assms(5) s assms(7,8)])
  have v: "view m1 tid = (Some (fold (feed tid data c) [] (announced can_alloc data c a)), Some ok, Some er, Some t0)"
    using S(3) by (simp add: announced_def ks(4))
  have q: "calls_of owner tid evs1 = []"
    by (rule balance_quiet [OF sweep_balance(1) [OF assms(5) w]]) (simp add: assms(6))
  have "{..<n_pieces data c} \<noteq> {}"
    using assms(2,3) by (simp add: lessThan_empty_iff)
  then have sub: "set [] \<subset> {..<n_pieces data c}" by auto
  from run_delivers [OF S(1) assms(2-4) S(2) order_refl sub v assms(9) ks(1,2) assms(12) r] ks(3) q
  show ?thesis by (auto simp: evs)
qed

text \<open>
  C6. Delivery among other traffic: a transfer whose header and chunks come in, the chunks in
  any order, any number of times each, and with headers, chunks and cancellations of other
  transfers in between, calls its completion callback exactly once, with the message that the
  payload decodes to (or its error callback with the decoding error), and leaves the registries;
  while chunks are missing it stays registered and calls nothing. The chunks have to arrive
  within the time to live of the header.
\<close>

theorem manager_delivers:
  assumes "create_chunks data tid (int c) = Inr cs" "0 < c" "data \<noteq> []" "tid \<noteq> []"
    and "owned owner m" "tid \<notin> transfers m" "owner ok = tid" "owner er = tid"
    and "list_all (owns_op owner) ops"
    and "chunks_of tid ops = map (\<lambda>(now, ch). Chunk now (client_chunk tid (cd_index ch) (cd_data ch))) ds"
    and "snd ` set ds \<subseteq> set cs"
    and "\<forall>op \<in> set ops. \<forall>now. op_time op = Some now \<longrightarrow> t0 \<le> now \<and> now \<le> t0 + STALE_TRANSFER_TTL"
    and "chunk_run can_alloc unpack
           (Start t0 tid (int (length cs)) ok er (Some (int (length data))) (Some (int c)) # ops) m = (m', evs)"
  shows "calls_of owner tid evs =
      (if snd ` set ds = set cs then [result_event ok er (decode_message unpack data)] else []) \<and>
    (tid \<in> transfers m' \<longleftrightarrow> snd ` set ds \<noteq> set cs)"
  using assms by (rule start_then_chunks)

theorem manager_delivers_witness:
  "\<exists>m. chunk_run (\<lambda>_. True) (\<lambda>_. Inr (PInt 7))
      [Start 0 ''a'' 2 ''a'' ''a'' (Some 3) (Some 2), Chunk 10 (client_chunk ''a'' 1 [3]),
       Start 20 ''b'' 1 ''b'' ''b'' None None, Chunk 1020 (client_chunk ''a'' 0 [1, 2])] new_manager
      = (m, [Completed ''a'' (PInt 7)]) \<and> ''a'' \<notin> transfers m"
proof -
  let ?ops = "[Chunk 10 (client_chunk ''a'' 1 [3]), Start 20 ''b'' 1 ''b'' ''b'' None None,
       Chunk 1020 (client_chunk ''a'' 0 [1, 2])] :: string chunk_op list"
  let ?ds = "[(10, \<lparr>cd_transferId = ''a'', cd_index = 1, cd_data = [3]\<rparr>),
       (1020, \<lparr>cd_transferId = ''a'', cd_index = 0, cd_data = [1, 2]\<rparr>)] :: (int \<times> chunk_data) list"
  have cs: "create_chunks [1, 2, 3] ''a'' (int 2) = Inr [\<lparr>cd_transferId = ''a'', cd_index = 0, cd_data = [1, 2]\<rparr>,
       \<lparr>cd_transferId = ''a'', cd_index = 1, cd_data = [3]\<rparr>]"
    by code_simp
  let ?r = "chunk_run (\<lambda>_. True) (\<lambda>_. Inr (PInt 7))
      (Start 0 ''a'' 2 ''a'' ''a'' (Some 3) (Some 2) # ?ops) (new_manager :: string manager)"
  have r: "chunk_run (\<lambda>_. True) (\<lambda>_. Inr (PInt 7))
      (Start 0 ''a'' (int (length [\<lparr>cd_transferId = ''a'', cd_index = 0, cd_data = [1, 2 :: byte]\<rparr>,
       \<lparr>cd_transferId = ''a'', cd_index = 1, cd_data = [3]\<rparr>])) ''a'' ''a'' (Some (int (length [1, 2, 3 :: byte])))
        (Some (int 2)) # ?ops) (new_manager :: string manager) = (fst ?r, snd ?r)"
    by simp
  have chunks: "chunks_of ''a'' ?ops = map (\<lambda>(now, ch). Chunk now (client_chunk ''a'' (cd_index ch) (cd_data ch))) ?ds"
    by code_simp
  have "''a'' \<notin> transfers (fst ?r)"
    using manager_delivers [OF cs _ _ _ _ _ _ _ _ chunks _ _ r, of "\<lambda>cb. cb"]
    by (auto simp: STALE_TRANSFER_TTL_def)
  moreover have "snd ?r = [Completed ''a'' (PInt 7)]" by code_simp
  ultimately show ?thesis by (metis prod.collapse)
qed

text \<open>
  An assembler comes back from the pool with the chunk size of its last transfer. A sender that
  does not announce a chunk size (it is optional) then has its chunks written at the wrong
  offsets: here the payload 1, 2, 3, 4 in chunks of two, after a transfer in chunks of four.
\<close>

lemma pooled_chunk_size_survives:
  defines "a \<equiv> fst (get_assembler ''b'' (fst (chunk_run (\<lambda>_. True) (\<lambda>_. Inr PNone)
      [Start 0 ''a'' 1 ''a'' ''a'' (Some 4) (Some 4), Chunk 1 (client_chunk ''a'' 0 [9, 9, 9, 9])] new_manager)))"
  shows "case receive_all (map (normalize_chunk ''b'') [client_chunk ''b'' 0 [1, 2], client_chunk ''b'' 1 [3, 4]])
      (set_expected_chunks (\<lambda>_. True) 2 (Some 4) None a) of
    Inl _ \<Rightarrow> False | Inr b \<Rightarrow> assembled_bytes b = Inr [1, 2, 0, 0]"
  unfolding a_def by code_simp

end
