(* ===== verification/Wire.thy ===== *)
theory Wire
  imports Chunking_Manager
begin

text \<open>
  The message layer of \<open>client.py\<close>: \<open>publish\<close>, which sends a message directly or as a
  chunked transfer, and \<open>message_handler\<close> of \<open>_nats_subscribe\<close>, which turns what arrives on one
  subscription into calls of its handler. The broker is outside: publishing hands messages to
  \<open>nc.publish\<close>, and a subscription is handed messages.
\<close>

section \<open>Messages of the broker\<close>

record nats_msg =
  nm_subject :: string
  nm_data :: bytes
  nm_headers :: "(string, string) pydict option"
  nm_reply :: string

text \<open>\<open>msg.headers.get(name) if msg.headers else None\<close>\<close>

definition header_of :: "nats_msg \<Rightarrow> string \<Rightarrow> string option" where
  "header_of msg name = (case nm_headers msg of None \<Rightarrow> None | Some h \<Rightarrow> dget h name)"

section \<open>Publishing\<close>

text \<open>
  \<open>net m\<close> is what \<open>nc.publish\<close> raises for \<open>m\<close>, if anything; the messages are handed over one
  by one and the first failure ends it. The result is what was handed over, and the exception.
\<close>

fun send_all :: "(nats_msg \<Rightarrow> exc option) \<Rightarrow> nats_msg list \<Rightarrow> nats_msg list \<times> exc option" where
  "send_all net [] = ([], None)"
| "send_all net (m # ms) =
     (case net m of
        Some e \<Rightarrow> ([], Some e)
      | None \<Rightarrow> (case send_all net ms of (sent, err) \<Rightarrow> (m # sent, err)))"

definition chunk_header :: "string \<Rightarrow> int \<Rightarrow> int \<Rightarrow> int \<Rightarrow> pyval" where
  "chunk_header transfer_id total_chunks total_size chunk_size = PDict
     [(PStr ''type'', PStr ''chunked''), (PStr ''transferId'', PStr transfer_id),
      (PStr ''totalChunks'', PInt total_chunks), (PStr ''totalSize'', PInt total_size),
      (PStr ''chunkSize'', PInt chunk_size)]"

definition chunk_message :: "string \<Rightarrow> string \<Rightarrow> string \<Rightarrow> nat \<Rightarrow> chunk_data \<Rightarrow> nats_msg" where
  "chunk_message subject reply_to transfer_id i chunk =
     \<lparr>nm_subject = subject, nm_data = cd_data chunk,
      nm_headers = Some [(''x-chunked-transfer'', ''chunk''), (''x-chunk-id'', transfer_id),
                         (''x-chunk-index'', show_nat i)],
      nm_reply = reply_to\<rparr>"

definition publish ::
    "(pyval \<Rightarrow> exc + bytes) \<Rightarrow> (nats_msg \<Rightarrow> exc option) \<Rightarrow> string \<Rightarrow> int \<Rightarrow> bool
      \<Rightarrow> string \<Rightarrow> pyval \<Rightarrow> (string, string) pydict option \<Rightarrow> string option
      \<Rightarrow> nats_msg list \<times> exc option" where
  "publish pack net transfer_id max_payload_size connected subject data headers reply =
     (if \<not> connected then ([], Some (Raised RuntimeError ''Not connected''))
      else
        (case encode_message pack data of
           Inl e \<Rightarrow> ([], Some e)
         | Inr encoded \<Rightarrow>
             let reply_to = (case reply of None \<Rightarrow> [] | Some r \<Rightarrow> r);
                 size = int (length encoded)
             in if size \<le> max_payload_size
                then send_all net [\<lparr>nm_subject = subject, nm_data = encoded, nm_headers = headers,
                                    nm_reply = reply_to\<rparr>]
                else if max_payload_size = 0
                then ([], Some (Raised ZeroDivisionError ''integer division or modulo by zero''))
                else
                  let total_chunks = (size + max_payload_size - 1) div max_payload_size;
                      hdrs = dset ''x-chunk-id'' transfer_id (dset ''x-chunked-transfer'' ''header''
                               (case headers of None \<Rightarrow> [] | Some h \<Rightarrow> h))
                  in case pack (chunk_header transfer_id total_chunks size max_payload_size) of
                       Inl e \<Rightarrow> ([], Some e)
                     | Inr h \<Rightarrow>
                         (case create_chunks encoded transfer_id max_payload_size of
                            Inl e \<Rightarrow> ([], Some e)
                          | Inr chunks \<Rightarrow>
                              send_all net
                                (\<lparr>nm_subject = subject, nm_data = h, nm_headers = Some hdrs,
                                  nm_reply = reply_to\<rparr>
                                 # map (\<lambda>(i, chunk). chunk_message subject reply_to transfer_id i chunk)
                                       (List.enumerate 0 chunks)))))"

section \<open>Receiving\<close>

text \<open>
  The callbacks that a client registers with its chunking manager, each a closure of one header:
  the pair of \<open>message_handler\<close> for the subscription with that key, and the pair of the reply
  inbox.
\<close>

datatype rx_callback =
    Queue_Append nat string
  | Print_Error nat string
  | Route_Response string
  | Print_Response_Error string

fun cb_transfer :: "rx_callback \<Rightarrow> string" where
  "cb_transfer (Queue_Append _ t) = t"
| "cb_transfer (Print_Error _ t) = t"
| "cb_transfer (Route_Response t) = t"
| "cb_transfer (Print_Response_Error t) = t"

text \<open>
  The manager is one per client; each subscription has its queue of assembled payloads. What
  comes out are the calls of the handler of a subscription, the responses that go to
  \<open>_route_mux_response\<close>, and the errors that are printed.
\<close>

record client_rx =
  rx_manager :: "rx_callback manager"
  rx_queues :: "(nat, pyval list) pydict"

datatype rx_event =
    Invoke nat pyval
  | Mux_Response pyval
  | Printed exc

definition rx_queue :: "nat \<Rightarrow> client_rx \<Rightarrow> pyval list" where
  "rx_queue key rx = (case dget (rx_queues rx) key of None \<Rightarrow> [] | Some q \<Rightarrow> q)"

text \<open>The callbacks that an operation of the manager called, in their order.\<close>

fun run_callbacks :: "rx_callback chunk_event list \<Rightarrow> client_rx \<Rightarrow> client_rx \<times> rx_event list" where
  "run_callbacks [] rx = (rx, [])"
| "run_callbacks (Completed (Queue_Append key t) v # evs) rx =
     run_callbacks evs (rx\<lparr>rx_queues := dset key (rx_queue key rx @ [v]) (rx_queues rx)\<rparr>)"
| "run_callbacks (Completed (Route_Response t) v # evs) rx =
     (case run_callbacks evs rx of (rx', out) \<Rightarrow> (rx', Mux_Response v # out))"
| "run_callbacks (Errored cb e # evs) rx =
     (case run_callbacks evs rx of (rx', out) \<Rightarrow> (rx', Printed e # out))"
| "run_callbacks (_ # evs) rx = run_callbacks evs rx"

text \<open>
  The header of a chunked transfer, decoded: \<open>None\<close> when it is ignored. The counts are declared
  as integers; a header with anything else there raises here.
\<close>

definition int_field :: "pyval \<Rightarrow> exc + int option" where
  "int_field v = (case v of
      PInt i \<Rightarrow> Inr (Some i)
    | PBool b \<Rightarrow> Inr (Some (if b then 1 else 0))
    | PNone \<Rightarrow> Inr None
    | _ \<Rightarrow> Inl (Raised TypeError ''not an integer''))"

definition read_header :: "string option \<Rightarrow> pyval
    \<Rightarrow> exc + (string \<times> int \<times> int option \<times> int option) option" where
  "read_header chunk_id data =
     (case chunk_id of
        None \<Rightarrow> Inr None
      | Some tid \<Rightarrow>
          if tid = [] then Inr None
          else
            (case data of
               PDict d \<Rightarrow>
                 if sget_or_none d ''transferId'' \<noteq> PStr tid then Inr None
                 else
                   (case sget d ''totalChunks'' of
                      None \<Rightarrow> Inl (Raised KeyError ''totalChunks'')
                    | Some n \<Rightarrow>
                        (case (int_field n, int_field (sget_or_none d ''totalSize''),
                               int_field (sget_or_none d ''chunkSize'')) of
                           (Inr (Some n), Inr tsize, Inr csize) \<Rightarrow> Inr (Some (tid, n, tsize, csize))
                         | _ \<Rightarrow> Inl (Raised TypeError ''not an integer'')))
             | _ \<Rightarrow> Inl (Raised AttributeError ''get'')))"

text \<open>\<open>while assembled_queue: await self._handle_assembled_data(handler, assembled_queue.pop(0))\<close>\<close>

definition drain :: "nat \<Rightarrow> client_rx \<Rightarrow> client_rx \<times> rx_event list" where
  "drain key rx = (rx\<lparr>rx_queues := dset key [] (rx_queues rx)\<rparr>, map (Invoke key) (rx_queue key rx))"

text \<open>One message on the subscription \<open>key\<close>; the exceptions are caught and printed.\<close>

definition message_handler ::
    "(int \<Rightarrow> bool) \<Rightarrow> (bytes \<Rightarrow> exc + pyval) \<Rightarrow> nat \<Rightarrow> int \<Rightarrow> nats_msg \<Rightarrow> client_rx
      \<Rightarrow> client_rx \<times> rx_event list" where
  "message_handler can_alloc unpack key now msg rx =
     (let chunk_type = header_of msg ''x-chunked-transfer''
      in if chunk_type = Some ''header''
         then
           (case unpack (nm_data msg) of
              Inl e \<Rightarrow> (rx, [Printed e])
            | Inr data \<Rightarrow>
                (case read_header (header_of msg ''x-chunk-id'') data of
                   Inl e \<Rightarrow> (rx, [Printed e])
                 | Inr None \<Rightarrow> (rx, [])
                 | Inr (Some (tid, count, tsize, csize)) \<Rightarrow>
                     (case start_receiving can_alloc now tid count (Queue_Append key tid)
                             (Print_Error key tid) tsize csize (rx_manager rx) of
                        (m, evs) \<Rightarrow> run_callbacks evs (rx\<lparr>rx_manager := m\<rparr>))))
         else if chunk_type = Some ''chunk''
         then
           (case parse_int (case header_of msg ''x-chunk-index'' of None \<Rightarrow> ''0'' | Some s \<Rightarrow> s) of
              None \<Rightarrow> (rx, [Printed (Raised ValueError ''invalid literal for int()'')])
            | Some i \<Rightarrow>
                (case header_of msg ''x-chunk-id'' of
                   None \<Rightarrow> (rx, [])
                 | Some tid \<Rightarrow>
                     if tid = [] then (rx, [])
                     else
                       (case process_chunk unpack now (client_chunk tid i (nm_data msg)) (rx_manager rx) of
                          (m, evs) \<Rightarrow>
                            (case run_callbacks evs (rx\<lparr>rx_manager := m\<rparr>) of
                               (rx1, out1) \<Rightarrow>
                                 (case drain key rx1 of (rx2, out2) \<Rightarrow> (rx2, out1 @ out2))))))
         else
           (case decode_message unpack (nm_data msg) of
              Inl e \<Rightarrow> (rx, [Printed e])
            | Inr data \<Rightarrow> (rx, [Invoke key data])))"

text \<open>The messages that a handler gets, each at its time.\<close>

fun deliver :: "(int \<Rightarrow> nats_msg \<Rightarrow> 's \<Rightarrow> 's \<times> 'e list) \<Rightarrow> (int \<times> nats_msg) list \<Rightarrow> 's \<Rightarrow> 's \<times> 'e list" where
  "deliver handle [] s = (s, [])"
| "deliver handle ((now, msg) # msgs) s =
     (case handle now msg s of
        (s1, out1) \<Rightarrow> (case deliver handle msgs s1 of (s2, out2) \<Rightarrow> (s2, out1 @ out2)))"

lemma deliver_append:
  "deliver handle (xs @ ys) s = (case deliver handle xs s of
     (a, out) \<Rightarrow> (case deliver handle ys a of (b, out') \<Rightarrow> (b, out @ out')))"
  by (induction xs arbitrary: s) (auto split: prod.splits)

section \<open>What the callbacks do\<close>

fun invoked :: "nat \<Rightarrow> rx_event list \<Rightarrow> pyval list" where
  "invoked key [] = []"
| "invoked key (Invoke k v # out) = (if k = key then v # invoked key out else invoked key out)"
| "invoked key (_ # out) = invoked key out"

fun completed_for :: "nat \<Rightarrow> rx_callback chunk_event list \<Rightarrow> pyval list" where
  "completed_for key [] = []"
| "completed_for key (Completed (Queue_Append k t) v # evs) =
     (if k = key then v # completed_for key evs else completed_for key evs)"
| "completed_for key (_ # evs) = completed_for key evs"

lemma invoked_append [simp]: "invoked key (xs @ ys) = invoked key xs @ invoked key ys"
  by (induction key xs rule: invoked.induct) simp_all

lemma invoked_drain [simp]: "invoked key (map (Invoke key) vs) = vs"
  by (induction vs) simp_all

lemma completed_for_append [simp]:
  "completed_for key (xs @ ys) = completed_for key xs @ completed_for key ys"
  by (induction key xs rule: completed_for.induct) simp_all

lemma rx_queue_store [simp]:
  "rx_queue key (rx\<lparr>rx_queues := dset k q (rx_queues rx)\<rparr>) = (if k = key then q else rx_queue key rx)"
  "rx_queue key (rx\<lparr>rx_manager := m\<rparr>) = rx_queue key rx"
  by (simp_all add: rx_queue_def)

lemma run_callbacks_effect:
  "run_callbacks evs rx = (rx', out) \<Longrightarrow>
     rx_manager rx' = rx_manager rx \<and> rx_queue key rx' = rx_queue key rx @ completed_for key evs \<and>
     invoked key out = []"
  by (induction evs rx arbitrary: rx' out rule: run_callbacks.induct) (auto split: prod.splits if_splits)

definition only_errors :: "'cb chunk_event list \<Rightarrow> bool" where
  "only_errors evs = list_all (\<lambda>ev. case ev of Completed _ _ \<Rightarrow> False | Errored _ _ \<Rightarrow> True) evs"

lemma only_errors_simps [simp]:
  "only_errors []" "only_errors (xs @ ys) \<longleftrightarrow> only_errors xs \<and> only_errors ys" "only_errors (Errored cb e # xs) \<longleftrightarrow> only_errors xs"
  "\<not> only_errors (Completed cb v # xs)"
  by (simp_all add: only_errors_def)

lemma completed_for_errors: "only_errors evs \<Longrightarrow> completed_for key evs = []"
  by (induction key evs rule: completed_for.induct) (simp_all add: only_errors_def)

lemma drop_stale_errors: "drop_stale tids m = (m', evs) \<Longrightarrow> only_errors evs"
proof (induction tids arbitrary: m m' evs)
  case (Cons tid tids)
  then show ?case
    by (auto simp: handle_error_eq split: prod.splits option.splits)
qed simp

lemma sweep_errors: "sweep_stale now m = (m', evs) \<Longrightarrow> only_errors evs"
  by (auto simp: sweep_stale_def Let_def intro: drop_stale_errors split: if_splits)

lemma start_errors:
  "start_receiving can_alloc now tid n ok er tsize csize m = (m', evs) \<Longrightarrow> only_errors evs"
  by (auto simp: start_receiving_def Let_def intro: sweep_errors split: prod.splits)

text \<open>A chunk completes its own transfer or none.\<close>

lemma process_completes:
  assumes "owned cb_transfer m" "process_chunk unpack now ch m = (m', evs)"
    and "chunk_transfer_id ch = Some tid"
  shows "\<exists>errs. only_errors errs \<and> (evs = errs \<or> (\<exists>cb v. cb_transfer cb = tid \<and> evs = errs @ [Completed cb v]))"
proof -
  obtain m1 evs1 where s: "sweep_stale now m = (m1, evs1)" by fastforce
  note E = sweep_errors [OF s]
  show ?thesis
  proof (cases "dget (m_assemblers m1) tid")
    case None
    then have "tid \<notin> transfers m1" by (simp add: transfers_iff)
    with process_unknown [OF s, of ch unpack] assms(2,3) E show ?thesis by auto
  next
    case (Some a)
    note K = process_known [OF assms(1) s assms(3) Some assms(2)]
    have own: "cb_transfer cb = tid" if "dget (m_completed m1) tid = Some cb" for cb
      using balance_owned [OF sweep_balance(1) [OF assms(1) s]] that unfolding owned_def by blast
    show ?thesis
    proof (cases "chunk_effect unpack (normalize_chunk tid ch) a")
      case (Inl a')
      with K E show ?thesis by auto
    next
      case (Inr r)
      show ?thesis
      proof (cases r)
        case (Inl e)
        then have "evs = evs1 @ (case dget (m_errors m1) tid of None \<Rightarrow> [] | Some cb \<Rightarrow> [Errored cb e])"
          using K Inr by simp
        then have "only_errors evs" using E by (simp split: option.splits)
        then show ?thesis by blast
      next
        case (Inr v)
        then have "evs = evs1 @ (case dget (m_completed m1) tid of None \<Rightarrow> [] | Some cb \<Rightarrow> [Completed cb v])"
          using K \<open>chunk_effect _ _ _ = Inr r\<close> by simp
        then show ?thesis using E own by (auto split: option.splits)
      qed
    qed
  qed
qed

lemma calls_of_Completed:
  "calls_of owner tid [Completed cb v] = (if owner cb = tid then [Completed cb v] else [])"
  by (simp add: calls_of_def)

lemma only_errors_calls: "only_errors evs \<Longrightarrow> only_errors (calls_of owner tid evs)"
  by (auto simp: only_errors_def calls_of_def list_all_iff)

lemma chunk_message_simps [simp]:
  "header_of (chunk_message subj rep tid i ch) ''x-chunked-transfer'' = Some ''chunk''"
  "header_of (chunk_message subj rep tid i ch) ''x-chunk-id'' = Some tid"
  "header_of (chunk_message subj rep tid i ch) ''x-chunk-index'' = Some (show_nat i)"
  "nm_data (chunk_message subj rep tid i ch) = cd_data ch"
  by (simp_all add: header_of_def chunk_message_def)

section \<open>What publish sends\<close>

lemma send_all_ok: "send_all (\<lambda>_. None) ms = (ms, None)"
  by (induction ms) simp_all

text \<open>The messages of a chunked publish, when the broker takes them.\<close>

lemma publish_chunked:
  assumes "publish pack (\<lambda>_. None) tid (int c) True subject data headers reply = (msgs, None)"
    and "0 < c" "encode_message pack data = Inr w" "c < length w"
  obtains h hdrs chunks where
    "pack (chunk_header tid (int (length chunks)) (int (length w)) (int c)) = Inr h"
    "create_chunks w tid (int c) = Inr chunks"
    "dget hdrs ''x-chunked-transfer'' = Some ''header''" "dget hdrs ''x-chunk-id'' = Some tid"
    "msgs = \<lparr>nm_subject = subject, nm_data = h, nm_headers = Some hdrs,
               nm_reply = (case reply of None \<Rightarrow> [] | Some r \<Rightarrow> r)\<rparr>
       # map (\<lambda>(i, chunk). chunk_message subject (case reply of None \<Rightarrow> [] | Some r \<Rightarrow> r) tid i chunk)
             (List.enumerate 0 chunks)"
proof -
  let ?hdrs = "dset ''x-chunk-id'' tid (dset ''x-chunked-transfer'' ''header'' (case headers of None \<Rightarrow> [] | Some h \<Rightarrow> h))"
  obtain chunks where ch: "create_chunks w tid (int c) = Inr chunks" "length chunks = n_pieces w c"
    using create_chunks_pieces [OF assms(2), of w tid] by simp
  have n: "(int (length w) + int c - 1) div int c = int (length chunks)"
    using assms(2) by (simp add: ch(2) n_pieces_def zdiv_int of_nat_diff)
  obtain h where h: "pack (chunk_header tid (int (length chunks)) (int (length w)) (int c)) = Inr h"
    using assms by (auto simp: publish_def Let_def n split: sum.splits)
  show thesis
    by (rule that [OF h ch(1), of ?hdrs]) (use assms h ch in \<open>simp_all add: publish_def Let_def n send_all_ok\<close>)
qed

lemma create_chunks_index:
  assumes "0 < c" "create_chunks w tid (int c) = Inr chunks" "(i, ch) \<in> set (List.enumerate 0 chunks)"
  shows "cd_index ch = int i"
  using assms(3) create_chunks_pieces [OF assms(1), of w tid] assms(2)
  by (auto simp: set_conv_nth nth_enumerate_eq)

lemma create_chunks_nonempty:
  assumes "0 < c" "create_chunks w tid (int c) = Inr chunks" "ch \<in> set chunks"
  shows "cd_data ch \<noteq> []"
proof -
  obtain i where "i < n_pieces w c" "ch = \<lparr>cd_transferId = tid, cd_index = int i, cd_data = piece w c i\<rparr>"
    using create_chunks_pieces [OF assms(1), of w tid] assms(2,3) by auto
  then show ?thesis using piece_positive [OF assms(1), of i w] by auto
qed

definition timely :: "int list \<Rightarrow> bool" where
  "timely ts \<longleftrightarrow> (\<forall>t \<in> set ts. hd ts \<le> t \<and> t \<le> hd ts + STALE_TRANSFER_TTL)"

lemma chunks_of_own:
  assumes "tid \<noteq> []"
  shows "chunks_of tid (map (\<lambda>(now, i, ch). Chunk now (client_chunk tid (cd_index ch) (cd_data ch))) cs)
    = map (\<lambda>(now, ch). Chunk now (client_chunk tid (cd_index ch) (cd_data ch)))
        (map (\<lambda>(now, i, ch). (now, ch)) cs)"
  by (induction cs) (auto simp: client_chunk_id [OF assms])

lemma started_chunks: "started (map (\<lambda>(now, i, ch). Chunk now (f i ch)) cs) = []"
  by (induction cs) auto

section \<open>The contract of a chunk endpoint\<close>

text \<open>
  What \<open>message_handler\<close> of a subscription and the reply inbox have in common: a header opens a
  transfer with their own pair of callbacks, a chunk goes to the manager and hands out what the
  manager completed, and any other message is handed out at once. \<open>regular\<close> says which messages
  the endpoint does not take for something else, \<open>ready\<close> what it needs between messages.
\<close>

locale chunk_endpoint =
  fixes handle :: "int \<Rightarrow> nats_msg \<Rightarrow> 's \<Rightarrow> 's \<times> 'e list"
    and mgr :: "'s \<Rightarrow> rx_callback manager"
    and ready :: "'s \<Rightarrow> bool"
    and regular :: "nats_msg \<Rightarrow> bool"
    and received :: "'e list \<Rightarrow> pyval list"
    and completions :: "rx_callback chunk_event list \<Rightarrow> pyval list"
    and ok_cb er_cb :: "string \<Rightarrow> rx_callback"
    and can_alloc :: "int \<Rightarrow> bool"
    and unpack :: "bytes \<Rightarrow> exc + pyval"
  assumes received_Nil: "received [] = []"
    and received_append: "received (xs @ ys) = received xs @ received ys"
    and completions_append: "completions (as @ bs) = completions as @ completions bs"
    and completions_errors: "only_errors as \<Longrightarrow> completions as = []"
    and completions_ok: "completions [Completed (ok_cb t) v] = [v]"
    and callbacks_owned: "cb_transfer (ok_cb t) = t" "cb_transfer (er_cb t) = t"
    and regular_data: "nm_data m \<noteq> [] \<Longrightarrow> regular m"
    and header_law: "\<lbrakk>ready s; regular m; header_of m ''x-chunked-transfer'' = Some ''header'';
          header_of m ''x-chunk-id'' = Some tid; tid \<noteq> []; unpack (nm_data m) = Inr (chunk_header tid n len c);
          start_receiving can_alloc now tid n (ok_cb tid) (er_cb tid) (Some len) (Some c) (mgr s) = (m', evs)\<rbrakk>
        \<Longrightarrow> \<exists>s' out. handle now m s = (s', out) \<and> mgr s' = m' \<and> ready s' \<and> received out = []"
    and chunk_law: "\<lbrakk>ready s; tid \<noteq> []; cd_data ch \<noteq> [];
          process_chunk unpack now (client_chunk tid (int i) (cd_data ch)) (mgr s) = (m', evs)\<rbrakk>
        \<Longrightarrow> \<exists>s' out. handle now (chunk_message subj rep tid i ch) s = (s', out) \<and> mgr s' = m' \<and> ready s' \<and>
             received out = completions evs"
    and direct_law: "\<lbrakk>ready s; regular m; header_of m ''x-chunked-transfer'' = None;
          decode_message unpack (nm_data m) = Inr v\<rbrakk>
        \<Longrightarrow> \<exists>s' out. handle now m s = (s', out) \<and> mgr s' = mgr s \<and> ready s' \<and> received out = [v]"
begin

lemma deliver_chunks:
  assumes "tid \<noteq> []" "ready s" "\<forall>(now, i, ch) \<in> set cs. cd_index ch = int i \<and> cd_data ch \<noteq> []"
    and "chunk_run can_alloc unpack
           (map (\<lambda>(now, i, ch). Chunk now (client_chunk tid (cd_index ch) (cd_data ch))) cs) (mgr s) = (m', evs)"
  shows "\<exists>s' out. deliver handle (map (\<lambda>(now, i, ch). (now, chunk_message subj rep tid i ch)) cs) s = (s', out) \<and>
      mgr s' = m' \<and> ready s' \<and> received out = completions evs"
  using assms(2-)
proof (induction cs arbitrary: s evs)
  case Nil
  then show ?case by (auto simp: received_Nil completions_errors)
next
  case (Cons c cs)
  obtain now i ch where c: "c = (now, i, ch)" by (cases c)
  then have ch: "cd_index ch = int i" "cd_data ch \<noteq> []" using Cons.prems(2) by simp_all
  obtain m1 evs1 where p: "process_chunk unpack now (client_chunk tid (int i) (cd_data ch)) (mgr s) = (m1, evs1)"
    by fastforce
  obtain evs2 where r: "chunk_run can_alloc unpack
      (map (\<lambda>(now, i, ch). Chunk now (client_chunk tid (cd_index ch) (cd_data ch))) cs) m1 = (m', evs2)"
    and evs: "evs = evs1 @ evs2"
    using Cons.prems(3) by (auto simp: c ch p split: prod.splits)
  obtain s1 out1 where h: "handle now (chunk_message subj rep tid i ch) s = (s1, out1)"
    "mgr s1 = m1" "ready s1" "received out1 = completions evs1"
    using chunk_law [OF Cons.prems(1) assms(1) ch(2) p] by blast
  obtain s' out2 where "deliver handle (map (\<lambda>(now, i, ch). (now, chunk_message subj rep tid i ch)) cs) s1
      = (s', out2)" "mgr s' = m'" "ready s'" "received out2 = completions evs2"
    using Cons.IH [of s1 evs2] Cons.prems(2) h(2,3) r by auto
  then show ?case by (simp add: c h evs received_append completions_append)
qed

text \<open>What a run completes is what it calls for that transfer.\<close>

lemma chunk_run_completes:
  assumes "owned cb_transfer m" "tid \<noteq> []"
    and "chunk_run can_alloc unpack (map (\<lambda>(now, i, d). Chunk now (client_chunk tid i d)) cs) m = (m', evs)"
  shows "completions evs = completions (calls_of cb_transfer tid evs)"
  using assms
proof (induction cs arbitrary: m evs)
  case Nil
  then show ?case by simp
next
  case (Cons c cs)
  obtain now i d where c: "c = (now, i, d)" by (cases c)
  obtain m1 evs1 where p: "process_chunk unpack now (client_chunk tid i d) m = (m1, evs1)" by fastforce
  obtain evs2 where r: "chunk_run can_alloc unpack (map (\<lambda>(now, i, d). Chunk now (client_chunk tid i d)) cs) m1
      = (m', evs2)" and evs: "evs = evs1 @ evs2"
    using Cons.prems(3) by (auto simp: c p split: prod.splits)
  obtain errs where E: "only_errors errs"
      "evs1 = errs \<or> (\<exists>cb v. cb_transfer cb = tid \<and> evs1 = errs @ [Completed cb v])"
    using process_completes [OF Cons.prems(1) p client_chunk_id [OF assms(2)]] by blast
  have e: "only_errors (calls_of cb_transfer tid errs)" by (rule only_errors_calls [OF E(1)])
  have "completions evs1 = completions (calls_of cb_transfer tid evs1)"
    using E(2) completions_errors [OF E(1)] completions_errors [OF e]
    by (auto simp: calls_of_Completed completions_append)
  then show ?case
    using Cons.IH [OF balance_owned [OF process_balance(1) [OF Cons.prems(1) p]] assms(2) r]
    by (simp add: evs completions_append)
qed

end


text \<open>A large message: its header, then its chunks.\<close>

context chunk_endpoint
begin

lemma deliver_chunked:
  assumes "ready s" "owned cb_transfer (mgr s)" "tid \<notin> transfers (mgr s)" "tid \<noteq> []"
    and "0 < c" "w \<noteq> []" "create_chunks w tid (int c) = Inr chunks" "decode_message unpack w = Inr v"
    and "regular hdr" "header_of hdr ''x-chunked-transfer'' = Some ''header''"
    and "header_of hdr ''x-chunk-id'' = Some tid"
    and "unpack (nm_data hdr) = Inr (chunk_header tid (int (length chunks)) (int (length w)) (int c))"
    and "timely (t0 # ts)" "length ts = length chunks"
  shows "\<exists>s' out. deliver handle
       (zip (t0 # ts) (hdr # map (\<lambda>(i, chunk). chunk_message subj rep tid i chunk) (List.enumerate 0 chunks))) s
       = (s', out) \<and> received out = [v] \<and> ready s' \<and> owned cb_transfer (mgr s') \<and>
       transfers (mgr s') \<subseteq> transfers (mgr s)"
proof -
  let ?cs = "zip ts (List.enumerate 0 chunks)"
  let ?ops = "map (\<lambda>(now, i, ch). Chunk now (client_chunk tid (cd_index ch) (cd_data ch))) ?cs :: rx_callback chunk_op list"
  let ?ds = "map (\<lambda>(now, i, ch). (now, ch)) ?cs"
  let ?start = "Start t0 tid (int (length chunks)) (ok_cb tid) (er_cb tid) (Some (int (length w))) (Some (int c))"
  obtain m1 evs1 where s: "start_receiving can_alloc t0 tid (int (length chunks)) (ok_cb tid) (er_cb tid)
      (Some (int (length w))) (Some (int c)) (mgr s) = (m1, evs1)" by fastforce
  obtain m2 evs2 where r: "chunk_run can_alloc unpack ?ops m1 = (m2, evs2)" by fastforce
  have run: "chunk_run can_alloc unpack (?start # ?ops) (mgr s) = (m2, evs1 @ evs2)" by (simp add: s r)
  have own1: "owned cb_transfer m1"
    using start_ok [OF assms(2) s callbacks_owned] by metis
  have "map snd ?ds = chunks"
    using assms(14) by (intro nth_equalityI) (simp_all add: nth_enumerate_eq)
  then have snds: "snd ` set ?ds = set chunks" by (metis list.set_map)
  have about: "list_all (owns_op cb_transfer) ?ops" by (auto simp: list_all_iff)
  have times: "\<forall>op \<in> set ?ops. \<forall>now. op_time op = Some now \<longrightarrow> t0 \<le> now \<and> now \<le> t0 + STALE_TRANSFER_TTL"
    using assms(13) by (auto simp: timely_def dest: set_zip_leftD)
  have D: "calls_of cb_transfer tid (evs1 @ evs2) = [Completed (ok_cb tid) v]" "tid \<notin> transfers m2"
    using start_then_chunks [OF assms(7,5,6,4,2,3) callbacks_owned about chunks_of_own [OF assms(4)] _ times run]
      snds assms(8) by (simp_all add: result_event_def)
  have st: "started (?start # ?ops) = [tid]" by (simp add: started_chunks)
  have R: "owned cb_transfer m2 \<and> length (calls_of cb_transfer t (evs1 @ evs2)) + of_bool (t \<in> transfers m2)
      = of_bool (t \<in> transfers (mgr s)) + of_bool (t \<in> set (started (?start # ?ops)))" for t
    by (rule run_accounting [OF assms(2) _ _ _ run]) (use about st assms(3) callbacks_owned in simp_all)
  have A: "t \<in> transfers (mgr s)" if "t \<in> transfers m2" for t
  proof -
    have "t \<noteq> tid" using that D(2) by blast
    then have "t \<notin> set (started (?start # ?ops))" unfolding st by simp
    then show ?thesis using R [of t] that by (cases "t \<in> transfers (mgr s)") simp_all
  qed
  obtain s1 out1 where h: "handle t0 hdr s = (s1, out1)" "mgr s1 = m1" "ready s1" "received out1 = []"
    using header_law [OF assms(1,9-11,4,12) s] by blast
  have idx: "\<forall>(now, i, ch) \<in> set ?cs. cd_index ch = int i \<and> cd_data ch \<noteq> []"
    using create_chunks_index [OF assms(5,7)] create_chunks_nonempty [OF assms(5,7)]
    by (fastforce dest: set_zip_rightD in_set_enumerate_eq [THEN iffD1])
  obtain s2 out2 where d: "deliver handle (map (\<lambda>(now, i, ch). (now, chunk_message subj rep tid i ch)) ?cs) s1
      = (s2, out2)" "mgr s2 = m2" "ready s2" "received out2 = completions evs2"
    using deliver_chunks [OF assms(4) h(3) idx, of m2 evs2 subj rep] h(2) r by auto
  have z: "zip ts (map (\<lambda>(i, chunk). chunk_message subj rep tid i chunk) (List.enumerate 0 chunks))
      = map (\<lambda>(now, i, ch). (now, chunk_message subj rep tid i ch)) ?cs"
    by (simp add: zip_map2 split_def)
  have ops: "?ops = map (\<lambda>(now, i, d). Chunk now (client_chunk tid i d))
      (map (\<lambda>(now, i, ch). (now, cd_index ch, cd_data ch)) ?cs)" by auto
  have "completions (calls_of cb_transfer tid evs1) = []"
    by (rule completions_errors [OF only_errors_calls [OF start_errors [OF s]]])
  moreover have "completions (calls_of cb_transfer tid (evs1 @ evs2)) = [v]"
    by (simp only: D(1) completions_ok)
  ultimately have "completions (calls_of cb_transfer tid evs2) = [v]"
    by (simp add: completions_append)
  then have "completions evs2 = [v]"
    using chunk_run_completes [OF own1 assms(4) r [unfolded ops]] by simp
  then show ?thesis
    using h d A R by (auto simp: z received_append)
qed

end

section \<open>Whole publishes at an endpoint\<close>

text \<open>
  \<open>plain headers\<close>: the caller does not use the chunk marker itself. \<open>header_travels\<close>: msgpack
  round-trips the headers of transfers, which are maps of strings and integers.
\<close>

definition plain :: "(string, string) pydict option \<Rightarrow> bool" where
  "plain headers \<longleftrightarrow> (case headers of None \<Rightarrow> True | Some h \<Rightarrow> dget h ''x-chunked-transfer'' = None)"

definition header_travels :: "(pyval \<Rightarrow> exc + bytes) \<Rightarrow> (bytes \<Rightarrow> exc + pyval) \<Rightarrow> bool" where
  "header_travels pack unpack \<longleftrightarrow>
     (\<forall>tid n len c b. pack (chunk_header tid n len c) = Inr b \<longrightarrow> unpack b = Inr (chunk_header tid n len c))"

fun arrives :: "(bytes \<Rightarrow> exc + pyval) \<Rightarrow> (pyval \<Rightarrow> exc + bytes) \<Rightarrow> pyval \<Rightarrow> pyval option" where
  "arrives unpack pack data =
     (case encode_message pack data of
        Inl _ \<Rightarrow> None
      | Inr w \<Rightarrow> (case decode_message unpack w of Inl _ \<Rightarrow> None | Inr v \<Rightarrow> Some v))"

text \<open>A sequence of publishes on one subject, each with a transfer id of its own.\<close>

fun publish_seq :: "(pyval \<Rightarrow> exc + bytes) \<Rightarrow> int \<Rightarrow> string \<Rightarrow> (string \<times> pyval) list
    \<Rightarrow> (nats_msg list \<times> exc option) list" where
  "publish_seq pack c subject [] = []"
| "publish_seq pack c subject ((tid, data) # pubs) =
     publish pack (\<lambda>_. None) tid c True subject data None None # publish_seq pack c subject pubs"

context chunk_endpoint
begin

lemma publish_deliver:
  assumes "publish pack (\<lambda>_. None) tid (int c) True subject data headers reply = (msgs, None)"
    and "0 < c" "plain headers" "header_travels pack unpack" "arrives unpack pack data = Some v"
    and "ready s" "owned cb_transfer (mgr s)" "tid \<notin> transfers (mgr s)" "tid \<noteq> []"
    and "regular (hd msgs)" "length ts = length msgs" "timely ts"
  shows "\<exists>s' out. deliver handle (zip ts msgs) s = (s', out) \<and> received out = [v] \<and>
       ready s' \<and> owned cb_transfer (mgr s') \<and> transfers (mgr s') \<subseteq> transfers (mgr s)"
proof -
  obtain w where w: "encode_message pack data = Inr w" "decode_message unpack w = Inr v"
    using assms(5) by (auto split: sum.splits)
  show ?thesis
  proof (cases "length w \<le> c")
    case True
    let ?m = "\<lparr>nm_subject = subject, nm_data = w, nm_headers = headers,
        nm_reply = (case reply of None \<Rightarrow> [] | Some r \<Rightarrow> r)\<rparr>"
    have m: "msgs = [?m]" using True assms(1) w(1) by (simp add: publish_def send_all_ok)
    then obtain t where t: "ts = [t]" using assms(11) by (auto simp: length_Suc_conv)
    have "header_of ?m ''x-chunked-transfer'' = None"
      using assms(3) by (simp add: plain_def header_of_def split: option.splits)
    moreover have "regular ?m" using assms(10) by (simp add: m)
    ultimately obtain s' out where "handle t ?m s = (s', out)" "mgr s' = mgr s" "ready s'" "received out = [v]"
      using direct_law [OF assms(6), of ?m v t] w(2) by auto
    then show ?thesis using assms(7) by (simp add: m t)
  next
    case False
    then obtain h hdrs chunks where
      P: "pack (chunk_header tid (int (length chunks)) (int (length w)) (int c)) = Inr h"
      "create_chunks w tid (int c) = Inr chunks"
      "dget hdrs ''x-chunked-transfer'' = Some ''header''" "dget hdrs ''x-chunk-id'' = Some tid"
      "msgs = \<lparr>nm_subject = subject, nm_data = h, nm_headers = Some hdrs,
                 nm_reply = (case reply of None \<Rightarrow> [] | Some r \<Rightarrow> r)\<rparr>
         # map (\<lambda>(i, chunk). chunk_message subject (case reply of None \<Rightarrow> [] | Some r \<Rightarrow> r) tid i chunk)
               (List.enumerate 0 chunks)"
      using publish_chunked [OF assms(1,2) w(1)] by (metis not_le)
    obtain t0 ts' where ts: "ts = t0 # ts'" "length ts' = length chunks"
      using assms(11) by (auto simp: P(5) length_Suc_conv)
    have "w \<noteq> []" using False by auto
    then show ?thesis
      unfolding P(5) ts(1)
      by (intro deliver_chunked [OF assms(6-9,2) _ P(2) w(2)])
         (use assms(4,10,12) P(1,3,4,5) ts in \<open>simp_all add: header_of_def header_travels_def\<close>)
  qed
qed

lemma publish_seq_deliver:
  assumes "0 < c" "header_travels pack unpack"
    and "list_all2 (\<lambda>(tid, data) v. arrives unpack pack data = Some v) pubs vs"
    and "\<forall>r \<in> set (publish_seq pack (int c) subject pubs). snd r = None \<and> regular (hd (fst r))"
    and "ready s" "owned cb_transfer (mgr s)"
    and "[] \<notin> fst ` set pubs" "fst ` set pubs \<inter> transfers (mgr s) = {}"
    and "list_all2 (\<lambda>ts r. length ts = length (fst r) \<and> timely ts) tss (publish_seq pack (int c) subject pubs)"
  shows "\<exists>s' out. deliver handle
      (concat (map2 zip tss (map fst (publish_seq pack (int c) subject pubs)))) s = (s', out) \<and>
      received out = vs \<and> ready s' \<and> owned cb_transfer (mgr s')"
  using assms(3-)
proof (induction pubs arbitrary: vs tss s)
  case Nil
  then show ?case by (auto simp: received_Nil)
next
  case (Cons p pubs)
  obtain tid data where p: "p = (tid, data)" by fastforce
  obtain v vs' ts tss' where l: "vs = v # vs'" "arrives unpack pack data = Some v"
    "list_all2 (\<lambda>(tid, data) v. arrives unpack pack data = Some v) pubs vs'"
    "tss = ts # tss'" "timely ts"
    "length ts = length (fst (publish pack (\<lambda>_. None) tid (int c) True subject data None None))"
    "list_all2 (\<lambda>ts r. length ts = length (fst r) \<and> timely ts) tss' (publish_seq pack (int c) subject pubs)"
    using Cons.prems by (auto simp: p list_all2_Cons1 list_all2_Cons2)
  obtain msgs where m: "publish pack (\<lambda>_. None) tid (int c) True subject data None None = (msgs, None)"
    using Cons.prems(2) by (cases "publish pack (\<lambda>_. None) tid (int c) True subject data None None") (auto simp: p)
  have "tid \<noteq> []" "tid \<notin> transfers (mgr s)" "regular (hd msgs)" using Cons.prems(2,5,6) by (auto simp: p m)
  then obtain s1 out1 where d: "deliver handle (zip ts msgs) s = (s1, out1)"
    "received out1 = [v]" "ready s1" "owned cb_transfer (mgr s1)" "transfers (mgr s1) \<subseteq> transfers (mgr s)"
    using publish_deliver [OF m assms(1) _ assms(2) l(2) Cons.prems(3,4), of ts] l(5,6)
    by (auto simp: plain_def m)
  have fresh: "[] \<notin> fst ` set pubs" "fst ` set pubs \<inter> transfers (mgr s1) = {}"
    using Cons.prems(5,6) d(5) by auto
  have ok: "\<forall>r \<in> set (publish_seq pack (int c) subject pubs). snd r = None \<and> regular (hd (fst r))"
    using Cons.prems(2) by (simp add: p)
  obtain s' out2 where "deliver handle
      (concat (map2 zip tss' (map fst (publish_seq pack (int c) subject pubs)))) s1 = (s', out2)"
      "received out2 = vs'" "ready s'" "owned cb_transfer (mgr s')"
    using Cons.IH [OF l(3) ok d(3,4) fresh l(7)] by blast
  then show ?case using d by (simp add: p l(1,4) m deliver_append received_append)
qed

end

section \<open>A subscription is a chunk endpoint\<close>

lemma handle_header:
  assumes "header_of msg ''x-chunked-transfer'' = Some ''header''" "header_of msg ''x-chunk-id'' = Some tid"
    and "tid \<noteq> []" "unpack (nm_data msg) = Inr (chunk_header tid n len c)"
    and "start_receiving can_alloc now tid n (Queue_Append key tid) (Print_Error key tid) (Some len) (Some c)
           (rx_manager rx) = (m, evs)"
    and "rx_queue key rx = []"
  shows "\<exists>rx' out. message_handler can_alloc unpack key now msg rx = (rx', out) \<and>
    rx_manager rx' = m \<and> rx_queue key rx' = [] \<and> invoked key out = []"
proof -
  obtain rx' out where r: "run_callbacks evs (rx\<lparr>rx_manager := m\<rparr>) = (rx', out)" by fastforce
  have "message_handler can_alloc unpack key now msg rx = (rx', out)"
    using assms by (simp add: message_handler_def read_header_def chunk_header_def int_field_def r)
  then show ?thesis
    using run_callbacks_effect [OF r, of key] completed_for_errors [OF start_errors [OF assms(5)]]
      assms(6) by simp
qed

lemma handle_chunk:
  assumes "tid \<noteq> []" "rx_queue key rx = []"
    and "process_chunk unpack now (client_chunk tid (int i) (cd_data ch)) (rx_manager rx) = (m', evs)"
  shows "\<exists>rx' out. message_handler can_alloc unpack key now (chunk_message subj rep tid i ch) rx = (rx', out) \<and>
    rx_manager rx' = m' \<and> rx_queue key rx' = [] \<and> invoked key out = completed_for key evs"
proof -
  obtain rx1 out1 where r: "run_callbacks evs (rx\<lparr>rx_manager := m'\<rparr>) = (rx1, out1)" by fastforce
  note R = run_callbacks_effect [OF r, of key]
  have "message_handler can_alloc unpack key now (chunk_message subj rep tid i ch) rx
      = (rx1\<lparr>rx_queues := dset key [] (rx_queues rx1)\<rparr>, out1 @ map (Invoke key) (rx_queue key rx1))"
    using assms by (simp add: message_handler_def r drain_def)
  then show ?thesis using R assms(2) by simp
qed

interpretation sub: chunk_endpoint "message_handler can_alloc unpack key" rx_manager "\<lambda>rx. rx_queue key rx = []"
    "\<lambda>_. True" "invoked key" "completed_for key" "Queue_Append key" "Print_Error key" can_alloc unpack
  for can_alloc unpack key
proof unfold_locales
  fix m v now and rx :: client_rx
  assume "header_of m ''x-chunked-transfer'' = None" "decode_message unpack (nm_data m) = Inr v"
    "rx_queue key rx = []"
  then show "\<exists>rx' out. message_handler can_alloc unpack key now m rx = (rx', out) \<and>
      rx_manager rx' = rx_manager rx \<and> rx_queue key rx' = [] \<and> invoked key out = [v]"
    by (simp add: message_handler_def)
qed (use handle_header handle_chunk in \<open>auto simp: completed_for_errors\<close>)

section \<open>Properties of publishing and delivery\<close>

text \<open>
  C9. End to end over the message layer: messages published one after another, small ones
  directly and large ones in chunks, reach a subscriber's handler exactly once each and in the
  order of publishing, whatever their sizes and whatever else the client's manager is assembling.
  Each message's parts arrive within the time to live.
\<close>

theorem publish_subscribe:
  assumes "0 < c" "header_travels pack unpack"
    and "list_all2 (\<lambda>(tid, data) v. arrives unpack pack data = Some v) pubs vs"
    and "\<forall>r \<in> set (publish_seq pack (int c) subject pubs). snd r = None"
    and "owned cb_transfer (rx_manager rx)" "rx_queue key rx = []"
    and "[] \<notin> fst ` set pubs" "fst ` set pubs \<inter> transfers (rx_manager rx) = {}"
    and "list_all2 (\<lambda>ts r. length ts = length (fst r) \<and> timely ts) tss (publish_seq pack (int c) subject pubs)"
  shows "\<exists>rx' out. deliver (message_handler can_alloc unpack key)
      (concat (map2 zip tss (map fst (publish_seq pack (int c) subject pubs)))) rx = (rx', out) \<and>
      invoked key out = vs \<and> rx_queue key rx' = [] \<and> owned cb_transfer (rx_manager rx')"
  by (rule sub.publish_seq_deliver) (use assms in auto)

definition demo_pack :: "pyval \<Rightarrow> exc + bytes" where
  "demo_pack v = (if v = PInt 5 then Inr [1] else if v = PInt 6 then Inr [1, 2, 3]
     else if v = chunk_header ''t'' 2 3 2 then Inr [7, 7] else Inl (Raised TypeError ''unsupported''))"

definition demo_unpack :: "bytes \<Rightarrow> exc + pyval" where
  "demo_unpack b = (if b = [1] then Inr (PInt 5) else if b = [1, 2, 3] then Inr (PInt 6)
     else if b = [7, 7] then Inr (chunk_header ''t'' 2 3 2) else Inl (Raised ValueError ''invalid''))"

definition rx_init :: client_rx where
  "rx_init = \<lparr>rx_manager = new_manager, rx_queues = []\<rparr>"

lemma rx_init_simps [simp]: "owned cb_transfer (rx_manager rx_init)" "rx_queue key rx_init = []" "transfers (rx_manager rx_init) = {}"
  by (simp_all add: rx_init_def rx_queue_def)

lemma demo_travels: "header_travels demo_pack demo_unpack"
  by (auto simp: header_travels_def demo_pack_def demo_unpack_def chunk_header_def split: if_splits)

theorem publish_subscribe_witness:
  "\<exists>rx out. deliver (message_handler (\<lambda>_. True) demo_unpack 4)
      (concat (map2 zip [[0], [10, 20, 30]] (map fst (publish_seq demo_pack (int 2) ''s'' [(''u'', PInt 5), (''t'', PInt 6)]))))
      rx_init = (rx, out) \<and> invoked 4 out = [PInt 5, PInt 6]"
proof -
  have a: "list_all2 (\<lambda>(tid, data) v. arrives demo_unpack demo_pack data = Some v)
      [(''u'', PInt 5), (''t'', PInt 6)] [PInt 5, PInt 6]" by code_simp
  have b: "\<forall>r \<in> set (publish_seq demo_pack (int 2) ''s'' [(''u'', PInt 5), (''t'', PInt 6)]). snd r = None"
    by code_simp
  have c: "list_all2 (\<lambda>ts r. length ts = length (fst r) \<and> timely ts) [[0], [10, 20, 30]]
      (publish_seq demo_pack (int 2) ''s'' [(''u'', PInt 5), (''t'', PInt 6)])" by code_simp
  show ?thesis
    using publish_subscribe [OF _ demo_travels a b _ _ _ _ c, of rx_init 4 "\<lambda>_. True"] by auto
qed

text \<open>
  C10. What \<open>publish\<close> sends: a message that fits goes out as it is; any other as one header and the
  chunks, each chunk within the payload limit, all on the same subject with the same reply
  subject, together the encoded message.
\<close>

theorem publish_messages:
  assumes "publish pack (\<lambda>_. None) tid (int c) True subject data headers reply = (msgs, None)"
    and "0 < c" "encode_message pack data = Inr w"
  shows "(\<forall>m \<in> set msgs. nm_subject m = subject \<and> nm_reply m = (case reply of None \<Rightarrow> [] | Some r \<Rightarrow> r)) \<and>
    (if length w \<le> c then map nm_data msgs = [w]
     else length msgs = Suc ((length w + c - 1) div c) \<and> concat (map nm_data (tl msgs)) = w \<and>
          (\<forall>m \<in> set (tl msgs). nm_data m \<noteq> [] \<and> length (nm_data m) \<le> c))"
proof (cases "length w \<le> c")
  case True
  then show ?thesis
    using assms(1,3) by (auto simp: publish_def send_all_ok)
next
  case False
  then obtain h hdrs chunks where
    P: "create_chunks w tid (int c) = Inr chunks"
    "msgs = \<lparr>nm_subject = subject, nm_data = h, nm_headers = Some hdrs,
               nm_reply = (case reply of None \<Rightarrow> [] | Some r \<Rightarrow> r)\<rparr>
       # map (\<lambda>(i, chunk). chunk_message subject (case reply of None \<Rightarrow> [] | Some r \<Rightarrow> r) tid i chunk)
             (List.enumerate 0 chunks)"
    using publish_chunked [OF assms] by (metis not_le)
  have ch: "chunks = map (\<lambda>i. \<lparr>cd_transferId = tid, cd_index = int i, cd_data = piece w c i\<rparr>) [0 ..< n_pieces w c]"
    using create_chunks_pieces [OF assms(2), of w tid] P(1) by simp
  have d: "map nm_data (tl msgs) = map (piece w c) [0 ..< n_pieces w c]"
    unfolding P(2) by (rule nth_equalityI) (simp_all add: nth_enumerate_eq ch)
  then have "nm_data ` set (tl msgs) = piece w c ` {..<n_pieces w c}"
    by (metis atLeast0LessThan list.set_map set_upt)
  moreover have "length (piece w c i) > 0 \<and> length (piece w c i) \<le> c" if "i < n_pieces w c" for i
    using piece_positive [OF assms(2) that] length_piece [OF assms(2) that] by linarith
  ultimately have "\<forall>b \<in> nm_data ` set (tl msgs). b \<noteq> [] \<and> length b \<le> c" by auto
  moreover have "concat (map nm_data (tl msgs)) = w"
    by (simp add: d concat_pieces [OF assms(2)])
  moreover have "length msgs = Suc ((length w + c - 1) div c)"
    by (simp add: P(2) ch n_pieces_def)
  moreover have "\<forall>m \<in> set msgs. nm_subject m = subject \<and> nm_reply m = (case reply of None \<Rightarrow> [] | Some r \<Rightarrow> r)"
    by (auto simp: P(2) chunk_message_def)
  ultimately show ?thesis using False by auto
qed

theorem publish_messages_witness:
  "concat (map nm_data (tl (fst (publish demo_pack (\<lambda>_. None) ''t'' (int 2) True ''s'' (PInt 6) None None))))
   = [1, 2, 3]"
proof -
  let ?r = "publish demo_pack (\<lambda>_. None) ''t'' (int 2) True ''s'' (PInt 6) None None"
  have r: "?r = (fst ?r, None)" by code_simp
  have w: "encode_message demo_pack (PInt 6) = Inr [1, 2, 3]" by code_simp
  show ?thesis using publish_messages [OF r _ w] by simp
qed

text \<open>
  Two subscriptions of one client whose patterns both match get every message of a transfer
  twice. The second header replaces the assembler and the callbacks of the first, so only one of
  the two handlers is called, while two small messages reach both.
\<close>

fun deliver_each :: "(int \<Rightarrow> bool) \<Rightarrow> (bytes \<Rightarrow> exc + pyval) \<Rightarrow> (nat \<times> int \<times> nats_msg) list \<Rightarrow> client_rx
    \<Rightarrow> client_rx \<times> rx_event list" where
  "deliver_each can_alloc unpack [] rx = (rx, [])"
| "deliver_each can_alloc unpack ((key, now, msg) # msgs) rx =
     (case message_handler can_alloc unpack key now msg rx of
        (rx1, out1) \<Rightarrow>
          (case deliver_each can_alloc unpack msgs rx1 of (rx2, out2) \<Rightarrow> (rx2, out1 @ out2)))"

lemma second_subscription_steals_transfer:
  "snd (deliver_each (\<lambda>_. True) demo_unpack
      (concat (map (\<lambda>m. [(1, 5, m), (2, 5, m)])
         (fst (publish demo_pack (\<lambda>_. None) ''t'' 2 True ''s'' (PInt 6) None None)))) rx_init)
    = [Invoke 2 (PInt 6)]"
  "snd (deliver_each (\<lambda>_. True) demo_unpack
      (concat (map (\<lambda>m. [(1, 5, m), (2, 5, m)])
         (fst (publish demo_pack (\<lambda>_. None) ''t'' 2 True ''s'' (PInt 5) None None)))) rx_init)
    = [Invoke 1 (PInt 5), Invoke 2 (PInt 5)]"
  by code_simp+

end
