(* ===== verification/Ids.thy ===== *)
theory Ids
  imports Prelude
begin

text \<open>
  The identifiers of \<open>utils.py\<close>: request ids and reply prefixes, and the reply subjects that
  \<open>client.py\<close> derives from them. The clock and the random source are arguments.
\<close>

section \<open>Identifiers\<close>

definition ID_CHARS :: string where
  "ID_CHARS = ''0123456789abcdefghijklmnopqrstuvwxyz''"

text \<open>\<open>now_ms\<close> is \<open>int(time.time() * 1000)\<close>, \<open>picks\<close> the nine indices that \<open>choices\<close> draws.\<close>

definition generate_id :: "string option \<Rightarrow> int \<Rightarrow> nat list \<Rightarrow> string" where
  "generate_id reply_prefix now_ms picks =
     (let request_id = show_int now_ms @ ''-'' @ map (\<lambda>d. ID_CHARS ! d) picks
      in case reply_prefix of
           Some p \<Rightarrow> if p \<noteq> [] then p @ ''.'' @ request_id else request_id
         | None \<Rightarrow> request_id)"

text \<open>The loop over \<open>divmod(value, 36)\<close>: the digits from the last to the first.\<close>

fun base36_digits :: "nat \<Rightarrow> string" where
  "base36_digits value =
     (if value = 0 then [] else (ID_CHARS ! (value mod 36)) # base36_digits (value div 36))"

declare base36_digits.simps [simp del]

definition rjust :: "nat \<Rightarrow> char \<Rightarrow> string \<Rightarrow> string" where
  "rjust n c s = replicate (n - length s) c @ s"

text \<open>\<open>value\<close> is \<open>secrets.randbits(48)\<close>.\<close>

definition generate_reply_prefix :: "nat \<Rightarrow> string" where
  "generate_reply_prefix value = rjust 10 (CHR ''0'') (rev (base36_digits value))"

definition reply_subject :: "string \<Rightarrow> string" where
  "reply_subject request_id = ''rpc.reply.'' @ request_id"

text \<open>\<open>msg.subject[len("rpc.reply."):]\<close>\<close>

definition reply_suffix :: "string \<Rightarrow> string" where
  "reply_suffix subject = drop (length ''rpc.reply.'') subject"

definition mux_pattern :: "string \<Rightarrow> string" where
  "mux_pattern reply_prefix = ''rpc.reply.'' @ reply_prefix @ ''.>''"

lemma reply_suffix_subject [simp]: "reply_suffix (reply_subject s) = s"
  by (simp add: reply_suffix_def reply_subject_def)

section \<open>Reply prefixes\<close>

lemma ID_CHARS_facts:
  "length ID_CHARS = 36" "distinct ID_CHARS" "CHR ''.'' \<notin> set ID_CHARS" "CHR ''-'' \<notin> set ID_CHARS"
  by code_simp+

lemma ID_CHARS_inject: "i < 36 \<Longrightarrow> j < 36 \<Longrightarrow> ID_CHARS ! i = ID_CHARS ! j \<longleftrightarrow> i = j"
  using ID_CHARS_facts by (simp add: nth_eq_iff_index_eq)

lemma base36_digits_0 [simp]: "base36_digits 0 = []"
  by (simp add: base36_digits.simps)

lemma base36_digits_chars: "set (base36_digits v) \<subseteq> set ID_CHARS"
proof (induction v rule: base36_digits.induct)
  case (1 v)
  then show ?case
    by (subst base36_digits.simps) (use ID_CHARS_facts(1) in \<open>auto intro: nth_mem\<close>)
qed

lemma length_base36_digits: "v < 36 ^ n \<Longrightarrow> length (base36_digits v) \<le> n"
proof (induction n arbitrary: v)
  case (Suc n)
  then have "v div 36 < 36 ^ n" by (simp add: less_mult_imp_div_less)
  with Suc.IH show ?case by (subst base36_digits.simps) simp
qed simp

text \<open>The number that a string of digits, last first, stands for.\<close>

fun base36_value :: "string \<Rightarrow> nat" where
  "base36_value [] = 0"
| "base36_value (c # cs) = length (takeWhile (\<lambda>d. d \<noteq> c) ID_CHARS) + 36 * base36_value cs"

lemma takeWhile_index:
  "distinct xs \<Longrightarrow> i < length xs \<Longrightarrow> length (takeWhile (\<lambda>d. d \<noteq> xs ! i) xs) = i"
proof (induction xs arbitrary: i)
  case (Cons x xs)
  then show ?case by (cases i) auto
qed simp

lemma index_ID_CHARS: "i < 36 \<Longrightarrow> length (takeWhile (\<lambda>d. d \<noteq> ID_CHARS ! i) ID_CHARS) = i"
  using takeWhile_index [OF ID_CHARS_facts(2)] ID_CHARS_facts(1) by simp

lemma base36_value_digits: "base36_value (base36_digits v) = v"
proof (induction v rule: base36_digits.induct)
  case (1 v)
  then show ?case
    by (subst base36_digits.simps) (simp add: index_ID_CHARS)
qed

lemma base36_value_zeros: "base36_value (s @ replicate n (CHR ''0'')) = base36_value s"
proof (induction s)
  case Nil
  have "base36_value (replicate n (CHR ''0'')) = 0"
    by (induction n) (simp_all add: ID_CHARS_def)
  then show ?case by simp
qed simp

section \<open>Properties of the identifiers\<close>

text \<open>
  A reply prefix is always ten base-36 characters, so it is one token of a subject, and
  different random values give different prefixes.
\<close>

theorem generate_reply_prefix_ok:
  assumes "v < 2 ^ 48"
  shows "length (generate_reply_prefix v) = 10 \<and> set (generate_reply_prefix v) \<subseteq> set ID_CHARS \<and>
    CHR ''.'' \<notin> set (generate_reply_prefix v) \<and>
    (generate_reply_prefix u = generate_reply_prefix v \<longrightarrow> u = v)"
proof -
  have "v < 36 ^ 10" using assms by simp
  then have len: "length (base36_digits v) \<le> 10" by (rule length_base36_digits)
  have "CHR ''0'' \<in> set ID_CHARS" by code_simp
  then have chars: "set (generate_reply_prefix v) \<subseteq> set ID_CHARS"
    using base36_digits_chars [of v] by (auto simp: generate_reply_prefix_def rjust_def)
  have inv: "base36_value (rev (generate_reply_prefix x)) = x" for x
    by (simp add: generate_reply_prefix_def rjust_def base36_value_zeros base36_value_digits)
  have "u = v" if "generate_reply_prefix u = generate_reply_prefix v"
    using inv that by metis
  moreover have "length (generate_reply_prefix v) = 10"
    using len by (simp add: generate_reply_prefix_def rjust_def)
  ultimately show ?thesis using chars ID_CHARS_facts(3) by blast
qed

theorem generate_reply_prefix_ok_witness:
  "length (generate_reply_prefix 1295) = 10 \<and> generate_reply_prefix 1295 = ''00000000zz''"
proof
  show "length (generate_reply_prefix 1295) = 10"
    using generate_reply_prefix_ok [of 1295] by simp
  show "generate_reply_prefix 1295 = ''00000000zz''" by code_simp
qed

lemma split_on_append: "split_on c (xs @ c # ys) = split_on c xs @ split_on c ys"
proof (induction xs)
  case (Cons x xs)
  then show ?case by (auto split: list.splits simp: Cons_eq_append_conv)
qed simp

lemma show_int_no_dash: "0 \<le> t \<Longrightarrow> CHR ''-'' \<notin> set (show_int t)"
proof -
  assume "0 \<le> t"
  then have "list_all is_digit (show_int t)"
    using show_nat_digits by (simp add: show_int_def)
  then show ?thesis by (auto simp: list_all_iff is_digit_def)
qed

lemma show_int_no_dot: "0 \<le> t \<Longrightarrow> CHR ''.'' \<notin> set (show_int t)"
proof -
  assume "0 \<le> t"
  then have "list_all is_digit (show_int t)"
    using show_nat_digits by (simp add: show_int_def)
  then show ?thesis by (auto simp: list_all_iff is_digit_def)
qed

lemma dash_split:
  assumes "CHR ''-'' \<notin> set a" "CHR ''-'' \<notin> set b" "a @ CHR ''-'' # x = b @ CHR ''-'' # y"
  shows "a = b \<and> x = y"
proof -
  have "takeWhile (\<lambda>c. c \<noteq> CHR ''-'') (z @ CHR ''-'' # u) = z" if "CHR ''-'' \<notin> set z" for z u
    using that by (induction z) auto
  then have "a = b" using assms by metis
  with assms(3) show ?thesis by simp
qed

lemma show_int_inject: "0 \<le> t \<Longrightarrow> 0 \<le> t' \<Longrightarrow> show_int t = show_int t' \<longleftrightarrow> t = t'"
  by (simp add: show_int_def nat_eq_iff)

lemma picks_inject:
  "\<forall>d \<in> set xs \<union> set ys. d < 36 \<Longrightarrow> map (\<lambda>d. ID_CHARS ! d) xs = map (\<lambda>d. ID_CHARS ! d) ys \<longleftrightarrow> xs = ys"
  by (rule inj_on_map_eq_map) (auto simp: inj_on_def ID_CHARS_inject)

text \<open>
  C11. A request id tells its client and its call apart: the reply subject of a call falls under
  the wildcard of the client's reply inbox (its tokens are those of the pattern with the last,
  \<open>>\<close>, replaced by one more token), the suffix that the inbox reads off the subject is the id,
  and two ids are equal only when the time and the random choice are.
\<close>

theorem generate_id_ok:
  assumes "p \<noteq> []" "0 \<le> t" "0 \<le> t'" "\<forall>d \<in> set picks \<union> set picks'. d < 36"
  shows "reply_suffix (reply_subject (generate_id (Some p) t picks)) = generate_id (Some p) t picks \<and>
    (\<exists>tok. tok \<noteq> [] \<and>
       split_on (CHR ''.'') (reply_subject (generate_id (Some p) t picks))
       = butlast (split_on (CHR ''.'') (mux_pattern p)) @ [tok]) \<and>
    (generate_id (Some p) t picks = generate_id (Some p) t' picks' \<longrightarrow> t = t' \<and> picks = picks')"
proof -
  let ?tok = "show_int t @ ''-'' @ map (\<lambda>d. ID_CHARS ! d) picks"
  have dots: "CHR ''.'' \<notin> set ?tok"
    using show_int_no_dot [OF assms(2)] assms(4) ID_CHARS_facts(1,3) by (fastforce simp: nth_mem)
  have "split_on (CHR ''.'') (reply_subject (generate_id (Some p) t picks))
      = split_on (CHR ''.'') (''rpc.reply.'' @ p) @ [?tok]"
    using assms(1) split_on_append [of "CHR ''.''" "''rpc.reply.'' @ p" ?tok] split_on_no_sep [OF dots]
    by (simp add: reply_subject_def generate_id_def)
  moreover have "split_on (CHR ''.'') (mux_pattern p) = split_on (CHR ''.'') (''rpc.reply.'' @ p) @ [''>'']"
    using split_on_append [of "CHR ''.''" "''rpc.reply.'' @ p" "''>''"] by (simp add: mux_pattern_def)
  moreover have "t = t' \<and> picks = picks'"
    if "generate_id (Some p) t picks = generate_id (Some p) t' picks'"
    using that assms(1) dash_split [OF show_int_no_dash [OF assms(2)] show_int_no_dash [OF assms(3)]]
      show_int_inject [OF assms(2,3)] picks_inject [OF assms(4)]
    by (simp add: generate_id_def)
  ultimately show ?thesis by (intro conjI exI [of _ ?tok] impI) simp_all
qed

theorem generate_id_ok_witness:
  "reply_suffix (reply_subject (generate_id (Some ''0abc'') 1700 [1, 35, 10])) = ''0abc.1700-1za''"
  using generate_id_ok [of "''0abc''" 1700 1700 "[1, 35, 10]" "[]"]
  by (simp add: generate_id_def show_int_def show_nat.simps ID_CHARS_def)

end
