(* ===== verification/Calls.thy ===== *)
theory Calls
  imports Wire Ids
begin

text \<open>
  Calls in flight (\<open>client.py\<close>): \<open>_call_once\<close> and its per-call state, the multiplexed reply inbox
  (\<open>_handle_mux_message\<close>, \<open>_route_mux_response\<close>), the service-path variant
  \<open>_call_once_service\<close>, timeouts, and the settling of everything on disconnect and suspend.
  A future is a position in the list of futures, a timer has the number of its future.
\<close>

section \<open>State\<close>

datatype future = Waiting | Done_Result pyval | Done_Error exc | Cancelled

text \<open>
  An entry of \<open>pending_requests\<close>. Muxed calls store their subject, service calls the cleanup hook
  \<open>unsubscribe_all\<close>.
\<close>

record pending_request =
  pr_future :: nat
  pr_timeout :: nat
  pr_subject :: "string option"
  pr_cleanup :: bool

text \<open>
  \<open>cc_timers\<close> are the armed \<open>call_later\<close> handles with what their callbacks closed over (request id
  and subject), \<open>cc_replies\<close> the service calls whose reply subscription and no-responder inbox are
  live, \<open>cc_raised\<close> the callers that got an exception from publishing instead of a future.
\<close>

record client_calls =
  cc_rx :: client_rx
  cc_pending :: "(string, pending_request) pydict"
  cc_futures :: "future list"
  cc_timers :: "(nat, string \<times> string) pydict"
  cc_status :: "(string, nat) pydict"
  cc_replies :: "(string, nat) pydict"
  cc_raised :: "(nat, exc) pydict"

definition set_future :: "nat \<Rightarrow> future \<Rightarrow> client_calls \<Rightarrow> client_calls" where
  "set_future f x c = c\<lparr>cc_futures := (cc_futures c)[f := x]\<rparr>"

definition is_done :: "nat \<Rightarrow> client_calls \<Rightarrow> bool" where
  "is_done f c \<longleftrightarrow> cc_futures c ! f \<noteq> Waiting"

definition cancel_timer :: "nat \<Rightarrow> client_calls \<Rightarrow> client_calls" where
  "cancel_timer t c = c\<lparr>cc_timers := dpop t (cc_timers c)\<rparr>"

definition pop_pending :: "string \<Rightarrow> client_calls \<Rightarrow> client_calls" where
  "pop_pending rid c = c\<lparr>cc_pending := dpop rid (cc_pending c)\<rparr>"

section \<open>Starting a call\<close>

text \<open>The request message of a call.\<close>

definition call_message :: "string \<Rightarrow> pyval list \<Rightarrow> bool \<Rightarrow> pyval" where
  "call_message request_id args discover = PDict
     ([(PStr ''id'', PStr request_id), (PStr ''method'', PStr ''call''), (PStr ''params'', PTuple args)]
      @ (if discover then [(PStr ''__discover'', PBool True)] else []))"

text \<open>
  \<open>_call_once\<close> up to the publish: the future, the timer and the entry. The publish of
  \<open>call_message\<close> with reply subject \<open>reply_subject request_id\<close> follows; while it is awaited,
  messages can come in.
\<close>

definition begin_call :: "string \<Rightarrow> string \<Rightarrow> client_calls \<Rightarrow> client_calls" where
  "begin_call request_id subject c =
     (let f = length (cc_futures c)
      in c\<lparr>cc_futures := cc_futures c @ [Waiting],
           cc_timers := dset f (request_id, subject) (cc_timers c),
           cc_pending := dset request_id
             \<lparr>pr_future = f, pr_timeout = f, pr_subject = Some subject, pr_cleanup = False\<rparr> (cc_pending c)\<rparr>)"

text \<open>The except branch around the publish of the call with future \<open>f\<close>.\<close>

definition publish_failed :: "string \<Rightarrow> nat \<Rightarrow> exc \<Rightarrow> client_calls \<Rightarrow> client_calls" where
  "publish_failed request_id f e c =
     (let c = (case dget (cc_pending c) request_id of
                 None \<Rightarrow> c
               | Some p \<Rightarrow> cancel_timer f (pop_pending request_id c))
      in c\<lparr>cc_raised := dset f e (cc_raised c)\<rparr>)"

text \<open>
  \<open>_call_once_service\<close> up to the publish: the reply subscription and the inbox are created too.
\<close>

definition begin_service_call :: "string \<Rightarrow> string \<Rightarrow> client_calls \<Rightarrow> client_calls" where
  "begin_service_call request_id subject c =
     (let f = length (cc_futures c)
      in c\<lparr>cc_futures := cc_futures c @ [Waiting],
           cc_timers := dset f (request_id, subject) (cc_timers c),
           cc_pending := dset request_id
             \<lparr>pr_future = f, pr_timeout = f, pr_subject = None, pr_cleanup = True\<rparr> (cc_pending c),
           cc_replies := dset request_id f (cc_replies c)\<rparr>)"

definition unsubscribe_all :: "string \<Rightarrow> client_calls \<Rightarrow> client_calls" where
  "unsubscribe_all request_id c =
     (let c = (case dget (cc_pending c) request_id of
                 None \<Rightarrow> c
               | Some p \<Rightarrow> pop_pending request_id (cancel_timer (pr_timeout p) c))
      in c\<lparr>cc_replies := dpop request_id (cc_replies c)\<rparr>)"

section \<open>Settling\<close>

definition timeout_error :: "string \<Rightarrow> int \<Rightarrow> exc" where
  "timeout_error subject timeout = Raised TimeoutError
     (''RPC call to '' @ [CHR 0x27] @ subject @ [CHR 0x27] @ '' timed out after '' @ show_int timeout @ ''ms'')"

text \<open>
  The timer of future \<open>f\<close> fires (\<open>handle_timeout\<close> of both call paths); \<open>timeout\<close> is the option of
  that name.
\<close>

definition handle_timeout :: "int \<Rightarrow> nat \<Rightarrow> client_calls \<Rightarrow> client_calls" where
  "handle_timeout timeout f c =
     (case dget (cc_timers c) f of
        None \<Rightarrow> c
      | Some (request_id, subject) \<Rightarrow>
          let c = cancel_timer f c
          in case dget (cc_pending c) request_id of
               None \<Rightarrow> c
             | Some p \<Rightarrow>
                 let c = pop_pending request_id c
                 in if is_done f c then c else set_future f (Done_Error (timeout_error subject timeout)) c)"

text \<open>
  A response's outcome: its error as an exception, or its result with the method list attached
  to a dictionary.
\<close>

definition attach_methods :: "(pyval \<times> pyval) list \<Rightarrow> pyval \<Rightarrow> pyval" where
  "attach_methods response r =
     (case (sget response ''__methods'', r) of
        (Some m, PDict d) \<Rightarrow> PDict (dset (PStr ''__methods'') m d)
      | _ \<Rightarrow> r)"

definition response_outcome :: "(pyval \<times> pyval) list \<Rightarrow> exc + future" where
  "response_outcome response =
     (case sget response ''error'' of
        Some err \<Rightarrow> (case from_dict err of Inl e \<Rightarrow> Inl e | Inr x \<Rightarrow> Inr (Done_Error (RPC x)))
      | None \<Rightarrow> Inr (Done_Result (attach_methods response (sget_or_none response ''result''))))"

text \<open>Dictionary keys have to be hashable.\<close>

fun hashable :: "pyval \<Rightarrow> bool" where
  "hashable (PList _) = False"
| "hashable (PDict _) = False"
| "hashable (PByteArray _) = False"
| "hashable (PTuple xs) = list_all hashable xs"
| "hashable _ = True"

text \<open>\<open>_route_mux_response\<close>, with the exception that it raises.\<close>

definition route_mux_response :: "pyval \<Rightarrow> client_calls \<Rightarrow> client_calls \<times> exc option" where
  "route_mux_response data c =
     (case data of
        PDict response \<Rightarrow>
          let rid = sget_or_none response ''id''
          in if \<not> truthy rid then (c, None)
             else if \<not> hashable rid then (c, Some (Raised TypeError ''unhashable type''))
             else
               (case rid of
                  PStr request_id \<Rightarrow>
                    (case dget (cc_pending c) request_id of
                       None \<Rightarrow> (c, None)
                     | Some p \<Rightarrow>
                         let c = cancel_timer (pr_timeout p) (pop_pending request_id c)
                         in if is_done (pr_future p) c then (c, None)
                            else
                              (case response_outcome response of
                                 Inl e \<Rightarrow> (c, Some e)
                               | Inr x \<Rightarrow> (set_future (pr_future p) x c, None)))
                | _ \<Rightarrow> (c, None))
      | _ \<Rightarrow> (c, None))"

text \<open>
  \<open>handle_rpc_response\<close> of a service call's reply subscription: here the entry must be the one of
  the call itself.
\<close>

definition handle_rpc_response :: "string \<Rightarrow> pyval \<Rightarrow> client_calls \<Rightarrow> client_calls \<times> exc option" where
  "handle_rpc_response request_id data c =
     (case data of
        PDict response \<Rightarrow>
          if sget_or_none response ''id'' \<noteq> PStr request_id then (c, None)
          else
            (case dget (cc_pending c) request_id of
               None \<Rightarrow> (c, None)
             | Some p \<Rightarrow>
                 let c = cancel_timer (pr_timeout p) (pop_pending request_id c)
                 in if is_done (pr_future p) c then (unsubscribe_all request_id c, None)
                    else
                      (case response_outcome response of
                         Inl e \<Rightarrow> (c, Some e)
                       | Inr x \<Rightarrow> (unsubscribe_all request_id (set_future (pr_future p) x c), None)))
      | _ \<Rightarrow> (c, Some (Raised AttributeError ''get'')))"

text \<open>\<open>request_callback\<close>: a no-responder status on the inbox of a service call.\<close>

definition service_no_responders :: "string \<Rightarrow> string \<Rightarrow> client_calls \<Rightarrow> client_calls" where
  "service_no_responders request_id subject c =
     (case dget (cc_replies c) request_id of
        None \<Rightarrow> c
      | Some f \<Rightarrow>
          unsubscribe_all request_id
            (if is_done f c then c else set_future f (Done_Error (NoResponders subject)) c))"

section \<open>The reply inbox\<close>

datatype mux_event =
    Status_Handler nat exc
  | Routed pyval
  | Mux_Printed exc

text \<open>
  What the callbacks of an operation of the manager do in the reply inbox: responses are routed;
  an exception of the routing ends up in the manager, which has forgotten the transfer already
  and drops it.
\<close>

fun route_completed :: "rx_event list \<Rightarrow> client_calls \<Rightarrow> client_calls \<times> mux_event list" where
  "route_completed [] c = (c, [])"
| "route_completed (Mux_Response v # out) c =
     (case route_completed out (fst (route_mux_response v c)) of (c', evs) \<Rightarrow> (c', Routed v # evs))"
| "route_completed (Printed e # out) c =
     (case route_completed out c of (c', evs) \<Rightarrow> (c', Mux_Printed e # evs))"
| "route_completed (Invoke _ _ # out) c = route_completed out c"

definition after_manager :: "rx_callback manager \<times> rx_callback chunk_event list \<Rightarrow> client_calls
    \<Rightarrow> client_calls \<times> mux_event list" where
  "after_manager r c =
     (case run_callbacks (snd r) ((cc_rx c)\<lparr>rx_manager := fst r\<rparr>) of
        (rx, out) \<Rightarrow> route_completed out (c\<lparr>cc_rx := rx\<rparr>))"

text \<open>A no-responder status names the call (or the status inbox) by the subject alone.\<close>

definition handle_no_responders :: "string \<Rightarrow> client_calls \<Rightarrow> client_calls \<times> mux_event list" where
  "handle_no_responders token c =
     (case dget (cc_status c) token of
        Some h \<Rightarrow> (c\<lparr>cc_status := dpop token (cc_status c)\<rparr>, [Status_Handler h (NoResponders token)])
      | None \<Rightarrow>
          (case dget (cc_pending c) token of
             None \<Rightarrow> (c, [])
           | Some p \<Rightarrow>
               let c = cancel_timer (pr_timeout p) (pop_pending token c);
                   s = (case pr_subject p of Some s \<Rightarrow> if s \<noteq> [] then s else token | None \<Rightarrow> token)
               in (if is_done (pr_future p) c then c
                   else set_future (pr_future p) (Done_Error (NoResponders s)) c, [])))"

text \<open>
  \<open>_handle_mux_message\<close>; exceptions are printed by its caller \<open>raw_message_handler\<close>.
  \<open>is_503 headers\<close> is \<open>headers.get(Header.STATUS) == NO_RESPONDERS_STATUS\<close>, two constants of nats-py.
\<close>

definition status_503 :: "((string, string) pydict \<Rightarrow> bool) \<Rightarrow> nats_msg \<Rightarrow> bool" where
  "status_503 is_503 msg \<longleftrightarrow> nm_data msg = [] \<and>
     (case nm_headers msg of None \<Rightarrow> False | Some h \<Rightarrow> h \<noteq> [] \<and> is_503 h)"

definition handle_mux_message ::
    "(int \<Rightarrow> bool) \<Rightarrow> (bytes \<Rightarrow> exc + pyval) \<Rightarrow> ((string, string) pydict \<Rightarrow> bool) \<Rightarrow> int \<Rightarrow> nats_msg
      \<Rightarrow> client_calls \<Rightarrow> client_calls \<times> mux_event list" where
  "handle_mux_message can_alloc unpack is_503 now msg c =
     (if status_503 is_503 msg then handle_no_responders (reply_suffix (nm_subject msg)) c
      else
        let chunk_type = header_of msg ''x-chunked-transfer''
        in if chunk_type = Some ''header''
           then
             (case unpack (nm_data msg) of
                Inl e \<Rightarrow> (c, [Mux_Printed e])
              | Inr decoded \<Rightarrow>
                  (case read_header (header_of msg ''x-chunk-id'') decoded of
                     Inl e \<Rightarrow> (c, [Mux_Printed e])
                   | Inr None \<Rightarrow> (c, [])
                   | Inr (Some (tid, count, tsize, csize)) \<Rightarrow>
                       after_manager (start_receiving can_alloc now tid count (Route_Response tid)
                         (Print_Response_Error tid) tsize csize (rx_manager (cc_rx c))) c))
           else if chunk_type = Some ''chunk''
           then
             (case header_of msg ''x-chunk-id'' of
                None \<Rightarrow> (c, [])
              | Some tid \<Rightarrow>
                  if tid = [] then (c, [])
                  else
                    (case parse_int (case header_of msg ''x-chunk-index'' of None \<Rightarrow> ''0'' | Some s \<Rightarrow> s) of
                       None \<Rightarrow> (c, [Mux_Printed (Raised ValueError ''invalid literal for int()'')])
                     | Some i \<Rightarrow>
                         after_manager (process_chunk unpack now (client_chunk tid i (nm_data msg))
                           (rx_manager (cc_rx c))) c))
           else
             (case decode_message unpack (nm_data msg) of
                Inl e \<Rightarrow> (c, [Mux_Printed e])
              | Inr data \<Rightarrow>
                  (case route_mux_response data c of
                     (c', None) \<Rightarrow> (c', [Routed data])
                   | (c', Some e) \<Rightarrow> (c', [Routed data, Mux_Printed e]))))"

section \<open>Disconnect and suspend\<close>

definition connection_closed :: exc where
  "connection_closed = RPC (create_error (Inl CONNECTION_CLOSED) ''Connection closed'' PNone)"

text \<open>The loop of \<open>_cleanup_pending_requests\<close> over a snapshot of the entries.\<close>

fun cleanup_entries :: "(string \<times> pending_request) list \<Rightarrow> client_calls \<Rightarrow> client_calls" where
  "cleanup_entries [] c = c"
| "cleanup_entries ((rid, p) # ps) c =
     (let c1 = cancel_timer (pr_timeout p) c;
          c2 = (if pr_cleanup p then unsubscribe_all rid c1 else c1);
          c3 = (if is_done (pr_future p) c2 then c2
                else set_future (pr_future p) (Done_Error connection_closed) c2)
      in cleanup_entries ps c3)"

definition cleanup_pending_requests :: "client_calls \<Rightarrow> client_calls" where
  "cleanup_pending_requests c = (cleanup_entries (cc_pending c) c)\<lparr>cc_pending := []\<rparr>"

section \<open>Runs\<close>

text \<open>
  What can happen to the calls of a client: calls begin, their publish fails, messages reach the
  inbox or a service reply subscription, timers fire, callers are cancelled, the connection is
  torn down; \<open>Caller_Cleanup\<close> is the except branch of a service call whose future failed.
\<close>

datatype call_op =
    Begin_Call string string
  | Publish_Failed string nat exc
  | Mux_Message int nats_msg
  | Timer_Fires nat
  | Cancel_Caller nat
  | Cleanup_All
  | Begin_Service string string
  | Service_Response string pyval
  | Service_No_Responders string string
  | Caller_Cleanup string
  | Watch_Status string nat

definition cancel_caller :: "nat \<Rightarrow> client_calls \<Rightarrow> client_calls" where
  "cancel_caller f c = (if f < length (cc_futures c) \<and> \<not> is_done f c then set_future f Cancelled c else c)"

fun call_step :: "(int \<Rightarrow> bool) \<Rightarrow> (bytes \<Rightarrow> exc + pyval) \<Rightarrow> ((string, string) pydict \<Rightarrow> bool) \<Rightarrow> int
    \<Rightarrow> call_op \<Rightarrow> client_calls \<Rightarrow> client_calls" where
  "call_step can_alloc unpack is_503 timeout (Begin_Call rid subject) c = begin_call rid subject c"
| "call_step can_alloc unpack is_503 timeout (Publish_Failed rid f e) c = publish_failed rid f e c"
| "call_step can_alloc unpack is_503 timeout (Mux_Message now msg) c =
     fst (handle_mux_message can_alloc unpack is_503 now msg c)"
| "call_step can_alloc unpack is_503 timeout (Timer_Fires f) c = handle_timeout timeout f c"
| "call_step can_alloc unpack is_503 timeout (Cancel_Caller f) c = cancel_caller f c"
| "call_step can_alloc unpack is_503 timeout Cleanup_All c =
     (cleanup_pending_requests c)\<lparr>cc_status := [],
       cc_rx := (cc_rx c)\<lparr>rx_manager := new_manager\<rparr>\<rparr>"
| "call_step can_alloc unpack is_503 timeout (Begin_Service rid subject) c = begin_service_call rid subject c"
| "call_step can_alloc unpack is_503 timeout (Service_Response rid data) c = fst (handle_rpc_response rid data c)"
| "call_step can_alloc unpack is_503 timeout (Service_No_Responders rid subject) c =
     service_no_responders rid subject c"
| "call_step can_alloc unpack is_503 timeout (Caller_Cleanup rid) c = unsubscribe_all rid c"
| "call_step can_alloc unpack is_503 timeout (Watch_Status token h) c = c\<lparr>cc_status := dset token h (cc_status c)\<rparr>"

definition calls_init :: client_calls where
  "calls_init = \<lparr>cc_rx = rx_init, cc_pending = [], cc_futures = [], cc_timers = [], cc_status = [],
     cc_replies = [], cc_raised = []\<rparr>"

end
