(* ===== verification/Messages.thy ===== *)
theory Messages
  imports Calls
begin

text \<open>
  \<open>types.py\<close>: the typed dictionaries that travel between client and server. A \<open>TypedDict\<close> is a
  check on a value; the messages that the program builds are written out as the dictionaries that
  the code writes, and each is shown to be of its declared type.
\<close>

section \<open>Typed dictionaries\<close>

text \<open>
  Required keys have to be there, \<open>NotRequired\<close> ones may be missing, no others are allowed, and
  every value has the declared type.
\<close>

definition typed_dict :: "(string \<times> (pyval \<Rightarrow> bool)) list \<Rightarrow> (string \<times> (pyval \<Rightarrow> bool)) list \<Rightarrow> pyval \<Rightarrow> bool" where
  "typed_dict required optional v =
     (case v of
        PDict d \<Rightarrow>
          list_all (\<lambda>(k, t). case sget d k of None \<Rightarrow> False | Some x \<Rightarrow> t x) required \<and>
          list_all (\<lambda>(k, x). case k of
              PStr s \<Rightarrow> (case map_of (required @ optional) s of None \<Rightarrow> False | Some t \<Rightarrow> t x)
            | _ \<Rightarrow> False) d
      | _ \<Rightarrow> False)"

fun is_str :: "pyval \<Rightarrow> bool" where
  "is_str (PStr _) = True"
| "is_str _ = False"

fun is_bool :: "pyval \<Rightarrow> bool" where
  "is_bool (PBool _) = True"
| "is_bool _ = False"

fun is_int :: "pyval \<Rightarrow> bool" where
  "is_int (PInt _) = True"
| "is_int _ = False"

definition literal :: "string list \<Rightarrow> pyval \<Rightarrow> bool" where
  "literal ss v = (case v of PStr s \<Rightarrow> s \<in> set ss | _ \<Rightarrow> False)"

definition or_none :: "(pyval \<Rightarrow> bool) \<Rightarrow> pyval \<Rightarrow> bool" where
  "or_none t v \<longleftrightarrow> v = PNone \<or> t v"

fun list_of :: "(pyval \<Rightarrow> bool) \<Rightarrow> pyval \<Rightarrow> bool" where
  "list_of t (PList xs) = list_all t xs"
| "list_of t _ = False"

abbreviation anything :: "pyval \<Rightarrow> bool" where
  "anything \<equiv> \<lambda>_. True"

definition RPCError :: "pyval \<Rightarrow> bool" where
  "RPCError = typed_dict [(''code'', is_str), (''message'', is_str)] [(''data'', anything)]"

definition RPCTiming :: "pyval \<Rightarrow> bool" where
  "RPCTiming = typed_dict [(''start'', is_int), (''end'', is_int)] []"

definition RPCResponse :: "pyval \<Rightarrow> bool" where
  "RPCResponse = typed_dict [(''id'', is_str)]
     [(''result'', anything), (''error'', or_none RPCError), (''__methods'', or_none (list_of is_str)),
      (''__timing'', or_none RPCTiming)]"

definition RPCMessage :: "pyval \<Rightarrow> bool" where
  "RPCMessage = typed_dict [(''id'', is_str), (''method'', is_str), (''params'', anything)]
     [(''error'', or_none RPCError), (''__discover'', is_bool), (''__timing'', is_bool)]"

definition StreamMessage :: "pyval \<Rightarrow> bool" where
  "StreamMessage = typed_dict [(''id'', is_str), (''type'', literal [''data'', ''end'', ''error''])]
     [(''data'', anything), (''error'', or_none RPCError)]"

definition PullIteratorRequest :: "pyval \<Rightarrow> bool" where
  "PullIteratorRequest = typed_dict [(''id'', is_str), (''type'', literal [''next'', ''cancel''])] []"

definition PullIteratorResponse :: "pyval \<Rightarrow> bool" where
  "PullIteratorResponse = typed_dict [(''id'', is_str), (''type'', literal [''value'', ''done'', ''error''])]
     [(''value'', anything), (''error'', or_none RPCError)]"

definition CallbackParams :: "pyval \<Rightarrow> bool" where
  "CallbackParams = typed_dict
     [(''__callback'', is_bool), (''__callbackSubject'', is_str), (''args'', list_of anything)] []"

definition CallbackMessage :: "pyval \<Rightarrow> bool" where
  "CallbackMessage = typed_dict [(''id'', is_str), (''type'', literal [''data'', ''error''])]
     [(''data'', anything), (''error'', or_none RPCError)]"

definition PullCallbackParams :: "pyval \<Rightarrow> bool" where
  "PullCallbackParams = typed_dict
     [(''__pullCallback'', is_bool), (''__iteratorId'', is_str), (''__callbackSubject'', is_str),
      (''__callbackMethods'', list_of is_str), (''__onewayMethods'', list_of is_str), (''args'', list_of anything)] []"

definition CallbackInvocation :: "pyval \<Rightarrow> bool" where
  "CallbackInvocation = typed_dict [(''method'', is_str), (''args'', list_of anything)] []"

definition ChunkedTransferHeader :: "pyval \<Rightarrow> bool" where
  "ChunkedTransferHeader = typed_dict
     [(''type'', literal [''chunked'']), (''transferId'', is_str), (''totalChunks'', is_int),
      (''totalSize'', is_int), (''chunkSize'', is_int)] []"

lemmas typed_dicts =
  RPCError_def RPCTiming_def RPCResponse_def RPCMessage_def StreamMessage_def PullIteratorRequest_def
  PullIteratorResponse_def CallbackParams_def CallbackMessage_def PullCallbackParams_def
  CallbackInvocation_def ChunkedTransferHeader_def

section \<open>Messages of the sessions\<close>

datatype stream_message = Stream_Data pyval | Stream_End | Stream_Error "(pyval \<times> pyval) list"

definition stream_msg :: "string \<Rightarrow> stream_message \<Rightarrow> pyval" where
  "stream_msg request_id m = PDict ((PStr ''id'', PStr request_id) #
     (case m of
        Stream_Data v \<Rightarrow> [(PStr ''type'', PStr ''data''), (PStr ''data'', v)]
      | Stream_End \<Rightarrow> [(PStr ''type'', PStr ''end'')]
      | Stream_Error e \<Rightarrow> [(PStr ''type'', PStr ''error''), (PStr ''error'', PDict e)]))"

datatype pull_request = Pull_Next | Pull_Cancel

definition pull_request_msg :: "string \<Rightarrow> pull_request \<Rightarrow> pyval" where
  "pull_request_msg iterator_id r = PDict [(PStr ''id'', PStr iterator_id),
     (PStr ''type'', PStr (case r of Pull_Next \<Rightarrow> ''next'' | Pull_Cancel \<Rightarrow> ''cancel''))]"

text \<open>A pull-callback session answers \<open>next\<close> with a value message that has no value.\<close>

datatype pull_response = Pull_Value pyval | Pull_Boundary | Pull_Done | Pull_Error "(pyval \<times> pyval) list"

definition pull_response_msg :: "string \<Rightarrow> pull_response \<Rightarrow> pyval" where
  "pull_response_msg iterator_id r = PDict ((PStr ''id'', PStr iterator_id) #
     (case r of
        Pull_Value v \<Rightarrow> [(PStr ''type'', PStr ''value''), (PStr ''value'', v)]
      | Pull_Boundary \<Rightarrow> [(PStr ''type'', PStr ''value'')]
      | Pull_Done \<Rightarrow> [(PStr ''type'', PStr ''done'')]
      | Pull_Error e \<Rightarrow> [(PStr ''type'', PStr ''error''), (PStr ''error'', PDict e)]))"

definition callback_data_msg :: "string \<Rightarrow> pyval \<Rightarrow> pyval" where
  "callback_data_msg request_id v = PDict [(PStr ''id'', PStr request_id), (PStr ''type'', PStr ''data''),
     (PStr ''data'', v)]"

definition invocation_msg :: "string \<Rightarrow> pyval list \<Rightarrow> pyval" where
  "invocation_msg method args = PDict [(PStr ''method'', PStr method), (PStr ''args'', PList args)]"

text \<open>\<open>msg.get("type")\<close> of a dictionary.\<close>

definition msg_type :: "(pyval \<times> pyval) list \<Rightarrow> pyval" where
  "msg_type d = sget_or_none d ''type''"

section \<open>Subjects\<close>

definition iterator_request_subject :: "string \<Rightarrow> string" where
  "iterator_request_subject iterator_id = ''_rpc.iterator.'' @ iterator_id @ ''.request''"

definition iterator_response_subject :: "string \<Rightarrow> string" where
  "iterator_response_subject iterator_id = ''_rpc.iterator.'' @ iterator_id @ ''.response''"

lemma iterator_subjects:
  "iterator_request_subject i = iterator_request_subject j \<longleftrightarrow> i = j"
  "iterator_response_subject i = iterator_response_subject j \<longleftrightarrow> i = j"
  "iterator_request_subject i \<noteq> iterator_response_subject j"
proof -
  show "iterator_request_subject i = iterator_request_subject j \<longleftrightarrow> i = j"
    "iterator_response_subject i = iterator_response_subject j \<longleftrightarrow> i = j"
    by (simp_all add: iterator_request_subject_def iterator_response_subject_def)
  show "iterator_request_subject i \<noteq> iterator_response_subject j"
  proof
    assume "iterator_request_subject i = iterator_response_subject j"
    then have "last (iterator_request_subject i) = last (iterator_response_subject j)" by simp
    then show False by (simp add: iterator_request_subject_def iterator_response_subject_def)
  qed
qed

section \<open>Every message is of its type\<close>

text \<open>An exception whose code and message are strings, as the annotations of \<open>RPCException\<close> say.\<close>

definition typed_exc :: "exc \<Rightarrow> bool" where
  "typed_exc e = (case e of RPC r \<Rightarrow> is_str (exc_code r) \<and> is_str (exc_message r) | _ \<Rightarrow> True)"

lemma RPCError_format: "typed_exc e \<Longrightarrow> RPCError (PDict (format_error_dict str e))"
  by (cases e) (auto simp: typed_exc_def format_error_dict_def to_dict_def typed_dicts typed_dict_def)

lemma stream_msg_typed:
  "(\<And>e. m = Stream_Error e \<Longrightarrow> RPCError (PDict e)) \<Longrightarrow> StreamMessage (stream_msg rid m)"
  by (cases m) (auto simp: StreamMessage_def stream_msg_def typed_dict_def literal_def or_none_def)

lemma pull_request_typed: "PullIteratorRequest (pull_request_msg i r)"
  by (cases r) (auto simp: PullIteratorRequest_def pull_request_msg_def typed_dict_def literal_def)

lemma pull_response_typed:
  "(\<And>e. r = Pull_Error e \<Longrightarrow> RPCError (PDict e)) \<Longrightarrow> PullIteratorResponse (pull_response_msg i r)"
  by (cases r) (auto simp: PullIteratorResponse_def pull_response_msg_def typed_dict_def literal_def or_none_def)

lemma callback_data_typed: "CallbackMessage (callback_data_msg rid v)"
  by (auto simp: CallbackMessage_def callback_data_msg_def typed_dict_def literal_def)

lemma invocation_typed: "CallbackInvocation (invocation_msg method args)"
  by (auto simp: CallbackInvocation_def invocation_msg_def typed_dict_def list_all_iff)

lemma chunk_header_typed: "ChunkedTransferHeader (chunk_header tid n tsize csize)"
  by (auto simp: ChunkedTransferHeader_def chunk_header_def typed_dict_def literal_def)

lemmas messages_typed =
  RPCError_format stream_msg_typed pull_request_typed pull_response_typed callback_data_typed
  invocation_typed chunk_header_typed

end
