(* ===== verification/Generators.thy ===== *)
theory Generators
  imports Messages
begin

text \<open>
  Handlers of the application (\<open>utils.py\<close> and \<open>handler.py\<close>): how the program tells what kind of
  function a handler is, how it calls it, and how it gets an asynchronous generator out of it. The
  handler itself is outside: its flags are those that \<open>inspect\<close> reports, and calling it gives a
  value or an exception.
\<close>

section \<open>Kinds of functions\<close>

datatype annotation = No_Annotation | Async_Generator_Annotation | Other_Annotation

record pyfunc =
  pf_callable :: bool
  pf_isgeneratorfunction :: bool
  pf_isgenerator :: bool
  pf_isasyncgenfunction :: bool
  pf_iscoroutinefunction :: bool
  pf_iscoroutine :: bool
  pf_isawaitable :: bool
  pf_return_annotation :: annotation

definition is_sync_generator :: "pyfunc \<Rightarrow> bool" where
  "is_sync_generator func = (if \<not> pf_callable func then False
     else pf_isgeneratorfunction func \<or> pf_isgenerator func)"

definition is_async_generator :: "pyfunc \<Rightarrow> bool" where
  "is_async_generator func = (if \<not> pf_callable func then False
     else if pf_isasyncgenfunction func then True
     else pf_return_annotation func = Async_Generator_Annotation)"

definition is_generator :: "pyfunc \<Rightarrow> bool" where
  "is_generator func = (if \<not> pf_callable func then False else is_sync_generator func \<or> is_async_generator func)"

definition is_async_function :: "pyfunc \<Rightarrow> bool" where
  "is_async_function func = (if \<not> pf_callable func then False
     else pf_iscoroutinefunction func \<or> pf_iscoroutine func \<or> pf_isawaitable func)"

section \<open>Calling a handler\<close>

text \<open>
  What a call returns: an object with \<open>__aiter__\<close>, one with \<open>__iter__\<close> only, a coroutine with what
  awaiting it gives, or any other value. \<open>'g\<close> is the generator object.
\<close>

datatype 'g returned =
    Async_Iter 'g
  | Sync_Iter 'g
  | Coroutine "exc + 'g returned"
  | Plain pyval

definition await_result :: "exc + 'g returned \<Rightarrow> exc + 'g returned" where
  "await_result r = (case r of
      Inl e \<Rightarrow> Inl e
    | Inr (Coroutine c) \<Rightarrow> c
    | Inr _ \<Rightarrow> Inl (Raised TypeError ''object cannot be used in an await expression''))"

definition internal_error :: "string \<Rightarrow> exc" where
  "internal_error message = RPC (create_error (Inl INTERNAL_ERROR) message PNone)"

definition not_async_iterator :: exc where
  "not_async_iterator = internal_error ''Failed to create async generator from handler''"

text \<open>
  The result of a function that has run: an asynchronous iterator is taken as it is, a synchronous
  one is wrapped, anything else is refused with \<open>refusal\<close>.
\<close>

definition iterator_of_result :: "string \<Rightarrow> exc + 'g returned \<Rightarrow> exc + 'g" where
  "iterator_of_result refusal r = (case r of
      Inl e \<Rightarrow> Inl e
    | Inr (Async_Iter g) \<Rightarrow> Inr g
    | Inr (Sync_Iter g) \<Rightarrow> Inr g
    | Inr _ \<Rightarrow> Inl (internal_error refusal))"

text \<open>
  The choice of the generator at the head of the three session handlers: an asynchronous generator
  function is called, a generator function is called and wrapped, a coroutine function is awaited, any
  other function runs in the thread pool. \<open>called\<close> is what \<open>handler(*args)\<close> does; a generator function
  always returns a generator.
\<close>

definition obtain_generator :: "string \<Rightarrow> pyfunc \<Rightarrow> exc + 'g returned \<Rightarrow> exc + 'g" where
  "obtain_generator refusal handler called =
     (if is_async_generator handler
      then (case called of Inl e \<Rightarrow> Inl e | Inr (Async_Iter g) \<Rightarrow> Inr g | Inr _ \<Rightarrow> Inl not_async_iterator)
      else if is_sync_generator handler
      then (case called of
              Inl e \<Rightarrow> Inl e
            | Inr (Sync_Iter g) \<Rightarrow> Inr g
            | Inr _ \<Rightarrow> Inl (Raised TypeError ''object is not iterable''))
      else if is_async_function handler then iterator_of_result refusal (await_result called)
      else iterator_of_result refusal called)"

definition stream_generator :: "pyfunc \<Rightarrow> exc + 'g returned \<Rightarrow> exc + 'g" where
  "stream_generator = obtain_generator ''Handler must return a generator for stream''"

definition pull_generator :: "pyfunc \<Rightarrow> exc + 'g returned \<Rightarrow> exc + 'g" where
  "pull_generator = obtain_generator ''Handler must return a generator for pull iterator''"

definition pull_callback_generator :: "pyfunc \<Rightarrow> exc + 'g returned \<Rightarrow> exc + 'g" where
  "pull_callback_generator = obtain_generator ''Handler must return a generator for pull-callback iterator''"

section \<open>Normal calls\<close>

definition normal_args :: "pyval \<Rightarrow> pyval list" where
  "normal_args params = (case params of PList xs \<Rightarrow> xs | PNone \<Rightarrow> [] | v \<Rightarrow> [v])"

text \<open>
  \<open>handle_normal_rpc\<close>: \<open>call args\<close> is \<open>handler(*args)\<close>; \<open>as_value\<close> gives the value of whatever object the
  handler returned.
\<close>

definition handle_normal_rpc :: "pyfunc \<Rightarrow> bool option \<Rightarrow> (pyval list \<Rightarrow> exc + 'g returned) \<Rightarrow> ('g returned \<Rightarrow> pyval)
    \<Rightarrow> pyval \<Rightarrow> exc + pyval" where
  "handle_normal_rpc handler handler_is_async call as_value params =
     (let a = (case handler_is_async of None \<Rightarrow> is_async_function handler | Some b \<Rightarrow> b);
          r = call (normal_args params)
      in case (if a then await_result r else r) of Inl e \<Rightarrow> Inl e | Inr x \<Rightarrow> Inr (as_value x))"

section \<open>Generators\<close>

text \<open>
  What \<open>__anext__\<close> gives. A generator object is its state and \<open>anext\<close> the function that runs it to
  its next yield, its return or its exception.
\<close>

datatype gen_event = Yields pyval | Stops | Raises exc

text \<open>\<open>g\<close> yields \<open>vs\<close> one after another and then ends with \<open>fin\<close>.\<close>

fun gen_runs :: "('g \<Rightarrow> gen_event \<times> 'g) \<Rightarrow> 'g \<Rightarrow> pyval list \<Rightarrow> gen_event \<Rightarrow> bool" where
  "gen_runs anext g [] fin \<longleftrightarrow> fst (anext g) = fin \<and> (\<forall>v. fin \<noteq> Yields v)"
| "gen_runs anext g (v # vs) fin \<longleftrightarrow> fst (anext g) = Yields v \<and> gen_runs anext (snd (anext g)) vs fin"

text \<open>The values that the first \<open>n\<close> calls of \<open>anext\<close> yield, as far as they yield, and the state after them.\<close>

fun gen_values :: "('g \<Rightarrow> gen_event \<times> 'g) \<Rightarrow> 'g \<Rightarrow> nat \<Rightarrow> pyval list" where
  "gen_values anext g 0 = []"
| "gen_values anext g (Suc n) =
     (case anext g of (Yields v, g') \<Rightarrow> v # gen_values anext g' n | _ \<Rightarrow> [])"

fun gen_after :: "('g \<Rightarrow> gen_event \<times> 'g) \<Rightarrow> 'g \<Rightarrow> nat \<Rightarrow> 'g" where
  "gen_after anext g 0 = g"
| "gen_after anext g (Suc n) = gen_after anext (snd (anext g)) n"

lemma gen_after_Suc: "gen_after anext g (Suc n) = snd (anext (gen_after anext g n))"
  by (induction n arbitrary: g) simp_all

lemma gen_values_Suc:
  "length (gen_values anext g n) = n \<Longrightarrow>
   gen_values anext g (Suc n) = gen_values anext g n @
     (case fst (anext (gen_after anext g n)) of Yields v \<Rightarrow> [v] | _ \<Rightarrow> [])"
proof (induction n arbitrary: g)
  case (Suc n)
  obtain x g' where x: "anext g = (x, g')" by fastforce
  with Suc.prems obtain v where v: "x = Yields v" by (cases x) auto
  have "length (gen_values anext g' n) = n" using Suc.prems x v by simp
  from Suc.IH [OF this] show ?case using x v by (simp del: gen_values.simps add: gen_values.simps [of anext g])
qed (simp split: gen_event.split prod.split)

lemma gen_runs_fun:
  "gen_runs anext g vs fin \<Longrightarrow> gen_runs anext g ws fin' \<Longrightarrow> vs = ws \<and> fin = fin'"
proof (induction vs arbitrary: g ws)
  case Nil
  then show ?case by (cases ws) auto
next
  case (Cons v vs)
  show ?case
  proof (cases ws)
    case Nil
    then show ?thesis using Cons.prems by simp (metis)
  next
    case (Cons w ws')
    then show ?thesis using Cons.prems Cons.IH by auto
  qed
qed

text \<open>
  The same handler gives the same generator whichever way it is called: as an asynchronous generator
  function, as a generator function, as a coroutine function that returns a generator, or as a plain
  function that returns one.
\<close>

lemma obtain_generator_ok:
  "is_async_generator f \<Longrightarrow> obtain_generator refusal f (Inr (Async_Iter g)) = Inr g"
  "\<not> is_async_generator f \<Longrightarrow> is_sync_generator f \<Longrightarrow> obtain_generator refusal f (Inr (Sync_Iter g)) = Inr g"
  "\<not> is_generator f \<Longrightarrow> is_async_function f \<Longrightarrow> pf_callable f \<Longrightarrow> r \<in> {Async_Iter g, Sync_Iter g} \<Longrightarrow>
     obtain_generator refusal f (Inr (Coroutine (Inr r))) = Inr g"
  "\<not> is_generator f \<Longrightarrow> \<not> is_async_function f \<Longrightarrow> pf_callable f \<Longrightarrow> r \<in> {Async_Iter g, Sync_Iter g} \<Longrightarrow>
     obtain_generator refusal f (Inr r) = Inr g"
  by (auto simp: obtain_generator_def iterator_of_result_def await_result_def is_generator_def)

lemma obtain_generator_raises:
  "obtain_generator refusal f (Inl e) = Inl e"
  by (simp add: obtain_generator_def iterator_of_result_def await_result_def)

end
