(* ===== verification/Callbacks.thy ===== *)
theory Callbacks
  imports Once Generators
begin

text \<open>
  Callback subscriptions: \<open>handle_callback_request\<close> of \<open>handler.py\<close>, which hands a publishing callback
  to a handler and keeps the cleanup that the handler returns, and \<open>call_with_callback\<close> of
  \<open>client.py\<close>, which subscribes to what it publishes.
\<close>

section \<open>The server\<close>

text \<open>
  \<open>hc_result\<close> is what the handler returned: a cleanup that can be called (with what it raises) or
  nothing of use. \<open>hc_runs\<close> counts the calls of that cleanup, \<open>hc_released\<close> those of \<open>on_finished\<close>.
\<close>

datatype handler_cleanup = No_Handler_Cleanup | Handler_Cleanup "exc option"

record callback_subscription =
  hc_result :: handler_cleanup
  hc_cleaned_up :: bool
  hc_subscribed :: bool
  hc_unsub_due :: bool
  hc_runs :: nat
  hc_released :: nat
  hc_sent :: "pyval list"

text \<open>The handler has been called with the wrapper; a handler that raises opens no subscription.\<close>

definition handle_callback_request :: "exc + handler_cleanup \<Rightarrow> exc + callback_subscription" where
  "handle_callback_request called = (case called of
      Inl e \<Rightarrow> Inl e
    | Inr r \<Rightarrow> Inr \<lparr>hc_result = r, hc_cleaned_up = False, hc_subscribed = True, hc_unsub_due = False, hc_runs = 0,
        hc_released = 0, hc_sent = []\<rparr>)"

definition wrapper_callback :: "bool \<Rightarrow> string \<Rightarrow> pyval \<Rightarrow> callback_subscription \<Rightarrow> callback_subscription" where
  "wrapper_callback connected request_id v s =
     (if \<not> connected then s else s\<lparr>hc_sent := hc_sent s @ [callback_data_msg request_id v]\<rparr>)"

text \<open>
  The wrapper for synchronous handlers. Where no event loop is set, as in the threads of the pool,
  \<open>get_event_loop\<close> raises \<open>RuntimeError\<close>, which is swallowed.
\<close>

datatype calling_thread = Loop_Running | Loop_Idle | No_Loop

definition sync_wrapper_callback :: "calling_thread \<Rightarrow> bool \<Rightarrow> string \<Rightarrow> pyval \<Rightarrow> callback_subscription
    \<Rightarrow> callback_subscription" where
  "sync_wrapper_callback t connected request_id v s = (case t of
      Loop_Running \<Rightarrow> wrapper_callback connected request_id v s
    | Loop_Idle \<Rightarrow> wrapper_callback connected request_id v s
    | No_Loop \<Rightarrow> s)"

definition run_handler_cleanup :: "callback_subscription \<Rightarrow> callback_subscription \<times> exc option" where
  "run_handler_cleanup s =
     (if hc_cleaned_up s then (s, None)
      else
        (case hc_result s of
           No_Handler_Cleanup \<Rightarrow> (s\<lparr>hc_cleaned_up := True\<rparr>, None)
         | Handler_Cleanup r \<Rightarrow> (s\<lparr>hc_cleaned_up := True, hc_runs := Suc (hc_runs s)\<rparr>, r)))"

text \<open>
  A cancel message: \<open>on_finished\<close>, the handler's cleanup, then the unsubscribe as a task, which an
  exception of the cleanup prevents.
\<close>

definition on_cancel :: "callback_subscription \<Rightarrow> callback_subscription" where
  "on_cancel s =
     (case run_handler_cleanup (s\<lparr>hc_released := Suc (hc_released s)\<rparr>) of
        (s, None) \<Rightarrow> s\<lparr>hc_unsub_due := True\<rparr>
      | (s, Some e) \<Rightarrow> s)"

text \<open>The cleanup function for the owner.\<close>

definition callback_cleanup :: "callback_subscription \<Rightarrow> callback_subscription" where
  "callback_cleanup s = fst (run_handler_cleanup (s\<lparr>hc_subscribed := False\<rparr>))"

datatype callback_sub_event =
    Emit bool pyval
  | Emit_Sync calling_thread bool pyval
  | Cancel_Message
  | Unsub_Scheduled
  | Owner_Cleanup

fun callback_step :: "string \<Rightarrow> callback_sub_event \<Rightarrow> callback_subscription \<Rightarrow> callback_subscription" where
  "callback_step rid (Emit connected v) s = wrapper_callback connected rid v s"
| "callback_step rid (Emit_Sync t connected v) s = sync_wrapper_callback t connected rid v s"
| "callback_step rid Cancel_Message s = (if hc_subscribed s then on_cancel s else s)"
| "callback_step rid Unsub_Scheduled s =
     (if hc_unsub_due s then s\<lparr>hc_unsub_due := False, hc_subscribed := False\<rparr> else s)"
| "callback_step rid Owner_Cleanup s = callback_cleanup s"

lemmas callback_defs =
  wrapper_callback_def sync_wrapper_callback_def run_handler_cleanup_def on_cancel_def callback_cleanup_def

interpretation cleanup_once: once "callback_step rid" hc_cleaned_up hc_runs
proof unfold_locales
  fix s e
  show "hc_cleaned_up s \<Longrightarrow> hc_cleaned_up (callback_step rid e s) \<and> hc_runs (callback_step rid e s) = hc_runs s"
    by (cases e) (auto simp: callback_defs split: calling_thread.split)
  show "\<not> hc_cleaned_up s \<Longrightarrow> hc_runs (callback_step rid e s) = hc_runs s \<or>
      hc_cleaned_up (callback_step rid e s) \<and> hc_runs (callback_step rid e s) = Suc (hc_runs s)"
    by (cases e; cases "hc_result s") (auto simp: callback_defs split: calling_thread.split option.split)
qed

lemma cleaned_up_cases:
  "hc_cleaned_up (callback_step rid e s) \<Longrightarrow> \<not> hc_cleaned_up s \<Longrightarrow>
   hc_runs (callback_step rid e s) = (if hc_result s = No_Handler_Cleanup then hc_runs s else Suc (hc_runs s))"
  by (cases e; cases "hc_result s") (auto simp: callback_defs split: calling_thread.splits option.split if_splits)

lemma callback_keeps_result [simp]: "hc_result (callback_step rid e s) = hc_result s"
  by (cases e; cases "hc_result s") (auto simp: callback_defs split: calling_thread.split option.split)

lemma runs_when_cleaned:
  "hc_runs s = (if hc_cleaned_up s \<and> hc_result s \<noteq> No_Handler_Cleanup then 1 else 0) \<Longrightarrow>
   hc_runs (fold (callback_step rid) es s) =
     (if hc_cleaned_up (fold (callback_step rid) es s) \<and> hc_result s \<noteq> No_Handler_Cleanup then 1 else 0)"
proof (induction es arbitrary: s)
  case (Cons e es)
  have "hc_runs (callback_step rid e s) =
      (if hc_cleaned_up (callback_step rid e s) \<and> hc_result (callback_step rid e s) \<noteq> No_Handler_Cleanup then 1 else 0)"
    using Cons.prems cleanup_once.marked_stays [of s rid e] cleanup_once.counts_once [of s rid e] cleaned_up_cases [of rid e s]
    by (cases "hc_cleaned_up s"; cases "hc_cleaned_up (callback_step rid e s)") auto
  from Cons.IH [OF this] show ?case by simp
qed simp

text \<open>
  The cleanup that a callback handler returned runs exactly once: not before a cancel message or
  the owner's cleanup, and never again, however many cancels and cleanups come and in whatever order.
\<close>

theorem callback_cleanup_once:
  assumes "handle_callback_request (Inr (Handler_Cleanup r)) = Inr s"
  shows "hc_runs (fold (callback_step rid) es s) = (if hc_cleaned_up (fold (callback_step rid) es s) then 1 else 0) \<and>
    hc_cleaned_up (fold (callback_step rid) (es @ [Owner_Cleanup]) s) \<and>
    hc_cleaned_up (fold (callback_step rid) (Cancel_Message # es) s)"
proof -
  have s: "hc_result s = Handler_Cleanup r" "hc_runs s = 0" "\<not> hc_cleaned_up s" "hc_subscribed s"
    using assms by (auto simp: handle_callback_request_def)
  have "hc_cleaned_up (callback_step rid Cancel_Message s)" using s by (simp add: callback_defs split: option.split)
  then show ?thesis
    using runs_when_cleaned [of s rid es] s cleanup_once.marked_run [of "callback_step rid Cancel_Message s" rid es]
    by (auto simp: callback_cleanup_def run_handler_cleanup_def split: handler_cleanup.split)
qed

theorem callback_cleanup_once_witness:
  "\<exists>s. hc_cleaned_up (fold (callback_step ''r'') ([Cancel_Message, Cancel_Message] @ [Owner_Cleanup]) s) \<and>
     handle_callback_request (Inr (Handler_Cleanup None)) = Inr s"
proof -
  obtain s where s: "handle_callback_request (Inr (Handler_Cleanup None)) = Inr s" by (simp add: handle_callback_request_def)
  show ?thesis using callback_cleanup_once [OF s, of "''r''" "[Cancel_Message, Cancel_Message]"] s by blast
qed

section \<open>The client\<close>

definition callback_subject :: "string \<Rightarrow> string" where
  "callback_subject request_id = ''rpc.cb.'' @ request_id"

definition callback_params :: "string \<Rightarrow> pyval list \<Rightarrow> pyval" where
  "callback_params request_id args = PDict [(PStr ''__callback'', PBool True),
     (PStr ''__callbackSubject'', PStr (callback_subject request_id)), (PStr ''args'', PList args)]"

text \<open>
  The subscription of one \<open>call_with_callback\<close>: the values given to the callback, the cancel messages
  published. What the callback raises is printed.
\<close>

record callback_call =
  cw_subscribed :: bool
  cw_values :: "pyval list"
  cw_cancels :: nat

definition handle_callback_msg :: "pyval \<Rightarrow> callback_call \<Rightarrow> callback_call" where
  "handle_callback_msg msg c =
     (case msg of
        PDict d \<Rightarrow>
          if msg_type d = PStr ''data'' then c\<lparr>cw_values := cw_values c @ [sget_or_none d ''data'']\<rparr> else c
      | _ \<Rightarrow> c)"

text \<open>
  \<open>call_with_callback\<close>: subscribe, call, and unsubscribe again when the call raises; the result is the
  unsubscribe function.
\<close>

definition call_with_callback :: "exc + pyval \<Rightarrow> exc + callback_call" where
  "call_with_callback call_result = (case call_result of
      Inl e \<Rightarrow> Inl e
    | Inr _ \<Rightarrow> Inr \<lparr>cw_subscribed = True, cw_values = [], cw_cancels = 0\<rparr>)"

definition callback_unsubscribe :: "callback_call \<Rightarrow> callback_call" where
  "callback_unsubscribe c = c\<lparr>cw_cancels := Suc (cw_cancels c), cw_subscribed := False\<rparr>"

lemma handle_callback_data:
  "handle_callback_msg (callback_data_msg rid v) c = c\<lparr>cw_values := cw_values c @ [v]\<rparr>"
  by (simp add: handle_callback_msg_def callback_data_msg_def msg_type_def)

text \<open>
  A subscriber is called with every value that the handler emitted while the connection was up,
  once each and in the order of emission.
\<close>

theorem callback_values_arrive:
  "cw_values (fold handle_callback_msg (hc_sent (fold (callback_step rid) (map (Emit True) vs) s)) c)
     = cw_values (fold handle_callback_msg (hc_sent s) c) @ vs"
proof (induction vs rule: rev_induct)
  case (snoc v vs)
  then show ?case by (simp add: wrapper_callback_def handle_callback_data)
qed simp

end
