(* ===== verification/Pull_Server.thy ===== *)
theory Pull_Server
  imports Generators Once
begin

text \<open>
  The server side of pull iterators (\<open>handler.py\<close>): \<open>handle_pull_iterator_request\<close> and
  \<open>handle_pull_callback_request\<close> with its \<open>CallbackInvoker\<close>. A session is a state machine: the
  handler of request messages runs up to its next \<open>await\<close>, and what it waits for, the scheduled
  unsubscribe and the cleanup function of the owner are events of their own, so that they can come
  in between. Messages of one subscription are handled one after another.
\<close>

section \<open>The session of a pull iterator\<close>

text \<open>Where the request handler is: waiting for the generator or for a publish.\<close>

datatype pull_phase =
    Idle
  | In_Next
  | In_Close
  | Sending_Value pyval
  | Sending_Done
  | Sending_Error exc

datatype cleanup_phase = No_Cleanup | Unsubscribing | Closing | Cleaned

text \<open>
  The variables that the closures of a session share. \<open>ps_released\<close> counts the calls of
  \<open>on_finished\<close>, \<open>ps_unsub_due\<close> is the task that \<open>finish\<close> schedules, \<open>ps_sent\<close> are the responses
  that have been published. The session starts when its subscription is there and the cleanup
  function has been handed to its owner.
\<close>

record 'g pull_session =
  ps_active :: bool
  ps_finished :: bool
  ps_subscribed :: bool
  ps_unsub_due :: bool
  ps_gen :: 'g
  ps_phase :: pull_phase
  ps_cleanup :: cleanup_phase
  ps_released :: nat
  ps_sent :: "pull_response list"

definition open_pull :: "'g \<Rightarrow> 'g pull_session" where
  "open_pull g = \<lparr>ps_active = True, ps_finished = False, ps_subscribed = True, ps_unsub_due = False, ps_gen = g,
     ps_phase = Idle, ps_cleanup = No_Cleanup, ps_released = 0, ps_sent = []\<rparr>"

text \<open>
  \<open>handle_pull_iterator_request\<close>: the generator, then the session on it; its cleanup function goes to
  the caller.
\<close>

definition handle_pull_iterator_request :: "pyfunc \<Rightarrow> exc + 'g returned \<Rightarrow> exc + 'g pull_session" where
  "handle_pull_iterator_request handler called =
     (case pull_generator handler called of Inl e \<Rightarrow> Inl e | Inr g \<Rightarrow> Inr (open_pull g))"

definition finish :: "'g pull_session \<Rightarrow> 'g pull_session" where
  "finish s = (if ps_finished s then s
     else s\<lparr>ps_finished := True, ps_active := False, ps_released := Suc (ps_released s), ps_unsub_due := True\<rparr>)"

text \<open>The \<open>except Exception\<close> branch, up to the publish of the error response.\<close>

definition fail :: "exc \<Rightarrow> 'g pull_session \<Rightarrow> 'g pull_session" where
  "fail e s = s\<lparr>ps_active := False, ps_phase := Sending_Error e\<rparr>"

definition handle_pull_request :: "pyval \<Rightarrow> 'g pull_session \<Rightarrow> 'g pull_session" where
  "handle_pull_request msg s =
     (if \<not> ps_active s then s
      else
        (case msg of
           PDict d \<Rightarrow>
             if msg_type d = PStr ''cancel'' then s\<lparr>ps_active := False, ps_phase := In_Close\<rparr>
             else if msg_type d = PStr ''next'' then s\<lparr>ps_phase := In_Next\<rparr>
             else s
         | _ \<Rightarrow> fail (Raised AttributeError ''get'') s))"

text \<open>What the handler does when \<open>__anext__\<close> or \<open>aclose\<close> returns or raises.\<close>

definition pull_resumes :: "('g \<Rightarrow> gen_event \<times> 'g) \<Rightarrow> ('g \<Rightarrow> exc option \<times> 'g) \<Rightarrow> 'g pull_session \<Rightarrow> 'g pull_session" where
  "pull_resumes anext aclose s =
     (case ps_phase s of
        In_Next \<Rightarrow>
          (case anext (ps_gen s) of
             (Yields v, g) \<Rightarrow> s\<lparr>ps_gen := g, ps_phase := Sending_Value v\<rparr>
           | (Stops, g) \<Rightarrow> s\<lparr>ps_gen := g, ps_active := False, ps_phase := Sending_Done\<rparr>
           | (Raises e, g) \<Rightarrow> fail e (s\<lparr>ps_gen := g\<rparr>))
      | In_Close \<Rightarrow>
          (case aclose (ps_gen s) of
             (None, g) \<Rightarrow> s\<lparr>ps_gen := g, ps_phase := Sending_Done\<rparr>
           | (Some e, g) \<Rightarrow> fail e (s\<lparr>ps_gen := g\<rparr>))
      | _ \<Rightarrow> s)"

text \<open>
  What it does when the publish returns (\<open>None\<close>) or raises. The publish of \<open>done\<close> and of an error has
  \<open>finish()\<close> in a \<open>finally\<close>; an exception while sending \<open>done\<close> still reaches the \<open>except\<close> branch.
\<close>

definition pull_published :: "(exc \<Rightarrow> string) \<Rightarrow> exc option \<Rightarrow> 'g pull_session \<Rightarrow> 'g pull_session" where
  "pull_published str r s =
     (case ps_phase s of
        Sending_Value v \<Rightarrow>
          (case r of
             None \<Rightarrow> s\<lparr>ps_sent := ps_sent s @ [Pull_Value v], ps_phase := Idle\<rparr>
           | Some e \<Rightarrow> fail e s)
      | Sending_Done \<Rightarrow>
          (case r of
             None \<Rightarrow> finish (s\<lparr>ps_sent := ps_sent s @ [Pull_Done], ps_phase := Idle\<rparr>)
           | Some e \<Rightarrow> fail e (finish s))
      | Sending_Error x \<Rightarrow>
          (case r of
             None \<Rightarrow> finish (s\<lparr>ps_sent := ps_sent s @ [Pull_Error (format_error_dict str x)], ps_phase := Idle\<rparr>)
           | Some e \<Rightarrow> finish (s\<lparr>ps_phase := Idle\<rparr>))
      | _ \<Rightarrow> s)"

text \<open>
  Unsubscribing cancels the message task. The cancellation is no \<open>Exception\<close>: only the \<open>finally\<close>
  clauses run.
\<close>

definition pull_abort :: "'g pull_session \<Rightarrow> 'g pull_session" where
  "pull_abort s =
     (case ps_phase s of
        Sending_Done \<Rightarrow> finish (s\<lparr>ps_phase := Idle\<rparr>)
      | Sending_Error _ \<Rightarrow> finish (s\<lparr>ps_phase := Idle\<rparr>)
      | _ \<Rightarrow> s\<lparr>ps_phase := Idle\<rparr>)"

definition pull_unsub :: "'g pull_session \<Rightarrow> 'g pull_session" where
  "pull_unsub s = pull_abort (s\<lparr>ps_subscribed := False, ps_unsub_due := False\<rparr>)"

text \<open>The cleanup function, with its two awaits.\<close>

definition pull_cleanup :: "('g \<Rightarrow> exc option \<times> 'g) \<Rightarrow> 'g pull_session \<Rightarrow> 'g pull_session" where
  "pull_cleanup aclose s =
     (case ps_cleanup s of
        No_Cleanup \<Rightarrow> s\<lparr>ps_active := False, ps_finished := True, ps_cleanup := Unsubscribing\<rparr>
      | Unsubscribing \<Rightarrow> (pull_unsub s)\<lparr>ps_cleanup := Closing\<rparr>
      | Closing \<Rightarrow> s\<lparr>ps_gen := snd (aclose (ps_gen s)), ps_cleanup := Cleaned\<rparr>
      | Cleaned \<Rightarrow> s)"

datatype pull_event =
    Request pyval
  | Gen_Resumes
  | Published "exc option"
  | Unsub_Task
  | Cleanup

fun pull_step :: "(exc \<Rightarrow> string) \<Rightarrow> ('g \<Rightarrow> gen_event \<times> 'g) \<Rightarrow> ('g \<Rightarrow> exc option \<times> 'g) \<Rightarrow> pull_event
    \<Rightarrow> 'g pull_session \<Rightarrow> 'g pull_session" where
  "pull_step str anext aclose (Request msg) s =
     (if ps_subscribed s \<and> ps_phase s = Idle then handle_pull_request msg s else s)"
| "pull_step str anext aclose Gen_Resumes s = pull_resumes anext aclose s"
| "pull_step str anext aclose (Published r) s = pull_published str r s"
| "pull_step str anext aclose Unsub_Task s = (if ps_unsub_due s then pull_unsub s else s)"
| "pull_step str anext aclose Cleanup s = pull_cleanup aclose s"

definition pull_run :: "(exc \<Rightarrow> string) \<Rightarrow> ('g \<Rightarrow> gen_event \<times> 'g) \<Rightarrow> ('g \<Rightarrow> exc option \<times> 'g) \<Rightarrow> pull_event list
    \<Rightarrow> 'g pull_session \<Rightarrow> 'g pull_session" where
  "pull_run str anext aclose evs s = fold (pull_step str anext aclose) evs s"

lemmas pull_defs =
  handle_pull_request_def pull_resumes_def pull_published_def pull_abort_def pull_unsub_def pull_cleanup_def
  finish_def fail_def

section \<open>The session with callbacks\<close>

text \<open>
  \<open>CallbackInvoker\<close> belongs to the session: its flag is lowered wherever the session ends. The
  calls that it publishes are collected in \<open>cs_fired\<close>.
\<close>

record 'g callback_session = "'g pull_session" +
  cs_invoker :: bool
  cs_oneway :: "string list"
  cs_fired :: "(string \<times> pyval list) list"

definition new_invoker :: "string list \<Rightarrow> 'g pull_session \<Rightarrow> 'g callback_session" where
  "new_invoker oneway s = pull_session.extend s \<lparr>cs_invoker = True, cs_oneway = oneway, cs_fired = []\<rparr>"

definition open_pull_callback :: "string list \<Rightarrow> 'g \<Rightarrow> 'g callback_session" where
  "open_pull_callback oneway g = new_invoker oneway \<lparr>ps_active = True, ps_finished = False, ps_subscribed = True,
     ps_unsub_due = False, ps_gen = g, ps_phase = Idle, ps_cleanup = No_Cleanup, ps_released = 0, ps_sent = []\<rparr>"

text \<open>The handler gets the invoker as its last argument.\<close>

definition handle_pull_callback_request :: "pyfunc \<Rightarrow> exc + 'g returned \<Rightarrow> string list \<Rightarrow> exc + 'g callback_session" where
  "handle_pull_callback_request handler called oneway_methods =
     (case pull_callback_generator handler called of
        Inl e \<Rightarrow> Inl e
      | Inr g \<Rightarrow> Inr (open_pull_callback oneway_methods g))"

text \<open>\<open>invoke\<close>: published when the session is live, the method one-way and the client connected.\<close>

definition invoke :: "bool \<Rightarrow> string \<Rightarrow> pyval list \<Rightarrow> 'g callback_session \<Rightarrow> 'g callback_session" where
  "invoke connected method args s =
     (if \<not> cs_invoker s then s
      else if method \<notin> set (cs_oneway s) then s
      else if \<not> connected then s
      else s\<lparr>cs_fired := cs_fired s @ [(method, args)]\<rparr>)"

definition pc_finish :: "'g callback_session \<Rightarrow> 'g callback_session" where
  "pc_finish s = (if ps_finished s then s
     else s\<lparr>ps_finished := True, ps_active := False, cs_invoker := False, ps_released := Suc (ps_released s),
            ps_unsub_due := True\<rparr>)"

definition pc_fail :: "exc \<Rightarrow> 'g callback_session \<Rightarrow> 'g callback_session" where
  "pc_fail e s = s\<lparr>ps_active := False, cs_invoker := False, ps_phase := Sending_Error e\<rparr>"

definition pc_request :: "pyval \<Rightarrow> 'g callback_session \<Rightarrow> 'g callback_session" where
  "pc_request msg s =
     (if \<not> ps_active s then s
      else
        (case msg of
           PDict d \<Rightarrow>
             if msg_type d = PStr ''cancel'' then s\<lparr>ps_active := False, cs_invoker := False, ps_phase := In_Close\<rparr>
             else if msg_type d = PStr ''next'' then s\<lparr>ps_phase := In_Next\<rparr>
             else s
         | _ \<Rightarrow> pc_fail (Raised AttributeError ''get'') s))"

definition pc_resumes :: "('g \<Rightarrow> gen_event \<times> 'g) \<Rightarrow> ('g \<Rightarrow> exc option \<times> 'g) \<Rightarrow> 'g callback_session
    \<Rightarrow> 'g callback_session" where
  "pc_resumes anext aclose s =
     (case ps_phase s of
        In_Next \<Rightarrow>
          (case anext (ps_gen s) of
             (Yields v, g) \<Rightarrow> s\<lparr>ps_gen := g, ps_phase := Sending_Value v\<rparr>
           | (Stops, g) \<Rightarrow> s\<lparr>ps_gen := g, ps_active := False, cs_invoker := False, ps_phase := Sending_Done\<rparr>
           | (Raises e, g) \<Rightarrow> pc_fail e (s\<lparr>ps_gen := g\<rparr>))
      | In_Close \<Rightarrow>
          (case aclose (ps_gen s) of
             (None, g) \<Rightarrow> s\<lparr>ps_gen := g, ps_phase := Sending_Done\<rparr>
           | (Some e, g) \<Rightarrow> pc_fail e (s\<lparr>ps_gen := g\<rparr>))
      | _ \<Rightarrow> s)"

text \<open>The value that was yielded is not sent.\<close>

definition pc_published :: "(exc \<Rightarrow> string) \<Rightarrow> exc option \<Rightarrow> 'g callback_session \<Rightarrow> 'g callback_session" where
  "pc_published str r s =
     (case ps_phase s of
        Sending_Value v \<Rightarrow>
          (case r of
             None \<Rightarrow> s\<lparr>ps_sent := ps_sent s @ [Pull_Boundary], ps_phase := Idle\<rparr>
           | Some e \<Rightarrow> pc_fail e s)
      | Sending_Done \<Rightarrow>
          (case r of
             None \<Rightarrow> pc_finish (s\<lparr>ps_sent := ps_sent s @ [Pull_Done], ps_phase := Idle\<rparr>)
           | Some e \<Rightarrow> pc_fail e (pc_finish s))
      | Sending_Error x \<Rightarrow>
          (case r of
             None \<Rightarrow> pc_finish (s\<lparr>ps_sent := ps_sent s @ [Pull_Error (format_error_dict str x)], ps_phase := Idle\<rparr>)
           | Some e \<Rightarrow> pc_finish (s\<lparr>ps_phase := Idle\<rparr>))
      | _ \<Rightarrow> s)"

definition pc_abort :: "'g callback_session \<Rightarrow> 'g callback_session" where
  "pc_abort s =
     (case ps_phase s of
        Sending_Done \<Rightarrow> pc_finish (s\<lparr>ps_phase := Idle\<rparr>)
      | Sending_Error _ \<Rightarrow> pc_finish (s\<lparr>ps_phase := Idle\<rparr>)
      | _ \<Rightarrow> s\<lparr>ps_phase := Idle\<rparr>)"

definition pc_unsub :: "'g callback_session \<Rightarrow> 'g callback_session" where
  "pc_unsub s = pc_abort (s\<lparr>ps_subscribed := False, ps_unsub_due := False\<rparr>)"

definition pc_cleanup :: "('g \<Rightarrow> exc option \<times> 'g) \<Rightarrow> 'g callback_session \<Rightarrow> 'g callback_session" where
  "pc_cleanup aclose s =
     (case ps_cleanup s of
        No_Cleanup \<Rightarrow>
          s\<lparr>ps_active := False, ps_finished := True, cs_invoker := False, ps_cleanup := Unsubscribing\<rparr>
      | Unsubscribing \<Rightarrow> (pc_unsub s)\<lparr>ps_cleanup := Closing\<rparr>
      | Closing \<Rightarrow> s\<lparr>ps_gen := snd (aclose (ps_gen s)), ps_cleanup := Cleaned\<rparr>
      | Cleaned \<Rightarrow> s)"

datatype callback_event = Session pull_event | Invoke_Callback bool string "pyval list"

fun pc_step :: "(exc \<Rightarrow> string) \<Rightarrow> ('g \<Rightarrow> gen_event \<times> 'g) \<Rightarrow> ('g \<Rightarrow> exc option \<times> 'g) \<Rightarrow> callback_event
    \<Rightarrow> 'g callback_session \<Rightarrow> 'g callback_session" where
  "pc_step str anext aclose (Session (Request msg)) s =
     (if ps_subscribed s \<and> ps_phase s = Idle then pc_request msg s else s)"
| "pc_step str anext aclose (Session Gen_Resumes) s = pc_resumes anext aclose s"
| "pc_step str anext aclose (Session (Published r)) s = pc_published str r s"
| "pc_step str anext aclose (Session Unsub_Task) s = (if ps_unsub_due s then pc_unsub s else s)"
| "pc_step str anext aclose (Session Cleanup) s = pc_cleanup aclose s"
| "pc_step str anext aclose (Invoke_Callback connected method args) s = invoke connected method args s"

definition pc_run :: "(exc \<Rightarrow> string) \<Rightarrow> ('g \<Rightarrow> gen_event \<times> 'g) \<Rightarrow> ('g \<Rightarrow> exc option \<times> 'g) \<Rightarrow> callback_event list
    \<Rightarrow> 'g callback_session \<Rightarrow> 'g callback_session" where
  "pc_run str anext aclose evs s = fold (pc_step str anext aclose) evs s"

lemmas pc_defs =
  pc_request_def pc_resumes_def pc_published_def pc_abort_def pc_unsub_def pc_cleanup_def pc_finish_def
  pc_fail_def invoke_def

section \<open>Sessions tell their owner once\<close>

text \<open>
  \<open>finish()\<close> is guarded by \<open>finished\<close>, which the cleanup function raises as well: both kinds of session
  call \<open>on_finished\<close> at most once, however requests, publishes and cleanups come together.
\<close>

interpretation session_once: once "pull_step str anext aclose" ps_finished ps_released
  for str anext aclose
proof unfold_locales
  fix s :: "'a pull_session" and e
  show "ps_finished s \<Longrightarrow> ps_finished (pull_step str anext aclose e s) \<and> ps_released (pull_step str anext aclose e s) = ps_released s"
    by (cases e) (simp_all add: pull_defs split: pull_phase.split cleanup_phase.split option.split prod.split gen_event.split pyval.split)
  show "\<not> ps_finished s \<Longrightarrow> ps_released (pull_step str anext aclose e s) = ps_released s \<or>
      ps_finished (pull_step str anext aclose e s) \<and> ps_released (pull_step str anext aclose e s) = Suc (ps_released s)"
    by (cases e) (simp_all add: pull_defs split: pull_phase.split cleanup_phase.split option.split prod.split gen_event.split pyval.split)
qed

interpretation callback_session_once: once "pc_step str anext aclose" ps_finished ps_released
  for str anext aclose
proof unfold_locales
  fix s :: "'a callback_session" and e
  show "ps_finished s \<Longrightarrow> ps_finished (pc_step str anext aclose e s) \<and> ps_released (pc_step str anext aclose e s) = ps_released s"
    by (cases "(str, anext, aclose, e, s)" rule: pc_step.cases)
      (simp_all add: pc_defs split: pull_phase.split cleanup_phase.split option.split prod.split gen_event.split pyval.split)
  show "\<not> ps_finished s \<Longrightarrow> ps_released (pc_step str anext aclose e s) = ps_released s \<or>
      ps_finished (pc_step str anext aclose e s) \<and> ps_released (pc_step str anext aclose e s) = Suc (ps_released s)"
    by (cases "(str, anext, aclose, e, s)" rule: pc_step.cases)
      (simp_all add: pc_defs split: pull_phase.split cleanup_phase.split option.split prod.split gen_event.split pyval.split)
qed

lemma session_tells_once: "ps_released (pull_run str anext aclose evs (open_pull g)) \<le> 1"
  unfolding pull_run_def by (rule session_once.at_most_once) (simp add: open_pull_def)

lemma callback_session_tells_once: "ps_released (pc_run str anext aclose evs (open_pull_callback oneway g)) \<le> 1"
  unfolding pc_run_def
  by (rule callback_session_once.at_most_once) (simp add: open_pull_callback_def new_invoker_def pull_session.defs)

section \<open>Responses of a session\<close>

fun terminal :: "pull_response \<Rightarrow> bool" where
  "terminal Pull_Done = True"
| "terminal (Pull_Error _) = True"
| "terminal _ = False"

text \<open>What holds between the awaits: the responses so far, and where the generator stands.\<close>

definition responses_ok :: "('g \<Rightarrow> gen_event \<times> 'g) \<Rightarrow> 'g \<Rightarrow> 'g pull_session \<Rightarrow> pyval list \<Rightarrow> pull_response list \<Rightarrow> bool" where
  "responses_ok anext g0 s vs ts \<longleftrightarrow>
     ps_sent s = map Pull_Value vs @ ts \<and> length ts \<le> 1 \<and> list_all terminal ts \<and>
     vs = gen_values anext g0 (length vs) \<and>
     (ps_active s \<or> ps_phase s \<noteq> Idle \<longrightarrow> ts = []) \<and>
     (case ps_phase s of
        Idle \<Rightarrow> ps_active s \<longrightarrow> ps_gen s = gen_after anext g0 (length vs)
      | In_Next \<Rightarrow> ps_gen s = gen_after anext g0 (length vs)
      | Sending_Value v \<Rightarrow> anext (gen_after anext g0 (length vs)) = (Yields v, ps_gen s)
      | _ \<Rightarrow> \<not> ps_active s)"

text \<open>The bookkeeping of the ending.\<close>

definition ending_ok :: "'g pull_session \<Rightarrow> bool" where
  "ending_ok s \<longleftrightarrow>
     (ps_finished s \<longrightarrow> \<not> ps_active s) \<and>
     (\<not> ps_active s \<and> (case ps_phase s of Idle \<Rightarrow> True | In_Next \<Rightarrow> True | Sending_Value _ \<Rightarrow> True | _ \<Rightarrow> False)
        \<longrightarrow> ps_finished s) \<and>
     (ps_cleanup s \<noteq> No_Cleanup \<longrightarrow> ps_finished s) \<and>
     (ps_cleanup s = Closing \<or> ps_cleanup s = Cleaned \<longrightarrow> ps_phase s = Idle \<and> \<not> ps_subscribed s) \<and>
     ps_released s \<le> 1 \<and> (\<not> ps_finished s \<longrightarrow> ps_released s = 0) \<and>
     (ps_finished s \<and> ps_cleanup s = No_Cleanup \<longrightarrow> ps_released s = 1) \<and>
     (ps_unsub_due s \<longrightarrow> ps_finished s) \<and>
     (ps_finished s \<and> ps_cleanup s = No_Cleanup \<longrightarrow> ps_unsub_due s \<or> \<not> ps_subscribed s)"

lemma pull_run_simps [simp]:
  "pull_run str anext aclose [] s = s"
  "pull_run str anext aclose (ev # evs) s = pull_run str anext aclose evs (pull_step str anext aclose ev s)"
  by (simp_all add: pull_run_def)

lemma pc_run_simps [simp]:
  "pc_run str anext aclose [] s = s"
  "pc_run str anext aclose (ev # evs) s = pc_run str anext aclose evs (pc_step str anext aclose ev s)"
  by (simp_all add: pc_run_def)

lemma ending_ok_ops:
  assumes "ending_ok s"
  shows "ps_phase s = Idle \<Longrightarrow> ending_ok (handle_pull_request msg s)"
    and "ending_ok (pull_resumes anext aclose s)"
    and "ending_ok (pull_published str r s)"
    and "ps_unsub_due s \<Longrightarrow> ending_ok (pull_unsub s)"
    and "ending_ok (pull_cleanup aclose s)"
proof -
  show "ending_ok (handle_pull_request msg s)" if "ps_phase s = Idle"
    using that assms by (cases "ps_active s"; cases msg) (simp_all add: ending_ok_def handle_pull_request_def fail_def)
  show "ending_ok (pull_resumes anext aclose s)"
    using assms by (cases "ps_phase s"; cases "anext (ps_gen s)"; cases "fst (anext (ps_gen s))"; cases "aclose (ps_gen s)";
        cases "fst (aclose (ps_gen s))") (simp_all add: ending_ok_def pull_resumes_def fail_def)
  show "ending_ok (pull_published str r s)"
    using assms by (cases "ps_phase s"; cases r; cases "ps_finished s")
      (simp_all add: pull_published_def finish_def fail_def ending_ok_def)
  show "ending_ok (pull_unsub s)" if "ps_unsub_due s"
    using that assms by (cases "ps_phase s"; cases "ps_finished s")
      (simp_all add: pull_unsub_def pull_abort_def finish_def ending_ok_def)
  show "ending_ok (pull_cleanup aclose s)"
    using assms by (cases "ps_cleanup s"; cases "ps_phase s"; cases "ps_finished s")
      (simp_all add: pull_cleanup_def pull_unsub_def pull_abort_def finish_def ending_ok_def)
qed

lemma ending_ok_step: "ending_ok s \<Longrightarrow> ending_ok (pull_step str anext aclose ev s)"
  by (cases ev) (simp_all add: ending_ok_ops)

lemma ending_ok_run: "ending_ok s \<Longrightarrow> ending_ok (pull_run str anext aclose evs s)"
  by (induction evs arbitrary: s) (simp_all add: ending_ok_step)

lemma ending_ok_open: "ending_ok (open_pull g)"
  by (simp add: ending_ok_def open_pull_def)

lemma responses_ops:
  assumes "responses_ok anext g0 s vs ts"
  shows "ps_phase s = Idle \<Longrightarrow> responses_ok anext g0 (handle_pull_request msg s) vs ts"
    and "responses_ok anext g0 (pull_resumes anext aclose s) vs ts"
    and "ps_unsub_due s \<Longrightarrow> ending_ok s \<Longrightarrow> responses_ok anext g0 (pull_unsub s) vs ts"
    and "ending_ok s \<Longrightarrow> responses_ok anext g0 (pull_cleanup aclose s) vs ts"
    and "\<exists>vs ts. responses_ok anext g0 (pull_published str r s) vs ts"
proof -
  show "responses_ok anext g0 (handle_pull_request msg s) vs ts" if "ps_phase s = Idle"
    using that assms by (cases "ps_active s"; cases msg) (simp_all add: responses_ok_def handle_pull_request_def fail_def)
  show "responses_ok anext g0 (pull_resumes anext aclose s) vs ts"
    using assms by (cases "ps_phase s"; cases "anext (ps_gen s)"; cases "fst (anext (ps_gen s))"; cases "aclose (ps_gen s)";
        cases "fst (aclose (ps_gen s))") (simp_all add: responses_ok_def pull_resumes_def fail_def)
  show "responses_ok anext g0 (pull_unsub s) vs ts" if "ps_unsub_due s" "ending_ok s"
    using that assms by (cases "ps_phase s")
      (simp_all add: pull_unsub_def pull_abort_def finish_def responses_ok_def ending_ok_def)
  show "responses_ok anext g0 (pull_cleanup aclose s) vs ts" if "ending_ok s"
    using that assms by (cases "ps_cleanup s"; cases "ps_phase s")
      (simp_all add: pull_cleanup_def pull_unsub_def pull_abort_def finish_def ending_ok_def responses_ok_def)
  show "\<exists>vs ts. responses_ok anext g0 (pull_published str r s) vs ts"
  proof (cases "ps_phase s")
    case (Sending_Value v)
    show ?thesis
    proof (cases r)
      case None
      have "responses_ok anext g0 (pull_published str r s) (vs @ [v]) []"
        using assms Sending_Value None gen_values_Suc [of anext g0 "length vs"] gen_after_Suc [of anext g0 "length vs"]
        by (auto simp: responses_ok_def pull_published_def)
      then show ?thesis by blast
    next
      case (Some e)
      then have "responses_ok anext g0 (pull_published str r s) vs []"
        using assms Sending_Value by (simp add: responses_ok_def pull_published_def fail_def)
      then show ?thesis by blast
    qed
  next
    case Sending_Done
    then have "responses_ok anext g0 (pull_published str r s) vs (if r = None then [Pull_Done] else [])"
      using assms by (cases r) (simp_all add: responses_ok_def pull_published_def fail_def finish_def)
    then show ?thesis by blast
  next
    case (Sending_Error x)
    then have "responses_ok anext g0 (pull_published str r s) vs
        (if r = None then [Pull_Error (format_error_dict str x)] else [])"
      using assms by (cases r) (simp_all add: responses_ok_def pull_published_def fail_def finish_def)
    then show ?thesis by blast
  qed (use assms in \<open>auto simp: pull_published_def\<close>)
qed

lemma responses_ok_run:
  assumes "responses_ok anext g0 s vs ts" "ending_ok s"
  shows "\<exists>vs ts. responses_ok anext g0 (pull_run str anext aclose evs s) vs ts"
  using assms
proof (induction evs arbitrary: s vs ts)
  case (Cons ev evs)
  have "\<exists>vs ts. responses_ok anext g0 (pull_step str anext aclose ev s) vs ts"
    using responses_ops [OF Cons.prems(1)] Cons.prems by (cases ev) (auto; blast)+
  then show ?case using Cons.IH ending_ok_step [OF Cons.prems(2)] by simp blast
qed auto

text \<open>
  C19. Whatever requests, failing publishes, unsubscribes and cleanups come in whatever order, the
  responses that a pull session publishes are the first values of its generator in order, none lost
  in between and none twice, followed by at most one end (\<open>done\<close> or an error), after which nothing
  follows.
\<close>

theorem pull_session_responses:
  "\<exists>vs ts. ps_sent (pull_run str anext aclose evs (open_pull g)) = map Pull_Value vs @ ts \<and>
     vs = gen_values anext g (length vs) \<and> length ts \<le> 1 \<and> list_all terminal ts"
proof -
  have "responses_ok anext g (open_pull g) [] []" by (simp add: responses_ok_def open_pull_def)
  from responses_ok_run [OF this ending_ok_open, of str aclose evs] show ?thesis
    unfolding responses_ok_def by blast
qed


definition demo_anext :: "pyval list \<Rightarrow> gen_event \<times> pyval list" where
  "demo_anext xs = (case xs of [] \<Rightarrow> (Stops, []) | x # xs \<Rightarrow> (Yields x, xs))"

definition demo_aclose :: "pyval list \<Rightarrow> exc option \<times> pyval list" where
  "demo_aclose xs = (None, [])"

definition demo_pull :: "pull_event list \<Rightarrow> pyval list pull_session" where
  "demo_pull evs = pull_run (\<lambda>_. []) demo_anext demo_aclose evs (open_pull [PInt 7])"


section \<open>The callback session refines the pull session\<close>

fun erase :: "pull_response \<Rightarrow> pull_response" where
  "erase (Pull_Value _) = Pull_Boundary"
| "erase r = r"

fun session_events :: "callback_event list \<Rightarrow> pull_event list" where
  "session_events [] = []"
| "session_events (Session ev # evs) = ev # session_events evs"
| "session_events (Invoke_Callback _ _ _ # evs) = session_events evs"

definition erased :: "'g pull_session \<Rightarrow> 'g pull_session" where
  "erased s = s\<lparr>ps_sent := map erase (ps_sent s)\<rparr>"

lemma truncate_sel [simp]:
  "ps_active (pull_session.truncate s) = ps_active s" "ps_finished (pull_session.truncate s) = ps_finished s"
  "ps_subscribed (pull_session.truncate s) = ps_subscribed s" "ps_unsub_due (pull_session.truncate s) = ps_unsub_due s"
  "ps_gen (pull_session.truncate s) = ps_gen s" "ps_phase (pull_session.truncate s) = ps_phase s"
  "ps_cleanup (pull_session.truncate s) = ps_cleanup s" "ps_released (pull_session.truncate s) = ps_released s"
  "ps_sent (pull_session.truncate s) = ps_sent s"
  by (simp_all add: pull_session.defs)

definition refines :: "'g callback_session \<Rightarrow> 'g pull_session \<Rightarrow> bool" where
  "refines c s \<longleftrightarrow> ps_active c = ps_active s \<and> ps_finished c = ps_finished s \<and> ps_subscribed c = ps_subscribed s \<and>
     ps_unsub_due c = ps_unsub_due s \<and> ps_gen c = ps_gen s \<and> ps_phase c = ps_phase s \<and> ps_cleanup c = ps_cleanup s \<and>
     ps_released c = ps_released s \<and> ps_sent c = map erase (ps_sent s)"

lemma refines_ops:
  assumes "refines c s"
  shows "refines (pc_request msg c) (handle_pull_request msg s)"
    and "refines (pc_resumes anext aclose c) (pull_resumes anext aclose s)"
    and "refines (pc_published str r c) (pull_published str r s)"
    and "refines (pc_unsub c) (pull_unsub s)"
    and "refines (pc_cleanup aclose c) (pull_cleanup aclose s)"
    and "refines (invoke connected method args c) s"
proof -
  show "refines (pc_request msg c) (handle_pull_request msg s)"
    using assms by (cases "ps_active s"; cases msg)
      (simp_all add: refines_def pc_request_def handle_pull_request_def pc_fail_def fail_def)
  show "refines (pc_resumes anext aclose c) (pull_resumes anext aclose s)"
    using assms by (cases "ps_phase s"; cases "anext (ps_gen s)"; cases "fst (anext (ps_gen s))"; cases "aclose (ps_gen s)";
        cases "fst (aclose (ps_gen s))") (simp_all add: refines_def pc_resumes_def pull_resumes_def pc_fail_def fail_def)
  show "refines (pc_published str r c) (pull_published str r s)"
    using assms by (cases "ps_phase s"; cases r; cases "ps_finished s")
      (simp_all add: refines_def pc_published_def pull_published_def pc_finish_def finish_def pc_fail_def fail_def)
  show unsub: "refines (pc_unsub c) (pull_unsub s)"
    using assms by (cases "ps_phase s"; cases "ps_finished s")
      (simp_all add: refines_def pc_unsub_def pull_unsub_def pc_abort_def pull_abort_def pc_finish_def finish_def)
  show "refines (pc_cleanup aclose c) (pull_cleanup aclose s)"
    using assms unsub by (cases "ps_cleanup s") (simp_all add: refines_def pc_cleanup_def pull_cleanup_def)
  show "refines (invoke connected method args c) s"
    using assms by (simp add: refines_def invoke_def)
qed

lemma refines_run:
  "refines c s \<Longrightarrow> refines (pc_run str anext aclose evs c) (pull_run str anext aclose (session_events evs) s)"
proof (induction evs arbitrary: c s)
  case (Cons ev evs)
  note R = refines_ops [OF Cons.prems]
  have e: "ps_subscribed c = ps_subscribed s" "ps_phase c = ps_phase s" "ps_unsub_due c = ps_unsub_due s"
    using Cons.prems by (simp_all add: refines_def)
  show ?case
  proof (cases ev)
    case (Session sev)
    have "refines (pc_step str anext aclose ev c) (pull_step str anext aclose sev s)"
      using R e Cons.prems by (cases sev) (simp_all add: Session)
    then show ?thesis using Cons.IH by (simp add: Session)
  next
    case (Invoke_Callback b m a)
    then show ?thesis using Cons.IH [OF R(6)] by simp
  qed
qed simp

text \<open>
  C21. A session with callbacks behaves as a plain pull session over the same generator whose values
  are left out of the responses: firing callbacks changes nothing of it, and every other event has
  the same effect on it.
\<close>

theorem pull_callback_refines:
  "pull_session.truncate (pc_run str anext aclose evs (open_pull_callback oneway g))
     = erased (pull_run str anext aclose (session_events evs) (open_pull g))"
proof -
  have "refines (open_pull_callback oneway g) (open_pull g)"
    by (simp add: refines_def open_pull_callback_def open_pull_def new_invoker_def pull_session.defs)
  from refines_run [OF this] show ?thesis
    unfolding refines_def by (intro pull_session.equality) (simp_all add: erased_def)
qed

lemma invoker_ops:
  assumes "cs_invoker c = ps_active c"
  shows "cs_invoker (pc_request msg c) = ps_active (pc_request msg c)"
    and "cs_invoker (pc_resumes anext aclose c) = ps_active (pc_resumes anext aclose c)"
    and "cs_invoker (pc_published str r c) = ps_active (pc_published str r c)"
    and "cs_invoker (pc_unsub c) = ps_active (pc_unsub c)"
    and "cs_invoker (pc_cleanup aclose c) = ps_active (pc_cleanup aclose c)"
proof -
  show "cs_invoker (pc_request msg c) = ps_active (pc_request msg c)"
    using assms by (cases "ps_active c"; cases msg) (simp_all add: pc_request_def pc_fail_def)
  show "cs_invoker (pc_resumes anext aclose c) = ps_active (pc_resumes anext aclose c)"
    using assms by (cases "ps_phase c"; cases "anext (ps_gen c)"; cases "fst (anext (ps_gen c))"; cases "aclose (ps_gen c)";
        cases "fst (aclose (ps_gen c))") (simp_all add: pc_resumes_def pc_fail_def)
  show "cs_invoker (pc_published str r c) = ps_active (pc_published str r c)"
    using assms by (cases "ps_phase c"; cases r; cases "ps_finished c")
      (simp_all add: pc_published_def pc_finish_def pc_fail_def)
  show unsub: "cs_invoker (pc_unsub c) = ps_active (pc_unsub c)"
    using assms by (cases "ps_phase c"; cases "ps_finished c") (simp_all add: pc_unsub_def pc_abort_def pc_finish_def)
  show "cs_invoker (pc_cleanup aclose c) = ps_active (pc_cleanup aclose c)"
    using assms unsub by (cases "ps_cleanup c") (simp_all add: pc_cleanup_def)
qed

lemma session_keeps_fired:
  "cs_fired (pc_step str anext aclose (Session ev) c) = cs_fired c \<and>
   cs_oneway (pc_step str anext aclose (Session ev) c) = cs_oneway c"
  by (cases ev; cases "ps_phase c")
     (simp_all add: pc_defs split: pyval.split gen_event.split option.split prod.split cleanup_phase.split)

lemma inactive_step:
  assumes "\<not> ps_active c"
  shows "\<not> ps_active (pc_step str anext aclose ev c)"
proof (cases ev)
  case (Session sev)
  with assms show ?thesis
    by (cases sev; cases "ps_phase c")
       (simp_all add: pc_defs split: gen_event.split option.split prod.split cleanup_phase.split)
next
  case (Invoke_Callback b m a)
  with assms show ?thesis by (simp add: invoke_def)
qed

definition invoker_ok :: "string list \<Rightarrow> 'g callback_session \<Rightarrow> bool" where
  "invoker_ok oneway c \<longleftrightarrow> cs_invoker c = ps_active c \<and> cs_oneway c = oneway \<and> fst ` set (cs_fired c) \<subseteq> set oneway"

lemma invoker_ok_step: "invoker_ok oneway c \<Longrightarrow> invoker_ok oneway (pc_step str anext aclose ev c)"
proof (cases ev)
  case (Session sev)
  assume ok: "invoker_ok oneway c"
  then have "cs_invoker c = ps_active c" by (simp add: invoker_ok_def)
  note I = invoker_ops [OF this]
  have "cs_invoker (pc_step str anext aclose ev c) = ps_active (pc_step str anext aclose ev c)"
    using I \<open>cs_invoker c = ps_active c\<close> by (cases sev) (simp_all add: Session)
  then show ?thesis using ok session_keeps_fired [of str anext aclose sev c] by (simp add: Session invoker_ok_def)
next
  case (Invoke_Callback b m a)
  assume "invoker_ok oneway c"
  then show ?thesis by (simp add: Invoke_Callback invoker_ok_def invoke_def)
qed

lemma invoker_ok_run: "invoker_ok oneway c \<Longrightarrow> invoker_ok oneway (pc_run str anext aclose evs c)"
  by (induction evs arbitrary: c) (simp_all add: invoker_ok_step)

lemma inactive_fires_nothing:
  "invoker_ok oneway c \<Longrightarrow> \<not> ps_active c \<Longrightarrow> cs_fired (pc_run str anext aclose evs c) = cs_fired c"
proof (induction evs arbitrary: c)
  case (Cons ev evs)
  have "cs_fired (pc_step str anext aclose ev c) = cs_fired c"
    using Cons.prems session_keeps_fired [of str anext aclose _ c]
    by (cases ev) (simp_all add: invoker_ok_def invoke_def)
  then show ?case using Cons.IH [OF invoker_ok_step [OF Cons.prems(1)] inactive_step [OF Cons.prems(2)]] by simp
qed simp

text \<open>
  The callback invoker of a session fires only methods that the client has registered as one-way,
  and nothing any more once the session has ended, however it ended.
\<close>

theorem invoker_inert:
  assumes "s = pc_run str anext aclose evs (open_pull_callback oneway g)" "\<not> ps_active s"
  shows "cs_fired (pc_run str anext aclose evs' s) = cs_fired s \<and> fst ` set (cs_fired s) \<subseteq> set oneway"
proof -
  have "invoker_ok oneway (open_pull_callback oneway g)"
    by (simp add: invoker_ok_def open_pull_callback_def new_invoker_def pull_session.defs)
  then have "invoker_ok oneway s" unfolding assms(1) by (rule invoker_ok_run)
  then show ?thesis using inactive_fires_nothing [OF _ assms(2)] by (auto simp: invoker_ok_def)
qed

definition demo_callbacks :: "callback_event list \<Rightarrow> pyval list callback_session" where
  "demo_callbacks evs = pc_run (\<lambda>_. []) demo_anext demo_aclose evs (open_pull_callback [''item''] [PInt 7])"

theorem invoker_inert_witness:
  "cs_fired (pc_run (\<lambda>_. []) demo_anext demo_aclose [Invoke_Callback True ''item'' []]
      (demo_callbacks [Invoke_Callback True ''item'' [PInt 1], Invoke_Callback True ''other'' [],
         Session (Request (pull_request_msg ''i'' Pull_Cancel))])) = [(''item'', [PInt 1])]"
proof -
  let ?evs = "[Invoke_Callback True ''item'' [PInt 1], Invoke_Callback True ''other'' [],
         Session (Request (pull_request_msg ''i'' Pull_Cancel))]"
  have "\<not> ps_active (demo_callbacks ?evs)" "cs_fired (demo_callbacks ?evs) = [(''item'', [PInt 1])]" by code_simp+
  then show ?thesis using invoker_inert [OF demo_callbacks_def [of ?evs]] by (simp del: pc_run_simps)
qed

end
