(* ===== verification/Pull_Client.thy ===== *)
theory Pull_Client
  imports Pull_Server
begin

text \<open>
  The client side of pull iterators (\<open>client.py\<close>): \<open>call_pull_iterator\<close>, an asynchronous generator
  that asks for one value at a time. The generator runs from await to await; responses, the
  no-responder status, the settling on disconnect and the consumer's own decisions are events.
\<close>

section \<open>The consumer\<close>

datatype outcome = Ended | Failed exc | Left

datatype consumer_phase =
    Initialising
  | Subscribing
  | Requesting
  | Waiting_Response
  | At_Yield
  | Cancelling outcome
  | Over outcome

text \<open>
  The variables of one \<open>call_pull_iterator\<close>: \<open>pk_settle\<close> is the membership in
  \<open>_pull_iterator_settles\<close>, \<open>pk_status\<close> the entry in \<open>status_handlers\<close>, \<open>pk_sent\<close> the requests that
  have been published, \<open>pk_yielded\<close> what the consumer got.
\<close>

record pull_client =
  pk_ended :: bool
  pk_error :: "exc option"
  pk_queue :: "(pyval \<times> pyval) list list"
  pk_settle :: bool
  pk_status :: bool
  pk_subscribed :: bool
  pk_phase :: consumer_phase
  pk_sent :: "pull_request list"
  pk_yielded :: "pyval list"

text \<open>The parameters of the initialising call.\<close>

definition pull_params :: "string \<Rightarrow> pyval list \<Rightarrow> pyval" where
  "pull_params iterator_id args = PDict [(PStr ''__pullIterator'', PBool True), (PStr ''__iteratorId'', PStr iterator_id),
     (PStr ''args'', PTuple args)]"

definition start_pull :: pull_client where
  "start_pull = \<lparr>pk_ended = False, pk_error = None, pk_queue = [], pk_settle = True, pk_status = False,
     pk_subscribed = False, pk_phase = Initialising, pk_sent = [], pk_yielded = []\<rparr>"

text \<open>The initialising call returns or raises.\<close>

definition pull_initialised :: "string \<Rightarrow> exc + pyval \<Rightarrow> pull_client \<Rightarrow> pull_client" where
  "pull_initialised iterator_id r c =
     (let failed = Raised RuntimeError ''Failed to initialize pull iterator''
      in case r of
           Inl e \<Rightarrow> c\<lparr>pk_settle := False, pk_phase := Over (Failed e)\<rparr>
         | Inr v \<Rightarrow>
             if \<not> truthy v then c\<lparr>pk_settle := False, pk_phase := Over (Failed failed)\<rparr>
             else
               (case v of
                  PDict d \<Rightarrow>
                    if sget_or_none d ''iteratorId'' \<noteq> PStr iterator_id
                    then c\<lparr>pk_settle := False, pk_phase := Over (Failed failed)\<rparr>
                    else c\<lparr>pk_phase := Subscribing\<rparr>
                | _ \<Rightarrow> c\<lparr>pk_phase := Over (Failed (Raised AttributeError ''get''))\<rparr>))"

text \<open>The subscription to the responses is there; the status handler is registered.\<close>

definition pull_subscribed :: "exc option \<Rightarrow> pull_client \<Rightarrow> pull_client" where
  "pull_subscribed r c = (case r of
      Some e \<Rightarrow> c\<lparr>pk_phase := Over (Failed e)\<rparr>
    | None \<Rightarrow> c\<lparr>pk_subscribed := True, pk_status := True, pk_phase := Requesting\<rparr>)"

text \<open>\<open>handle_response\<close>; a malformed error raises, which drops the message.\<close>

definition handle_response :: "pyval \<Rightarrow> pull_client \<Rightarrow> pull_client" where
  "handle_response msg c =
     (case msg of
        PDict d \<Rightarrow>
          if msg_type d = PStr ''error'' then
            (let err = sget_or_none d ''error''
             in if truthy err then
                  (case from_dict err of
                     Inl e \<Rightarrow> c
                   | Inr x \<Rightarrow> c\<lparr>pk_error := Some (RPC x), pk_ended := True, pk_queue := pk_queue c @ [d]\<rparr>)
                else c\<lparr>pk_ended := True, pk_queue := pk_queue c @ [d]\<rparr>)
          else if msg_type d = PStr ''done'' then c\<lparr>pk_ended := True, pk_queue := pk_queue c @ [d]\<rparr>
          else c\<lparr>pk_queue := pk_queue c @ [d]\<rparr>
      | _ \<Rightarrow> c)"

definition error_response :: "string \<Rightarrow> rpc_exception \<Rightarrow> (pyval \<times> pyval) list" where
  "error_response iterator_id r = [(PStr ''type'', PStr ''error''), (PStr ''id'', PStr iterator_id),
     (PStr ''error'', PDict (to_dict r))]"

definition closed_error :: rpc_exception where
  "closed_error = create_error (Inl CONNECTION_CLOSED) ''Connection closed'' PNone"

definition settle_on_disconnect :: "string \<Rightarrow> pull_client \<Rightarrow> pull_client" where
  "settle_on_disconnect iterator_id c =
     (let c = (if pk_ended c then c else c\<lparr>pk_ended := True, pk_error := Some (RPC closed_error)\<rparr>);
          err = (case pk_error c of Some (RPC r) \<Rightarrow> r | _ \<Rightarrow> closed_error)
      in c\<lparr>pk_queue := pk_queue c @ [error_response iterator_id err], pk_settle := False\<rparr>)"

text \<open>
  \<open>on_no_responders\<close>, removed by the inbox when it fires; \<open>str\<close> shows nats-py's error.
\<close>

definition pull_no_responders :: "(exc \<Rightarrow> string) \<Rightarrow> string \<Rightarrow> string \<Rightarrow> pull_client \<Rightarrow> pull_client" where
  "pull_no_responders str subject iterator_id c =
     (let err = create_error (Inr ''503'') (str (NoResponders subject)) PNone
      in c\<lparr>pk_status := False, pk_ended := True, pk_error := Some (RPC err),
           pk_queue := pk_queue c @ [error_response iterator_id err]\<rparr>)"

text \<open>The \<open>finally\<close> clause: \<open>cleanup\<close> up to the publish of the cancel request.\<close>

definition pull_leave :: "outcome \<Rightarrow> pull_client \<Rightarrow> pull_client" where
  "pull_leave out c =
     c\<lparr>pk_settle := False, pk_status := False, pk_subscribed := False,
       pk_phase := (if pk_ended c then Over out else Cancelling out)\<rparr>"

text \<open>A publish returns or raises: that of \<open>next\<close>, or that of \<open>cancel\<close>, whose exceptions are suppressed.\<close>

definition pull_request_published :: "exc option \<Rightarrow> pull_client \<Rightarrow> pull_client" where
  "pull_request_published r c =
     (case pk_phase c of
        Requesting \<Rightarrow>
          (case r of
             None \<Rightarrow> c\<lparr>pk_sent := pk_sent c @ [Pull_Next], pk_phase := Waiting_Response\<rparr>
           | Some e \<Rightarrow> pull_leave (Failed e) c)
      | Cancelling out \<Rightarrow>
          c\<lparr>pk_sent := (if r = None then pk_sent c @ [Pull_Cancel] else pk_sent c), pk_phase := Over out\<rparr>
      | _ \<Rightarrow> c)"

text \<open>\<open>response_queue.get()\<close> returns.\<close>

definition take_response :: "pull_client \<Rightarrow> pull_client" where
  "take_response c =
     (case pk_queue c of
        [] \<Rightarrow> c
      | d # ds \<Rightarrow>
          let c = c\<lparr>pk_queue := ds\<rparr>
          in if msg_type d = PStr ''error'' then
               (let err = sget_or_none d ''error''
                in if truthy err then
                     (case from_dict err of Inl e \<Rightarrow> pull_leave (Failed e) c | Inr x \<Rightarrow> pull_leave (Failed (RPC x)) c)
                   else c\<lparr>pk_phase := Requesting\<rparr>)
             else if msg_type d = PStr ''done'' then pull_leave Ended c
             else if msg_type d = PStr ''value''
             then c\<lparr>pk_yielded := pk_yielded c @ [sget_or_none d ''value''], pk_phase := At_Yield\<rparr>
             else c\<lparr>pk_phase := Requesting\<rparr>)"

datatype consumer_event =
    Init_Returns "exc + pyval"
  | Subscribe_Returns "exc option"
  | Publish_Returns "exc option"
  | Response_Arrives pyval
  | No_Responders
  | Settle
  | Take
  | Resume
  | Leave

fun consumer_step :: "(exc \<Rightarrow> string) \<Rightarrow> string \<Rightarrow> string \<Rightarrow> consumer_event \<Rightarrow> pull_client \<Rightarrow> pull_client" where
  "consumer_step str subject i (Init_Returns r) c = (if pk_phase c = Initialising then pull_initialised i r c else c)"
| "consumer_step str subject i (Subscribe_Returns r) c = (if pk_phase c = Subscribing then pull_subscribed r c else c)"
| "consumer_step str subject i (Publish_Returns r) c = pull_request_published r c"
| "consumer_step str subject i (Response_Arrives msg) c = (if pk_subscribed c then handle_response msg c else c)"
| "consumer_step str subject i No_Responders c = (if pk_status c then pull_no_responders str subject i c else c)"
| "consumer_step str subject i Settle c = (if pk_settle c then settle_on_disconnect i c else c)"
| "consumer_step str subject i Take c = (if pk_phase c = Waiting_Response then take_response c else c)"
| "consumer_step str subject i Resume c = (if pk_phase c = At_Yield then c\<lparr>pk_phase := Requesting\<rparr> else c)"
| "consumer_step str subject i Leave c =
     (if pk_phase c \<in> {Requesting, Waiting_Response, At_Yield} then pull_leave Left c else c)"

inductive consumer_reachable :: "(exc \<Rightarrow> string) \<Rightarrow> string \<Rightarrow> string \<Rightarrow> pull_client \<Rightarrow> bool"
  for str subject i where
  start: "consumer_reachable str subject i start_pull"
| step: "consumer_reachable str subject i c \<Longrightarrow> consumer_reachable str subject i (consumer_step str subject i ev c)"

section \<open>No consumer hangs\<close>

text \<open>A message in the queue that ends the iteration with an error.\<close>

definition fatal :: "(pyval \<times> pyval) list \<Rightarrow> bool" where
  "fatal d \<longleftrightarrow> msg_type d = PStr ''error'' \<and> truthy (sget_or_none d ''error'')"

lemma fatal_error_response [simp]: "fatal (error_response i r)"
  by (simp add: fatal_def error_response_def msg_type_def to_dict_def)

text \<open>
  A consumer that iterates can be woken by a disconnect and by a missing responder, or something in
  its queue will end it.
\<close>

definition consumer_ok :: "pull_client \<Rightarrow> bool" where
  "consumer_ok c \<longleftrightarrow>
     (pk_phase c \<in> {Initialising, Subscribing} \<longrightarrow> pk_settle c \<or> (\<exists>d \<in> set (pk_queue c). fatal d)) \<and>
     (pk_phase c \<in> {Requesting, Waiting_Response, At_Yield} \<longrightarrow>
        pk_subscribed c \<and> ((\<exists>d \<in> set (pk_queue c). fatal d) \<or> pk_settle c \<and> pk_status c))"

lemma handle_response_keeps:
  "pk_phase (handle_response msg c) = pk_phase c" "pk_settle (handle_response msg c) = pk_settle c"
  "pk_status (handle_response msg c) = pk_status c" "pk_subscribed (handle_response msg c) = pk_subscribed c"
  "pk_sent (handle_response msg c) = pk_sent c" "pk_yielded (handle_response msg c) = pk_yielded c"
  "set (pk_queue c) \<subseteq> set (pk_queue (handle_response msg c))"
  by (cases msg; auto simp: handle_response_def Let_def split: sum.split)+

text \<open>What taking a response amounts to.\<close>

lemma take_response_cases:
  assumes "pk_queue c = d # ds"
  obtains (leave) out where "take_response c = pull_leave out (c\<lparr>pk_queue := ds\<rparr>)"
      "fatal d \<longrightarrow> (\<exists>e. out = Failed e)" "\<not> fatal d \<longrightarrow> out = Ended"
  | (again) "\<not> fatal d" "take_response c = c\<lparr>pk_queue := ds, pk_phase := Requesting\<rparr>"
  | (yield) "\<not> fatal d" "msg_type d = PStr ''value''"
      "take_response c = c\<lparr>pk_queue := ds, pk_yielded := pk_yielded c @ [sget_or_none d ''value''], pk_phase := At_Yield\<rparr>"
proof (cases "msg_type d = PStr ''error''")
  case True
  show thesis
  proof (cases "truthy (sget_or_none d ''error'')")
    case t: True
    show thesis
      by (rule leave [of "case from_dict (sget_or_none d ''error'') of Inl e \<Rightarrow> Failed e | Inr x \<Rightarrow> Failed (RPC x)"])
         (use True t in \<open>simp_all add: take_response_def assms fatal_def split: sum.split\<close>)
  next
    case f: False
    then show thesis by (intro again) (simp_all add: take_response_def assms fatal_def True)
  qed
next
  case False
  then have f: "\<not> fatal d" by (simp add: fatal_def)
  consider "msg_type d = PStr ''done''" | "msg_type d = PStr ''value''"
    | "msg_type d \<noteq> PStr ''done''" "msg_type d \<noteq> PStr ''value''" by blast
  then show thesis
    by cases (use f False in \<open>auto simp: take_response_def assms intro: leave again yield\<close>)
qed

lemma consumer_ok_leave [simp]: "consumer_ok (pull_leave out c)"
  by (simp add: consumer_ok_def pull_leave_def)

lemma consumer_ok_step: "consumer_ok c \<Longrightarrow> consumer_ok (consumer_step str subject i ev c)"
proof (cases ev)
  case (Response_Arrives msg)
  assume "consumer_ok c"
  then show ?thesis
    using handle_response_keeps(7) [of c msg] by (auto simp: Response_Arrives consumer_ok_def handle_response_keeps(1-6))
next
  case Take
  assume "consumer_ok c"
  then show ?thesis
  proof (cases "pk_phase c = Waiting_Response \<and> pk_queue c \<noteq> []")
    case False
    then show ?thesis using \<open>consumer_ok c\<close> by (auto simp: Take take_response_def)
  next
    case True
    then obtain d ds where q: "pk_queue c = d # ds" by (auto simp: neq_Nil_conv)
    from q show ?thesis
    proof (cases rule: take_response_cases)
      case (leave out)
      then show ?thesis using True by (simp add: Take)
    next
      case again
      then show ?thesis using True q \<open>consumer_ok c\<close> by (simp add: Take consumer_ok_def)
    next
      case yield
      then show ?thesis using True q \<open>consumer_ok c\<close> by (simp add: Take consumer_ok_def)
    qed
  qed
next
  case (Init_Returns r)
  assume "consumer_ok c"
  then show ?thesis
    by (cases r) (auto simp: Init_Returns consumer_ok_def pull_initialised_def Let_def split: pyval.split)
next
  case (Publish_Returns r)
  assume "consumer_ok c"
  then show ?thesis
    by (cases "pk_phase c"; cases r) (auto simp: Publish_Returns consumer_ok_def pull_request_published_def pull_leave_def)
next
  case (Subscribe_Returns r)
  assume "consumer_ok c"
  then show ?thesis by (cases r) (auto simp: Subscribe_Returns consumer_ok_def pull_subscribed_def)
qed (auto simp: consumer_ok_def pull_no_responders_def settle_on_disconnect_def pull_leave_def Let_def)

lemma reachable_consumer_ok: "consumer_reachable str subject i c \<Longrightarrow> consumer_ok c"
proof (induction rule: consumer_reachable.induct)
  case start
  then show ?case by (simp add: consumer_ok_def start_pull_def)
qed (rule consumer_ok_step)

text \<open>
  C22. A consumer that waits for a response with nothing queued is never stranded: its settle hook and
  its status handler are both registered, and either of them ends the iteration with an error at
  its next step.
\<close>

theorem pull_consumer_settles:
  assumes "consumer_reachable str subject i c" "pk_phase c = Waiting_Response" "pk_queue c = []"
  shows "pk_settle c \<and> pk_status c \<and>
    (\<exists>r. pk_phase (consumer_step str subject i Take (consumer_step str subject i Settle c)) = Over (Failed (RPC r))) \<and>
    pk_phase (consumer_step str subject i Take (consumer_step str subject i No_Responders c))
      = Over (Failed (RPC (create_error (Inr ''503'') (str (NoResponders subject)) PNone)))"
proof -
  have ok: "pk_settle c" "pk_status c" using reachable_consumer_ok [OF assms(1)] assms(2,3) by (auto simp: consumer_ok_def)
  have e: "msg_type (error_response i r) = PStr ''error''" "sget_or_none (error_response i r) ''error'' = PDict (to_dict r)"
    "to_dict r \<noteq> []" for r
    by (simp_all add: error_response_def msg_type_def to_dict_def)
  show ?thesis
    using ok assms(2,3) by (simp add: settle_on_disconnect_def pull_no_responders_def take_response_def pull_leave_def
        e from_dict_to_dict Let_def)
qed

definition demo_consumer :: "consumer_event list \<Rightarrow> pull_client" where
  "demo_consumer evs = fold (consumer_step (\<lambda>_. []) ''s'' ''i'') evs start_pull"

lemma demo_consumer_reachable: "consumer_reachable (\<lambda>_. []) ''s'' ''i'' (demo_consumer evs)"
proof -
  have run: "consumer_reachable (\<lambda>_. []) ''s'' ''i'' c \<Longrightarrow>
      consumer_reachable (\<lambda>_. []) ''s'' ''i'' (fold (consumer_step (\<lambda>_. []) ''s'' ''i'') evs c)" for c
    by (induction evs arbitrary: c) (simp_all add: consumer_reachable.step)
  show ?thesis unfolding demo_consumer_def by (rule run) (rule consumer_reachable.start)
qed

definition iterator_ready :: "string \<Rightarrow> pyval" where
  "iterator_ready i = PDict [(PStr ''iteratorId'', PStr i)]"

theorem pull_consumer_settles_witness:
  "pk_settle (demo_consumer [Init_Returns (Inr (iterator_ready ''i'')), Subscribe_Returns None, Publish_Returns None])"
proof -
  let ?evs = "[Init_Returns (Inr (iterator_ready ''i'')), Subscribe_Returns None, Publish_Returns None]"
  have "pk_phase (demo_consumer ?evs) = Waiting_Response" "pk_queue (demo_consumer ?evs) = []" by code_simp+
  from pull_consumer_settles [OF demo_consumer_reachable this] show ?thesis by blast
qed

end
