(* ===== verification/Pull_Callback.thy ===== *)
theory Pull_Callback
  imports Pull_Client
begin

text \<open>
  The client side of pull iterators with callbacks (\<open>client.py\<close>,
  \<open>call_pull_iterator_with_callback\<close>): the consumer of \<open>call_pull_iterator\<close> with a second
  subscription, whose messages a single task runs through the callbacks, one after another, and a
  wait for that task before every batch boundary.
\<close>

section \<open>The consumer with callbacks\<close>

text \<open>
  \<open>ck_pending\<close> are the callback messages that have been queued and not yet done (the head may be
  running), \<open>ck_ran\<close> those that are done, \<open>ck_join\<close> is set while the loop waits in
  \<open>cb_queue.join()\<close>, to yield or to end afterwards.
\<close>

datatype after_join = Then_Yield | Then_End

record callback_client = pull_client +
  ck_methods :: "string list"
  ck_cb_subscribed :: bool
  ck_consumer :: bool
  ck_pending :: "(string \<times> pyval) list"
  ck_ran :: "(string \<times> pyval) list"
  ck_join :: "after_join option"

definition pull_callback_params :: "string \<Rightarrow> string \<Rightarrow> string list \<Rightarrow> string list \<Rightarrow> pyval list \<Rightarrow> pyval" where
  "pull_callback_params iterator_id callback_subject methods oneway args = PDict
     [(PStr ''__pullCallback'', PBool True), (PStr ''__iteratorId'', PStr iterator_id),
      (PStr ''__callbackSubject'', PStr callback_subject), (PStr ''__callbackMethods'', PList (map PStr methods)),
      (PStr ''__onewayMethods'', PList (map PStr oneway)), (PStr ''args'', PList args)]"

definition pull_callback_subject :: "string \<Rightarrow> string" where
  "pull_callback_subject iterator_id = ''_rpc.cb.'' @ iterator_id"

text \<open>The consumer task runs and the callback channel is subscribed before the initialising call.\<close>

definition start_pull_callback :: "string list \<Rightarrow> callback_client" where
  "start_pull_callback methods = \<lparr>pk_ended = False, pk_error = None, pk_queue = [], pk_settle = True, pk_status = False,
     pk_subscribed = False, pk_phase = Initialising, pk_sent = [], pk_yielded = [], ck_methods = methods,
     ck_cb_subscribed = True, ck_consumer = True, ck_pending = [], ck_ran = [], ck_join = None\<rparr>"

definition handle_cb_msg :: "pyval \<Rightarrow> callback_client \<Rightarrow> callback_client" where
  "handle_cb_msg msg c =
     (case msg of
        PDict d \<Rightarrow>
          (case sget_or_none d ''method'' of
             PStr method \<Rightarrow>
               if method \<notin> set (ck_methods c) then c
               else
                 (let args = sget_or_none d ''args''
                  in c\<lparr>ck_pending := ck_pending c @ [(method, if truthy args then args else PList [])]\<rparr>)
           | _ \<Rightarrow> c)
      | _ \<Rightarrow> c)"

text \<open>
  \<open>consume_callbacks\<close> has run one message; what the callback raises is printed.
\<close>

definition consume_callback :: "callback_client \<Rightarrow> callback_client" where
  "consume_callback c =
     (case ck_pending c of
        [] \<Rightarrow> c
      | m # ms \<Rightarrow> if ck_consumer c then c\<lparr>ck_ran := ck_ran c @ [m], ck_pending := ms\<rparr> else c)"

text \<open>Giving up before the iteration starts.\<close>

definition ck_drop :: "exc \<Rightarrow> callback_client \<Rightarrow> callback_client" where
  "ck_drop e c = c\<lparr>pk_settle := False, ck_cb_subscribed := False, ck_consumer := False, pk_phase := Over (Failed e)\<rparr>"

definition ck_initialised :: "string \<Rightarrow> exc + pyval \<Rightarrow> callback_client \<Rightarrow> callback_client" where
  "ck_initialised iterator_id r c =
     (let failed = Raised RuntimeError ''Failed to initialize pull-callback iterator''
      in case r of
           Inl e \<Rightarrow> ck_drop e c
         | Inr v \<Rightarrow>
             if \<not> truthy v then ck_drop failed c
             else
               (case v of
                  PDict d \<Rightarrow>
                    if sget_or_none d ''iteratorId'' \<noteq> PStr iterator_id then ck_drop failed c
                    else c\<lparr>pk_phase := Subscribing\<rparr>
                | _ \<Rightarrow> c\<lparr>pk_phase := Over (Failed (Raised AttributeError ''get''))\<rparr>))"

definition ck_subscribed :: "exc option \<Rightarrow> callback_client \<Rightarrow> callback_client" where
  "ck_subscribed r c = (case r of
      Some e \<Rightarrow> c\<lparr>pk_phase := Over (Failed e)\<rparr>
    | None \<Rightarrow> c\<lparr>pk_subscribed := True, pk_status := True, pk_phase := Requesting\<rparr>)"

definition ck_response :: "pyval \<Rightarrow> callback_client \<Rightarrow> callback_client" where
  "ck_response msg c =
     (case msg of
        PDict d \<Rightarrow>
          if msg_type d = PStr ''error'' then
            (let err = sget_or_none d ''error''
             in if truthy err then
                  (case from_dict err of
                     Inl e \<Rightarrow> c
                   | Inr x \<Rightarrow> c\<lparr>pk_error := Some (RPC x), pk_ended := True, pk_queue := pk_queue c @ [d]\<rparr>)
                else c\<lparr>pk_ended := True, pk_queue := pk_queue c @ [d]\<rparr>)
          else if msg_type d = PStr ''done'' then c\<lparr>pk_ended := True, pk_queue := pk_queue c @ [d]\<rparr>
          else c\<lparr>pk_queue := pk_queue c @ [d]\<rparr>
      | _ \<Rightarrow> c)"

definition ck_settle :: "string \<Rightarrow> callback_client \<Rightarrow> callback_client" where
  "ck_settle iterator_id c =
     (let c = (if pk_ended c then c else c\<lparr>pk_ended := True, pk_error := Some (RPC closed_error)\<rparr>);
          err = (case pk_error c of Some (RPC r) \<Rightarrow> r | _ \<Rightarrow> closed_error)
      in c\<lparr>pk_queue := pk_queue c @ [error_response iterator_id err], pk_settle := False\<rparr>)"

definition ck_no_responders :: "(exc \<Rightarrow> string) \<Rightarrow> string \<Rightarrow> string \<Rightarrow> callback_client \<Rightarrow> callback_client" where
  "ck_no_responders str subject iterator_id c =
     (let err = create_error (Inr ''503'') (str (NoResponders subject)) PNone
      in c\<lparr>pk_status := False, pk_ended := True, pk_error := Some (RPC err),
           pk_queue := pk_queue c @ [error_response iterator_id err]\<rparr>)"

definition ck_leave :: "outcome \<Rightarrow> callback_client \<Rightarrow> callback_client" where
  "ck_leave out c =
     c\<lparr>pk_settle := False, pk_status := False, ck_cb_subscribed := False, ck_consumer := False, pk_subscribed := False,
       ck_join := None, pk_phase := (if pk_ended c then Over out else Cancelling out)\<rparr>"

definition ck_published :: "exc option \<Rightarrow> callback_client \<Rightarrow> callback_client" where
  "ck_published r c =
     (case pk_phase c of
        Requesting \<Rightarrow>
          (case r of
             None \<Rightarrow> c\<lparr>pk_sent := pk_sent c @ [Pull_Next], pk_phase := Waiting_Response\<rparr>
           | Some e \<Rightarrow> ck_leave (Failed e) c)
      | Cancelling out \<Rightarrow>
          c\<lparr>pk_sent := (if r = None then pk_sent c @ [Pull_Cancel] else pk_sent c), pk_phase := Over out\<rparr>
      | _ \<Rightarrow> c)"

text \<open>A response has been taken from the queue: value and done wait for the callbacks first.\<close>

definition ck_take :: "callback_client \<Rightarrow> callback_client" where
  "ck_take c =
     (case pk_queue c of
        [] \<Rightarrow> c
      | d # ds \<Rightarrow>
          let c = c\<lparr>pk_queue := ds\<rparr>
          in if msg_type d = PStr ''error'' then
               (let err = sget_or_none d ''error''
                in if truthy err then
                     (case from_dict err of Inl e \<Rightarrow> ck_leave (Failed e) c | Inr x \<Rightarrow> ck_leave (Failed (RPC x)) c)
                   else c\<lparr>pk_phase := Requesting\<rparr>)
             else if msg_type d = PStr ''done'' then c\<lparr>ck_join := Some Then_End\<rparr>
             else if msg_type d = PStr ''value'' then c\<lparr>ck_join := Some Then_Yield\<rparr>
             else c\<lparr>pk_phase := Requesting\<rparr>)"

text \<open>\<open>cb_queue.join()\<close> returns when every queued message is done.\<close>

definition ck_joined :: "callback_client \<Rightarrow> callback_client" where
  "ck_joined c =
     (if ck_pending c \<noteq> [] then c
      else
        (case ck_join c of
           None \<Rightarrow> c
         | Some Then_End \<Rightarrow> ck_leave Ended (c\<lparr>ck_join := None\<rparr>)
         | Some Then_Yield \<Rightarrow> c\<lparr>ck_join := None, pk_yielded := pk_yielded c @ [PNone], pk_phase := At_Yield\<rparr>))"

datatype ck_event = Consumer consumer_event | Callback_Arrives pyval | Callback_Done | Join_Returns

fun ck_step :: "(exc \<Rightarrow> string) \<Rightarrow> string \<Rightarrow> string \<Rightarrow> ck_event \<Rightarrow> callback_client \<Rightarrow> callback_client" where
  "ck_step str subject i (Consumer (Init_Returns r)) c = (if pk_phase c = Initialising then ck_initialised i r c else c)"
| "ck_step str subject i (Consumer (Subscribe_Returns r)) c = (if pk_phase c = Subscribing then ck_subscribed r c else c)"
| "ck_step str subject i (Consumer (Publish_Returns r)) c = ck_published r c"
| "ck_step str subject i (Consumer (Response_Arrives msg)) c = (if pk_subscribed c then ck_response msg c else c)"
| "ck_step str subject i (Consumer No_Responders) c = (if pk_status c then ck_no_responders str subject i c else c)"
| "ck_step str subject i (Consumer Settle) c = (if pk_settle c then ck_settle i c else c)"
| "ck_step str subject i (Consumer Take) c =
     (if pk_phase c = Waiting_Response \<and> ck_join c = None then ck_take c else c)"
| "ck_step str subject i (Consumer Resume) c = (if pk_phase c = At_Yield then c\<lparr>pk_phase := Requesting\<rparr> else c)"
| "ck_step str subject i (Consumer Leave) c =
     (if pk_phase c \<in> {Requesting, Waiting_Response, At_Yield} then ck_leave Left c else c)"
| "ck_step str subject i (Callback_Arrives msg) c = (if ck_cb_subscribed c then handle_cb_msg msg c else c)"
| "ck_step str subject i Callback_Done c = consume_callback c"
| "ck_step str subject i Join_Returns c = (if pk_phase c = Waiting_Response then ck_joined c else c)"

definition ck_run :: "(exc \<Rightarrow> string) \<Rightarrow> string \<Rightarrow> string \<Rightarrow> ck_event list \<Rightarrow> callback_client \<Rightarrow> callback_client" where
  "ck_run str subject i evs c = fold (ck_step str subject i) evs c"

section \<open>Batch boundaries\<close>

text \<open>The callback messages among the events, as \<open>handle_cb_msg\<close> queues them.\<close>

fun cb_messages :: "string list \<Rightarrow> ck_event list \<Rightarrow> (string \<times> pyval) list" where
  "cb_messages methods [] = []"
| "cb_messages methods (Callback_Arrives msg # evs) =
     ck_pending (handle_cb_msg msg (start_pull_callback methods)) @ cb_messages methods evs"
| "cb_messages methods (_ # evs) = cb_messages methods evs"

lemma cb_messages_append: "cb_messages methods (xs @ ys) = cb_messages methods xs @ cb_messages methods ys"
  by (induction methods xs rule: cb_messages.induct) simp_all

lemma handle_cb_msg_pending:
  "ck_methods c = methods \<Longrightarrow>
   handle_cb_msg msg c = c\<lparr>ck_pending := ck_pending c @ ck_pending (handle_cb_msg msg (start_pull_callback methods))\<rparr>"
  by (auto simp: handle_cb_msg_def start_pull_callback_def Let_def split: pyval.split)

lemma ck_run_append: "ck_run str subject i (xs @ ys) c = ck_run str subject i ys (ck_run str subject i xs c)"
  by (simp add: ck_run_def)

text \<open>
  As long as the callback channel is subscribed its messages are done or pending, in their order;
  and it is subscribed as long as the loop runs.
\<close>

definition callbacks_ok :: "string list \<Rightarrow> ck_event list \<Rightarrow> callback_client \<Rightarrow> bool" where
  "callbacks_ok methods evs c \<longleftrightarrow> ck_methods c = methods \<and>
     (ck_cb_subscribed c \<longrightarrow> ck_ran c @ ck_pending c = cb_messages methods evs \<and> ck_consumer c) \<and>
     (pk_phase c \<in> {Initialising, Subscribing, Requesting, Waiting_Response, At_Yield} \<longrightarrow> ck_cb_subscribed c)"

lemma callbacks_ok_leave:
  "ck_methods c = methods \<Longrightarrow> callbacks_ok methods evs (ck_leave out c)"
  by (simp add: callbacks_ok_def ck_leave_def)

lemma callbacks_ok_same:
  assumes "callbacks_ok methods evs c" "ck_methods c' = ck_methods c" "ck_cb_subscribed c' = ck_cb_subscribed c"
    "ck_ran c' = ck_ran c" "ck_pending c' = ck_pending c" "ck_consumer c' = ck_consumer c"
    "pk_phase c \<in> {Initialising, Subscribing, Requesting, Waiting_Response, At_Yield} \<or> pk_phase c' = pk_phase c
      \<or> (\<exists>out. pk_phase c' = Over out)"
  shows "callbacks_ok methods evs c'"
  using assms by (auto simp: callbacks_ok_def)

lemma ck_response_keeps:
  "ck_methods (ck_response msg c) = ck_methods c" "ck_cb_subscribed (ck_response msg c) = ck_cb_subscribed c"
  "ck_ran (ck_response msg c) = ck_ran c" "ck_pending (ck_response msg c) = ck_pending c"
  "ck_consumer (ck_response msg c) = ck_consumer c" "pk_phase (ck_response msg c) = pk_phase c"
  by (cases msg; simp add: ck_response_def Let_def split: sum.split)+

lemma ck_take_cases:
  assumes "pk_queue c = d # ds"
  obtains (leave) out where "ck_take c = ck_leave out (c\<lparr>pk_queue := ds\<rparr>)"
  | (again) "ck_take c = c\<lparr>pk_queue := ds, pk_phase := Requesting\<rparr>"
  | (join) a where "ck_take c = c\<lparr>pk_queue := ds, ck_join := Some a\<rparr>"
proof -
  consider "msg_type d = PStr ''error''" "truthy (sget_or_none d ''error'')"
    | "msg_type d = PStr ''error''" "\<not> truthy (sget_or_none d ''error'')"
    | "msg_type d = PStr ''done''" | "msg_type d = PStr ''value''"
    | "msg_type d \<noteq> PStr ''error''" "msg_type d \<noteq> PStr ''done''" "msg_type d \<noteq> PStr ''value''" by blast
  then show thesis
  proof cases
    case 1
    then show thesis
      by (intro leave [of "case from_dict (sget_or_none d ''error'') of Inl e \<Rightarrow> Failed e | Inr x \<Rightarrow> Failed (RPC x)"])
         (simp add: ck_take_def assms split: sum.split)
  qed (simp_all add: ck_take_def assms leave again join)
qed

lemma callbacks_ok_step:
  assumes ok: "callbacks_ok methods evs c"
  shows "callbacks_ok methods (evs @ [ev]) (ck_step str subject i ev c)"
proof (cases ev)
  case (Callback_Arrives msg)
  have "ck_methods c = methods" using ok by (simp add: callbacks_ok_def)
  note h = handle_cb_msg_pending [OF this, of msg]
  show ?thesis
    unfolding Callback_Arrives ck_step.simps
    using ok by (subst h) (auto simp: callbacks_ok_def cb_messages_append)
next
  case Callback_Done
  then show ?thesis using ok by (cases "ck_pending c") (auto simp: callbacks_ok_def consume_callback_def cb_messages_append)
next
  case Join_Returns
  have "callbacks_ok methods evs (ck_step str subject i ev c)"
  proof (cases "pk_phase c = Waiting_Response \<and> ck_pending c = []")
    case True
    then show ?thesis
      using ok by (cases "ck_join c"; cases "the (ck_join c)")
        (auto simp: Join_Returns ck_joined_def callbacks_ok_def ck_leave_def)
  qed (use ok Join_Returns in \<open>auto simp: ck_joined_def\<close>)
  then show ?thesis by (simp add: Join_Returns callbacks_ok_def cb_messages_append)
next
  case (Consumer cev)
  have "callbacks_ok methods evs (ck_step str subject i ev c)"
  proof (cases cev)
    case Take
    show ?thesis
    proof (cases "pk_phase c = Waiting_Response \<and> ck_join c = None \<and> pk_queue c \<noteq> []")
      case True
      then obtain d ds where "pk_queue c = d # ds" by (auto simp: neq_Nil_conv)
      then show ?thesis
        by (cases rule: ck_take_cases) (use ok True in \<open>auto simp: Consumer Take callbacks_ok_def ck_leave_def\<close>)
    next
      case False
      then show ?thesis using ok by (auto simp: Consumer Take ck_take_def)
    qed
  next
    case (Init_Returns r)
    show ?thesis
      using ok by (cases r) (auto simp: Consumer Init_Returns ck_initialised_def ck_drop_def callbacks_ok_def Let_def split: pyval.split)
  next
    case (Response_Arrives msg)
    then show ?thesis using ok by (auto simp: Consumer ck_response_keeps intro: callbacks_ok_same)
  next
    case (Publish_Returns r)
    then show ?thesis
      using ok by (cases "pk_phase c"; cases r) (auto simp: Consumer ck_published_def callbacks_ok_def ck_leave_def)
  next
    case (Subscribe_Returns r)
    then show ?thesis using ok by (cases r) (auto simp: Consumer ck_subscribed_def callbacks_ok_def)
  qed (use ok Consumer in \<open>auto simp: callbacks_ok_def ck_no_responders_def ck_settle_def ck_leave_def Let_def\<close>)
  then show ?thesis by (simp add: Consumer callbacks_ok_def cb_messages_append)
qed

lemma callbacks_ok_run: "callbacks_ok methods evs (ck_run str subject i evs (start_pull_callback methods))"
proof (induction evs rule: rev_induct)
  case Nil
  then show ?case by (simp add: ck_run_def callbacks_ok_def start_pull_callback_def)
next
  case (snoc ev evs)
  from callbacks_ok_step [OF this, of ev] show ?case by (simp add: ck_run_def)
qed

text \<open>Only the return of the join brings the loop to its yield.\<close>

lemma only_join_yields:
  assumes "ev \<noteq> Join_Returns" "pk_phase c \<noteq> At_Yield"
  shows "pk_phase (ck_step str subject i ev c) \<noteq> At_Yield"
proof (cases ev)
  case (Consumer cev)
  show ?thesis
  proof (cases cev)
    case Take
    show ?thesis
    proof (cases "pk_queue c")
      case Nil
      then show ?thesis using assms by (simp add: Consumer Take ck_take_def)
    next
      case (Cons d ds)
      then show ?thesis
        by (cases rule: ck_take_cases) (use assms in \<open>auto simp: Consumer Take ck_leave_def\<close>)
    qed
  next
    case (Init_Returns r)
    then show ?thesis
      using assms by (cases r) (auto simp: Consumer ck_initialised_def ck_drop_def Let_def split: pyval.split)
  next
    case (Publish_Returns r)
    then show ?thesis
      using assms by (cases "pk_phase c"; cases r) (auto simp: Consumer ck_published_def ck_leave_def)
  next
    case (Subscribe_Returns r)
    then show ?thesis using assms by (cases r) (auto simp: Consumer ck_subscribed_def)
  qed (use assms Consumer in \<open>auto simp: ck_response_keeps ck_no_responders_def ck_settle_def ck_leave_def Let_def\<close>)
next
  case Callback_Done
  then show ?thesis using assms by (auto simp: consume_callback_def split: list.split)
next
  case (Callback_Arrives msg)
  then show ?thesis using assms by (auto simp: handle_cb_msg_def Let_def split: pyval.split)
qed (use assms in simp)


definition demo_ck :: "ck_event list \<Rightarrow> callback_client" where
  "demo_ck evs = ck_run (\<lambda>_. []) ''s'' ''i'' evs (start_pull_callback [''item''])"


end
