(* ===== verification/Streams.thy ===== *)
theory Streams
  imports Pull_Client
begin

text \<open>
  Push streams: \<open>handle_stream_request\<close> of \<open>handler.py\<close>, which publishes the values of a generator as
  they come, and \<open>_call_stream_once\<close> of \<open>client.py\<close>, which collects them in a queue for its consumer.
  Both are state machines from await to await.
\<close>

section \<open>The server\<close>

datatype stream_phase =
    S_Next
  | S_Sending pyval
  | S_Sending_End
  | S_Sending_Error exc
  | S_Closed

record 'g stream_session =
  sx_gen :: 'g
  sx_cancelled :: bool
  sx_connected :: bool
  sx_phase :: stream_phase
  sx_sent :: "stream_message list"
  sx_cancel_sub :: bool

text \<open>The generator is there and the cancel subject is subscribed.\<close>

definition open_stream :: "'g \<Rightarrow> 'g stream_session" where
  "open_stream g = \<lparr>sx_gen = g, sx_cancelled = False, sx_connected = True, sx_phase = S_Next, sx_sent = [],
     sx_cancel_sub = True\<rparr>"

definition handle_stream_request :: "pyfunc \<Rightarrow> exc + 'g returned \<Rightarrow> exc + 'g stream_session" where
  "handle_stream_request handler called =
     (case stream_generator handler called of Inl e \<Rightarrow> Inl e | Inr g \<Rightarrow> Inr (open_stream g))"

definition stream_error_dict :: "(exc \<Rightarrow> string) \<Rightarrow> exc \<Rightarrow> (pyval \<times> pyval) list" where
  "stream_error_dict str e = (case e of
      RPC r \<Rightarrow> to_dict r
    | _ \<Rightarrow> [(PStr ''code'', PStr (code_value STREAM_ERROR)), (PStr ''message'', PStr (str e))])"

text \<open>The \<open>finally\<close> clause: unsubscribe and close the generator.\<close>

definition stream_finally :: "('g \<Rightarrow> exc option \<times> 'g) \<Rightarrow> 'g stream_session \<Rightarrow> 'g stream_session" where
  "stream_finally aclose s = s\<lparr>sx_cancel_sub := False, sx_gen := snd (aclose (sx_gen s)), sx_phase := S_Closed\<rparr>"

definition stream_except :: "('g \<Rightarrow> exc option \<times> 'g) \<Rightarrow> exc \<Rightarrow> 'g stream_session \<Rightarrow> 'g stream_session" where
  "stream_except aclose e s =
     (if \<not> sx_cancelled s \<and> sx_connected s then s\<lparr>sx_phase := S_Sending_Error e\<rparr> else stream_finally aclose s)"

text \<open>The loop gets the next value, the end or an exception of the generator.\<close>

definition stream_resumes :: "('g \<Rightarrow> gen_event \<times> 'g) \<Rightarrow> ('g \<Rightarrow> exc option \<times> 'g) \<Rightarrow> 'g stream_session \<Rightarrow> 'g stream_session" where
  "stream_resumes anext aclose s =
     (if sx_phase s \<noteq> S_Next then s
      else
        (case anext (sx_gen s) of
           (Yields v, g) \<Rightarrow>
             if sx_cancelled s \<or> \<not> sx_connected s then stream_finally aclose (s\<lparr>sx_gen := g\<rparr>)
             else s\<lparr>sx_gen := g, sx_phase := S_Sending v\<rparr>
         | (Stops, g) \<Rightarrow>
             if \<not> sx_cancelled s \<and> sx_connected s then s\<lparr>sx_gen := g, sx_phase := S_Sending_End\<rparr>
             else stream_finally aclose (s\<lparr>sx_gen := g\<rparr>)
         | (Raises e, g) \<Rightarrow> stream_except aclose e (s\<lparr>sx_gen := g\<rparr>)))"

definition stream_published :: "(exc \<Rightarrow> string) \<Rightarrow> ('g \<Rightarrow> exc option \<times> 'g) \<Rightarrow> exc option \<Rightarrow> 'g stream_session
    \<Rightarrow> 'g stream_session" where
  "stream_published str aclose r s =
     (case sx_phase s of
        S_Sending v \<Rightarrow>
          (case r of
             None \<Rightarrow> s\<lparr>sx_sent := sx_sent s @ [Stream_Data v], sx_phase := S_Next\<rparr>
           | Some e \<Rightarrow> stream_except aclose e s)
      | S_Sending_End \<Rightarrow>
          (case r of
             None \<Rightarrow> stream_finally aclose (s\<lparr>sx_sent := sx_sent s @ [Stream_End]\<rparr>)
           | Some e \<Rightarrow> stream_except aclose e s)
      | S_Sending_Error x \<Rightarrow>
          (case r of
             None \<Rightarrow> stream_finally aclose (s\<lparr>sx_sent := sx_sent s @ [Stream_Error (stream_error_dict str x)]\<rparr>)
           | Some e \<Rightarrow> stream_finally aclose s)
      | _ \<Rightarrow> s)"

datatype stream_event = Stream_Resumes | Stream_Published "exc option" | Stream_Cancelled | Stream_Connection bool

fun stream_step :: "(exc \<Rightarrow> string) \<Rightarrow> ('g \<Rightarrow> gen_event \<times> 'g) \<Rightarrow> ('g \<Rightarrow> exc option \<times> 'g) \<Rightarrow> stream_event
    \<Rightarrow> 'g stream_session \<Rightarrow> 'g stream_session" where
  "stream_step str anext aclose Stream_Resumes s = stream_resumes anext aclose s"
| "stream_step str anext aclose (Stream_Published r) s = stream_published str aclose r s"
| "stream_step str anext aclose Stream_Cancelled s = (if sx_cancel_sub s then s\<lparr>sx_cancelled := True\<rparr> else s)"
| "stream_step str anext aclose (Stream_Connection b) s = s\<lparr>sx_connected := b\<rparr>"

definition stream_run :: "(exc \<Rightarrow> string) \<Rightarrow> ('g \<Rightarrow> gen_event \<times> 'g) \<Rightarrow> ('g \<Rightarrow> exc option \<times> 'g) \<Rightarrow> stream_event list
    \<Rightarrow> 'g stream_session \<Rightarrow> 'g stream_session" where
  "stream_run str anext aclose evs s = fold (stream_step str anext aclose) evs s"

lemmas stream_defs = stream_finally_def stream_except_def stream_resumes_def stream_published_def

section \<open>The client\<close>

datatype stream_consumer_phase = SC_Publishing | SC_Waiting | SC_Yield | SC_Over outcome

text \<open>
  The variables of one \<open>_call_stream_once\<close>: \<open>sc_handler\<close> is the entry in \<open>stream_handlers\<close>, \<open>sc_status\<close>
  that in \<open>status_handlers\<close>, \<open>sc_cancels\<close> counts the cancel messages. The queue holds values, with
  \<open>None\<close> as the end marker.
\<close>

record stream_client =
  sc_queue :: "pyval list"
  sc_ended :: bool
  sc_error :: "exc option"
  sc_handler :: bool
  sc_status :: bool
  sc_subscribed :: bool
  sc_cancels :: nat
  sc_phase :: stream_consumer_phase
  sc_yielded :: "pyval list"

definition stream_subject :: "string \<Rightarrow> string \<Rightarrow> string" where
  "stream_subject subject request_id = ''stream.'' @ subject @ ''.'' @ request_id"

definition stream_request :: "string \<Rightarrow> string \<Rightarrow> pyval list \<Rightarrow> pyval" where
  "stream_request request_id subject args = PDict [(PStr ''id'', PStr request_id), (PStr ''method'', PStr ''stream''),
     (PStr ''params'', PDict [(PStr ''__stream'', PBool True),
        (PStr ''__streamSubject'', PStr (stream_subject subject request_id)), (PStr ''args'', PTuple args)])]"

text \<open>Subscribed, both handlers registered, and the request on its way.\<close>

definition start_stream :: stream_client where
  "start_stream = \<lparr>sc_queue = [], sc_ended = False, sc_error = None, sc_handler = True, sc_status = True,
     sc_subscribed = True, sc_cancels = 0, sc_phase = SC_Publishing, sc_yielded = []\<rparr>"

definition on_push :: "pyval \<Rightarrow> stream_client \<Rightarrow> stream_client" where
  "on_push v c = (if sc_ended c then c else c\<lparr>sc_queue := sc_queue c @ [v]\<rparr>)"

definition on_end :: "stream_client \<Rightarrow> stream_client" where
  "on_end c = c\<lparr>sc_ended := True, sc_queue := sc_queue c @ [PNone]\<rparr>"

definition on_error :: "exc \<Rightarrow> stream_client \<Rightarrow> stream_client" where
  "on_error e c = c\<lparr>sc_error := Some e, sc_ended := True, sc_queue := sc_queue c @ [PNone]\<rparr>"

definition stream_unsubscribe :: "stream_client \<Rightarrow> stream_client" where
  "stream_unsubscribe c =
     (let c = c\<lparr>sc_handler := False, sc_status := False, sc_subscribed := False\<rparr>
      in if sc_ended c then c else c\<lparr>sc_ended := True, sc_cancels := Suc (sc_cancels c)\<rparr>)"

definition handle_stream_message :: "string \<Rightarrow> pyval \<Rightarrow> stream_client \<Rightarrow> stream_client" where
  "handle_stream_message request_id msg c =
     (case msg of
        PDict d \<Rightarrow>
          if sget_or_none d ''id'' \<noteq> PStr request_id then c
          else if \<not> sc_handler c then c
          else if msg_type d = PStr ''data'' then on_push (sget_or_none d ''data'') c
          else if msg_type d = PStr ''end'' then stream_unsubscribe (on_end c)
          else if msg_type d = PStr ''error'' then
            (case from_dict (sget_or_none d ''error'') of
               Inl e \<Rightarrow> c
             | Inr x \<Rightarrow> stream_unsubscribe (on_error (RPC x) c))
          else c
      | _ \<Rightarrow> c)"

text \<open>The status handler, which the inbox has removed before it runs.\<close>

definition stream_no_responders :: "string \<Rightarrow> stream_client \<Rightarrow> stream_client" where
  "stream_no_responders subject c =
     (let c = c\<lparr>sc_status := False\<rparr>
      in if sc_handler c then on_error (NoResponders subject) c else c)"

text \<open>Disconnect and suspend: every stream handler's \<open>end()\<close> is called, then the registry is cleared.\<close>

definition stream_teardown :: "stream_client \<Rightarrow> stream_client" where
  "stream_teardown c =
     (let c = c\<lparr>sc_status := False\<rparr>
      in if sc_handler c then (on_end c)\<lparr>sc_handler := False\<rparr> else c)"

text \<open>The head of the generator's loop, up to \<open>queue.get()\<close>.\<close>

definition stream_loop :: "stream_client \<Rightarrow> stream_client" where
  "stream_loop c = (case sc_error c of
      Some e \<Rightarrow> (stream_unsubscribe c)\<lparr>sc_phase := SC_Over (Failed e)\<rparr>
    | None \<Rightarrow> c\<lparr>sc_phase := SC_Waiting\<rparr>)"

definition stream_request_published :: "exc option \<Rightarrow> stream_client \<Rightarrow> stream_client" where
  "stream_request_published r c = (case r of
      None \<Rightarrow> stream_loop c
    | Some e \<Rightarrow> (stream_unsubscribe c)\<lparr>sc_phase := SC_Over (Failed e)\<rparr>)"

definition stream_take :: "stream_client \<Rightarrow> stream_client" where
  "stream_take c =
     (case sc_queue c of
        [] \<Rightarrow> c
      | v # vs \<Rightarrow>
          let c = c\<lparr>sc_queue := vs\<rparr>
          in if v = PNone
             then (case sc_error c of
                     Some e \<Rightarrow> (stream_unsubscribe c)\<lparr>sc_phase := SC_Over (Failed e)\<rparr>
                   | None \<Rightarrow> (stream_unsubscribe c)\<lparr>sc_phase := SC_Over Ended\<rparr>)
             else c\<lparr>sc_yielded := sc_yielded c @ [v], sc_phase := SC_Yield\<rparr>)"

text \<open>
  The consumer goes away: \<open>GeneratorExit\<close> and \<open>CancelledError\<close> are no \<open>Exception\<close>, so neither
  handler of the generator runs. An exception thrown in at the yield does unsubscribe.
\<close>

datatype stream_client_event =
    SC_Published "exc option"
  | SC_Message pyval
  | SC_No_Responders
  | SC_Teardown
  | SC_Take
  | SC_Resume
  | SC_Leave
  | SC_Throw exc

fun stream_client_step :: "string \<Rightarrow> string \<Rightarrow> stream_client_event \<Rightarrow> stream_client \<Rightarrow> stream_client" where
  "stream_client_step subject rid (SC_Published r) c =
     (if sc_phase c = SC_Publishing then stream_request_published r c else c)"
| "stream_client_step subject rid (SC_Message msg) c = (if sc_subscribed c then handle_stream_message rid msg c else c)"
| "stream_client_step subject rid SC_No_Responders c = (if sc_status c then stream_no_responders subject c else c)"
| "stream_client_step subject rid SC_Teardown c = stream_teardown c"
| "stream_client_step subject rid SC_Take c = (if sc_phase c = SC_Waiting then stream_take c else c)"
| "stream_client_step subject rid SC_Resume c = (if sc_phase c = SC_Yield then stream_loop c else c)"
| "stream_client_step subject rid SC_Leave c =
     (if sc_phase c = SC_Yield \<or> sc_phase c = SC_Waiting then c\<lparr>sc_phase := SC_Over Left\<rparr> else c)"
| "stream_client_step subject rid (SC_Throw e) c =
     (if sc_phase c = SC_Yield then (stream_unsubscribe c)\<lparr>sc_phase := SC_Over (Failed e)\<rparr> else c)"

lemmas stream_client_defs =
  on_push_def on_end_def on_error_def stream_unsubscribe_def handle_stream_message_def stream_no_responders_def
  stream_teardown_def stream_loop_def stream_request_published_def stream_take_def

section \<open>Messages of a stream\<close>

fun stream_terminal :: "stream_message \<Rightarrow> bool" where
  "stream_terminal (Stream_Data _) = False"
| "stream_terminal _ = True"

definition stream_ok :: "('g \<Rightarrow> gen_event \<times> 'g) \<Rightarrow> 'g \<Rightarrow> 'g stream_session \<Rightarrow> pyval list \<Rightarrow> stream_message list \<Rightarrow> bool" where
  "stream_ok anext g0 s vs ts \<longleftrightarrow>
     sx_sent s = map Stream_Data vs @ ts \<and> length ts \<le> 1 \<and> list_all stream_terminal ts \<and>
     vs = gen_values anext g0 (length vs) \<and>
     (case sx_phase s of
        S_Next \<Rightarrow> ts = [] \<and> sx_cancel_sub s \<and> sx_gen s = gen_after anext g0 (length vs)
      | S_Sending v \<Rightarrow> ts = [] \<and> sx_cancel_sub s \<and> anext (gen_after anext g0 (length vs)) = (Yields v, sx_gen s)
      | S_Closed \<Rightarrow> \<not> sx_cancel_sub s
      | _ \<Rightarrow> ts = [] \<and> sx_cancel_sub s)"

lemma stream_finally_ok:
  "stream_ok anext g0 s vs ts \<Longrightarrow> stream_ok anext g0 (stream_finally aclose s) vs ts"
  by (simp add: stream_ok_def stream_finally_def)

lemma stream_run_simps [simp]:
  "stream_run str anext aclose [] s = s"
  "stream_run str anext aclose (ev # evs) s = stream_run str anext aclose evs (stream_step str anext aclose ev s)"
  by (simp_all add: stream_run_def)

lemma stream_ok_step:
  assumes "stream_ok anext g0 s vs ts"
  shows "\<exists>vs ts. stream_ok anext g0 (stream_step str anext aclose ev s) vs ts"
proof (cases ev)
  case Stream_Resumes
  show ?thesis
  proof (cases "sx_phase s = S_Next")
    case True
    have "stream_ok anext g0 (stream_step str anext aclose ev s) vs ts"
      using assms True by (cases "anext (sx_gen s)"; cases "fst (anext (sx_gen s))")
        (simp_all add: Stream_Resumes stream_resumes_def stream_except_def stream_finally_def stream_ok_def)
    then show ?thesis by blast
  qed (use assms Stream_Resumes in \<open>auto simp: stream_resumes_def\<close>)
next
  case (Stream_Published r)
  show ?thesis
  proof (cases "sx_phase s")
    case (S_Sending v)
    show ?thesis
    proof (cases r)
      case None
      have "stream_ok anext g0 (stream_step str anext aclose ev s) (vs @ [v]) []"
        using assms S_Sending None gen_values_Suc [of anext g0 "length vs"] gen_after_Suc [of anext g0 "length vs"]
        by (auto simp: Stream_Published stream_ok_def stream_published_def)
      then show ?thesis by blast
    next
      case (Some e)
      have "stream_ok anext g0 (stream_step str anext aclose ev s) vs ts"
        using assms S_Sending Some by (simp add: Stream_Published stream_ok_def stream_published_def stream_except_def stream_finally_def)
      then show ?thesis by blast
    qed
  next
    case S_Sending_End
    have "stream_ok anext g0 (stream_step str anext aclose ev s) vs (if r = None then [Stream_End] else [])"
      using assms S_Sending_End by (cases r)
        (simp_all add: Stream_Published stream_ok_def stream_published_def stream_except_def stream_finally_def)
    then show ?thesis by blast
  next
    case (S_Sending_Error x)
    have "stream_ok anext g0 (stream_step str anext aclose ev s) vs
        (if r = None then [Stream_Error (stream_error_dict str x)] else [])"
      using assms S_Sending_Error by (cases r)
        (simp_all add: Stream_Published stream_ok_def stream_published_def stream_except_def stream_finally_def)
    then show ?thesis by blast
  qed (use assms Stream_Published in \<open>auto simp: stream_published_def\<close>)
next
  case Stream_Cancelled
  have "stream_ok anext g0 (stream_step str anext aclose ev s) vs ts"
    using assms by (cases "sx_phase s") (simp_all add: Stream_Cancelled stream_ok_def)
  then show ?thesis by blast
next
  case (Stream_Connection b)
  have "stream_ok anext g0 (stream_step str anext aclose ev s) vs ts"
    using assms by (cases "sx_phase s") (simp_all add: Stream_Connection stream_ok_def)
  then show ?thesis by blast
qed

lemma stream_ok_run:
  "stream_ok anext g0 s vs ts \<Longrightarrow> \<exists>vs ts. stream_ok anext g0 (stream_run str anext aclose evs s) vs ts"
proof (induction evs arbitrary: s vs ts)
  case (Cons ev evs)
  then show ?case using stream_ok_step [OF Cons.prems, of str aclose ev] by fastforce
qed auto

text \<open>
  C26. The messages of a stream, whatever cancels, lost connections and failing publishes come in
  between: the generator's first values in order, none left out, then at most one end or error; and
  the handler leaves its cancel subscription exactly when it is done.
\<close>

theorem stream_messages:
  "\<exists>vs ts. sx_sent (stream_run str anext aclose evs (open_stream g)) = map Stream_Data vs @ ts \<and>
     vs = gen_values anext g (length vs) \<and> length ts \<le> 1 \<and> list_all stream_terminal ts \<and>
     (sx_cancel_sub (stream_run str anext aclose evs (open_stream g))
        = (sx_phase (stream_run str anext aclose evs (open_stream g)) \<noteq> S_Closed))"
proof -
  have "stream_ok anext g (open_stream g) [] []" by (simp add: stream_ok_def open_stream_def)
  from stream_ok_run [OF this, of str aclose evs] obtain vs ts
    where "stream_ok anext g (stream_run str anext aclose evs (open_stream g)) vs ts" by blast
  then show ?thesis
    by (cases "sx_phase (stream_run str anext aclose evs (open_stream g))") (auto simp: stream_ok_def)
qed

end
