(* ===== verification/Codec_Correct.thy ===== *)
theory Codec_Correct
  imports Codec
begin

text \<open>
  The correctness of \<open>codec.py\<close>: the contract of the restoring passes (placeholders in
  traversal order, filled from a table of segments), the decoder against it for any frame whose
  segments are numbered in any order, the encoder's output, and the round trip.
\<close>

section \<open>What a message looks like on the other side\<close>

text \<open>
  msgpack knows one sequence type and one binary type: it decodes a tuple as a list, and a
  bytearray or a memoryview as bytes. \<open>mp_norm\<close> is that documented effect of a pack/unpack
  round trip on a value; \<open>wire_view\<close> is what \<open>decode_message\<close> is to deliver for a
  value that was sent with \<open>encode_message\<close>: the same, with every large binary as a memoryview.
\<close>

fun mp_norm :: "pyval \<Rightarrow> pyval"
  and mp_norm_items :: "(pyval \<times> pyval) list \<Rightarrow> (pyval \<times> pyval) list"
  and mp_norm_elems :: "pyval list \<Rightarrow> pyval list"
where
  "mp_norm (PDict d) = PDict (mp_norm_items d)"
| "mp_norm (PList xs) = PList (mp_norm_elems xs)"
| "mp_norm (PTuple xs) = PList (mp_norm_elems xs)"
| "mp_norm (PByteArray b) = PBytes b"
| "mp_norm (PView b) = PBytes b"
| "mp_norm v = v"
| "mp_norm_items [] = []"
| "mp_norm_items ((k, x) # d) = (k, mp_norm x) # mp_norm_items d"
| "mp_norm_elems [] = []"
| "mp_norm_elems (x # xs) = mp_norm x # mp_norm_elems xs"

fun wire_view :: "pyval \<Rightarrow> pyval"
  and wire_items :: "(pyval \<times> pyval) list \<Rightarrow> (pyval \<times> pyval) list"
  and wire_elems :: "pyval list \<Rightarrow> pyval list"
where
  "wire_view (PDict d) = PDict (wire_items d)"
| "wire_view (PList xs) = PList (wire_elems xs)"
| "wire_view (PTuple xs) = PList (wire_elems xs)"
| "wire_view v = (case as_extractable_segment v of Some b \<Rightarrow> PView b | None \<Rightarrow> mp_norm v)"
| "wire_items [] = []"
| "wire_items ((k, x) # d) = (k, wire_view x) # wire_items d"
| "wire_elems [] = []"
| "wire_elems (x # xs) = wire_view x # wire_elems xs"

lemmas value_induct = mp_norm_mp_norm_items_mp_norm_elems.induct

text \<open>
  The placeholders of an envelope in traversal order, and the envelope with the placeholders
  of a table of segments filled in: the contract of the three restoring passes.
\<close>

fun phs :: "pyval \<Rightarrow> (nat \<times> nat) list"
  and phs_items :: "(pyval \<times> pyval) list \<Rightarrow> (nat \<times> nat) list"
  and phs_elems :: "pyval list \<Rightarrow> (nat \<times> nat) list"
where
  "phs (PDict d) = (case placeholder_of (PDict d) of Some p \<Rightarrow> [p] | None \<Rightarrow> phs_items d)"
| "phs (PList xs) = phs_elems xs"
| "phs v = []"
| "phs_items [] = []"
| "phs_items ((k, x) # d) = phs x @ phs_items d"
| "phs_elems [] = []"
| "phs_elems (x # xs) = phs x @ phs_elems xs"

fun fill :: "(nat \<Rightarrow> bytes option) \<Rightarrow> pyval \<Rightarrow> pyval"
  and fill_items :: "(nat \<Rightarrow> bytes option) \<Rightarrow> (pyval \<times> pyval) list \<Rightarrow> (pyval \<times> pyval) list"
  and fill_elems :: "(nat \<Rightarrow> bytes option) \<Rightarrow> pyval list \<Rightarrow> pyval list"
where
  "fill S (PDict d) =
     (case placeholder_of (PDict d) of
        Some (i, n) \<Rightarrow> (case S i of Some b \<Rightarrow> PView b | None \<Rightarrow> PDict d)
      | None \<Rightarrow> PDict (fill_items S d))"
| "fill S (PList xs) = PList (fill_elems S xs)"
| "fill S v = v"
| "fill_items S [] = []"
| "fill_items S ((k, x) # d) = (k, fill S x) # fill_items S d"
| "fill_elems S [] = []"
| "fill_elems S (x # xs) = fill S x # fill_elems S xs"

text \<open>How many leading placeholders carry the indices \<open>k, k + 1, ...\<close>.\<close>

fun lead :: "nat \<Rightarrow> (nat \<times> nat) list \<Rightarrow> nat" where
  "lead k [] = 0"
| "lead k ((i, n) # ps) = (if i = k then Suc (lead (Suc k) ps) else 0)"

lemma lead_le: "lead k ps \<le> length ps"
  by (induction k ps rule: lead.induct) auto

lemma lead_append:
  "lead k (ps @ qs) = (if lead k ps = length ps then length ps + lead (k + length ps) qs else lead k ps)"
  by (induction k ps rule: lead.induct) auto

lemma lead_take: "map fst (take (lead k ps) ps) = [k ..< k + lead k ps]"
proof (induction k ps rule: lead.induct)
  case (2 k i n ps)
  then show ?case by (auto simp: upt_rec [of k])
qed simp

lemma not_container_no_phs: "\<not> is_dict_or_list x \<Longrightarrow> phs x = [] \<and> fill S x = x"
  by (cases x) auto

lemma fill_items_length [simp]: "length (fill_items S d) = length d"
  by (induction d) auto

text \<open>Filling a map's values never makes the map itself a placeholder.\<close>

lemma sget_Cons_any:
  "sget ((k', x) # d) k = (if k' = PStr k then Some x else sget d k)"
  by (auto simp: sget_def)

lemma sget_fill_items: "sget (fill_items S d) k = map_option (fill S) (sget d k)"
  by (induction d) (auto simp: sget_Cons_any)

lemma fill_eq_PInt [simp]: "fill S x = PInt i \<longleftrightarrow> x = PInt i"
  by (cases x) (auto split: option.splits)

lemma placeholder_of_Some_iff:
  "placeholder_of (PDict d) = Some (i, n) \<longleftrightarrow>
    length d = 2 \<and> sget d PLACEHOLDER_KEY = Some (PInt (int i)) \<and> sget d ''l'' = Some (PInt (int n))"
  by (auto split: if_splits option.splits pyval.splits)

declare placeholder_of.simps(1) [simp del]

lemma placeholder_of_fill_items [simp]:
  "placeholder_of (PDict (fill_items S d)) = placeholder_of (PDict d)"
proof -
  have "placeholder_of (PDict (fill_items S d)) = Some p \<longleftrightarrow> placeholder_of (PDict d) = Some p" for p
    by (cases p) (auto simp: placeholder_of_Some_iff sget_fill_items)
  then show ?thesis by (metis option.exhaust)
qed

text \<open>Filling: nothing to fill, two fillings in a row, what is left after a filling.\<close>

lemma fill_none:
  "(\<forall>p \<in> set (phs v). S (fst p) = None) \<Longrightarrow> fill S v = v"
  "(\<forall>p \<in> set (phs_items d). S (fst p) = None) \<Longrightarrow> fill_items S d = d"
  "(\<forall>p \<in> set (phs_elems xs). S (fst p) = None) \<Longrightarrow> fill_elems S xs = xs"
  by (induction v and d and xs rule: value_induct) (auto split: option.splits)

lemma fill_cong:
  "(\<forall>p \<in> set (phs v). S (fst p) = S' (fst p)) \<Longrightarrow> fill S v = fill S' v"
  "(\<forall>p \<in> set (phs_items d). S (fst p) = S' (fst p)) \<Longrightarrow> fill_items S d = fill_items S' d"
  "(\<forall>p \<in> set (phs_elems xs). S (fst p) = S' (fst p)) \<Longrightarrow> fill_elems S xs = fill_elems S' xs"
  by (induction v and d and xs rule: value_induct) (auto split: option.splits)

lemma fill_fill:
  "fill S' (fill S v) = fill (\<lambda>i. case S i of Some b \<Rightarrow> Some b | None \<Rightarrow> S' i) v"
  "fill_items S' (fill_items S d) = fill_items (\<lambda>i. case S i of Some b \<Rightarrow> Some b | None \<Rightarrow> S' i) d"
  "fill_elems S' (fill_elems S xs) = fill_elems (\<lambda>i. case S i of Some b \<Rightarrow> Some b | None \<Rightarrow> S' i) xs"
  by (induction v and d and xs rule: value_induct) (auto split: option.splits)

lemma phs_fill:
  "phs (fill S v) = filter (\<lambda>p. S (fst p) = None) (phs v)"
  "phs_items (fill_items S d) = filter (\<lambda>p. S (fst p) = None) (phs_items d)"
  "phs_elems (fill_elems S xs) = filter (\<lambda>p. S (fst p) = None) (phs_elems xs)"
  by (induction v and d and xs rule: value_induct) (auto split: option.splits)

section \<open>The sequential pass\<close>

lemma restore_out_of_order:
  "rs_out_of_order st \<Longrightarrow> restore_sequential data v st = Inr (v, st)"
  "rs_out_of_order st \<Longrightarrow> restore_items data d st = Inr (d, st)"
  "rs_out_of_order st \<Longrightarrow> restore_elems data xs st = Inr (xs, st)"
  by (induction v and d and xs rule: value_induct) (auto split: option.splits)


text \<open>
  What a successful sequential pass does to the cursor, whatever the data: it consumes the
  leading placeholders in index order, and the remaining ones stay in the envelope.
\<close>

definition st_after :: "(nat \<times> nat) list \<Rightarrow> restore_state \<Rightarrow> restore_state" where
  "st_after ps st =
     (let k = lead (rs_next st) ps
      in \<lparr>rs_offset = rs_offset st + sum_list (map snd (take k ps)),
          rs_next = rs_next st + k,
          rs_out_of_order = (k < length ps)\<rparr>)"

lemma st_after_Nil: "\<not> rs_out_of_order st \<Longrightarrow> st_after [] st = st"
  by (simp add: st_after_def)

lemma st_after_append_full:
  "\<not> rs_out_of_order (st_after ps st) \<Longrightarrow> st_after qs (st_after ps st) = st_after (ps @ qs) st"
  using lead_le [of "rs_next st" ps]
  by (auto simp: st_after_def Let_def lead_append)

lemma st_after_append_part:
  "rs_out_of_order (st_after ps st) \<Longrightarrow> st_after (ps @ qs) st = st_after ps st"
  using lead_le [of "rs_next st" ps]
  by (auto simp: st_after_def Let_def lead_append)

lemma drop_lead_append:
  "drop (lead k (ps @ qs)) (ps @ qs) =
    (if lead k ps = length ps then drop (lead (k + length ps) qs) qs else drop (lead k ps) ps @ qs)"
  using lead_le [of k ps] by (auto simp: lead_append)


lemma restore_container:
  assumes "is_dict_or_list x" "restore_sequential data x st = Inr (x', st')"
  shows "x' \<noteq> PInt i \<and> x \<noteq> PInt i"
proof (cases x)
  case (PDict d)
  then show ?thesis
    using assms by (auto simp: Let_def split: option.splits prod.splits if_splits sum.splits)
next
  case (PList xs)
  then show ?thesis
    using assms by (auto split: sum.splits)
qed (use assms in simp_all)

lemma restore_items_ints:
  "restore_items data d st = Inr (d', st') \<Longrightarrow>
     length d' = length d \<and> (sget d' k = Some (PInt i) \<longleftrightarrow> sget d k = Some (PInt i))"
proof (induction d arbitrary: d' st)
  case (Cons p d)
  obtain k' x where p: "p = (k', x)" by fastforce
  from Cons.prems obtain x' st1 d1 where
    x: "(if is_dict_or_list x then restore_sequential data x st else Inr (x, st)) = Inr (x', st1)"
    and d: "restore_items data d st1 = Inr (d1, st')" and d': "d' = (k', x') # d1"
    by (auto simp: p split: sum.splits prod.splits)
  from x have "x' = PInt i \<longleftrightarrow> x = PInt i"
    by (auto split: if_splits dest: restore_container)
  with Cons.IH [OF d] show ?case by (auto simp: p d' sget_Cons_any)
qed simp

lemma placeholder_of_restored:
  assumes "restore_items data d st = Inr (d', st')"
  shows "placeholder_of (PDict d') = placeholder_of (PDict d)"
proof -
  have "placeholder_of (PDict d') = Some p \<longleftrightarrow> placeholder_of (PDict d) = Some p" for p
    using restore_items_ints [OF assms] by (cases p) (simp add: placeholder_of_Some_iff)
  then show ?thesis by (metis option.exhaust)
qed

text \<open>One element and then the rest: the two ways a traversal goes on.\<close>

lemma restore_then:
  assumes x: "st1 = st_after ps st \<and> phx = drop (lead (rs_next st) ps) ps"
    and rest: "\<not> rs_out_of_order st1 \<Longrightarrow>
      st2 = st_after qs st1 \<and> phr = drop (lead (rs_next st1) qs) qs"
    and stop: "rs_out_of_order st1 \<Longrightarrow> st2 = st1 \<and> phr = qs"
  shows "st2 = st_after (ps @ qs) st \<and>
    phx @ phr = drop (lead (rs_next st) (ps @ qs)) (ps @ qs)"
proof (cases "rs_out_of_order st1")
  case True
  then have "lead (rs_next st) ps < length ps"
    using x by (simp add: st_after_def Let_def)
  with True x stop [OF True] show ?thesis
    by (simp add: st_after_append_part drop_lead_append del: drop_append)
next
  case False
  then have full: "lead (rs_next st) ps = length ps"
    using x lead_le [of "rs_next st" ps] by (simp add: st_after_def Let_def)
  then have "rs_next st1 = rs_next st + length ps"
    using x by (simp add: st_after_def Let_def)
  with False x rest [OF False] full show ?thesis
    by (simp add: st_after_append_full drop_lead_append del: drop_append)
qed

lemma restore_cursor:
  "\<not> rs_out_of_order st \<Longrightarrow> restore_sequential data v st = Inr (v', st') \<Longrightarrow>
     st' = st_after (phs v) st \<and> phs v' = drop (lead (rs_next st) (phs v)) (phs v)"
  "\<not> rs_out_of_order st \<Longrightarrow> restore_items data d st = Inr (d', st') \<Longrightarrow>
     st' = st_after (phs_items d) st \<and> phs_items d' = drop (lead (rs_next st) (phs_items d)) (phs_items d)"
  "\<not> rs_out_of_order st \<Longrightarrow> restore_elems data xs st = Inr (xs', st') \<Longrightarrow>
     st' = st_after (phs_elems xs) st \<and> phs_elems xs' = drop (lead (rs_next st) (phs_elems xs)) (phs_elems xs)"
proof (induction v and d and xs arbitrary: st v' st' and st d' st' and st xs' st' rule: value_induct)
  case (1 d)
  show ?case
  proof (cases "placeholder_of (PDict d)")
    case None
    then obtain d' where d': "restore_items data d st = Inr (d', st')" "v' = PDict d'"
      using 1 by (auto split: sum.splits)
    with 1 None show ?thesis by (simp add: placeholder_of_restored [OF d'(1)])
  next
    case (Some p)
    obtain i n where p: "p = (i, n)" by fastforce
    show ?thesis
    proof (cases "i = rs_next st")
      case True
      with "1.prems" Some show ?thesis
        by (auto simp: p st_after_def Let_def split: if_splits)
    next
      case False
      with "1.prems" Some show ?thesis
        by (auto simp: p st_after_def Let_def)
    qed
  qed
next
  case (2 xs)
  from "2.prems"(2) obtain xs' where xs': "restore_elems data xs st = Inr (xs', st')" "v' = PList xs'"
    by (auto split: sum.splits)
  from "2.IH" [OF "2.prems"(1) xs'(1)] show ?case by (simp add: xs'(2))
next
  case (8 k x d)
  obtain x' st1 d1 where
    x: "(if is_dict_or_list x then restore_sequential data x st else Inr (x, st)) = Inr (x', st1)"
    and d: "restore_items data d st1 = Inr (d1, st')" and d': "d' = (k, x') # d1"
    using "8.prems" by (auto split: sum.splits prod.splits)
  have "st1 = st_after (phs x) st \<and> phs x' = drop (lead (rs_next st) (phs x)) (phs x)"
    using "8.IH"(1) "8.prems" x by (auto simp: not_container_no_phs st_after_Nil split: if_splits)
  then show ?case
    using restore_then [where phr = "phs_items d1" and qs = "phs_items d" and ?st2.0 = st']
      "8.IH"(2) [OF _ d] d restore_out_of_order(2) [of st1 data d]
    by (auto simp: d')
next
  case (10 x xs)
  obtain x' st1 xs1 where
    x: "(if is_dict_or_list x then restore_sequential data x st else Inr (x, st)) = Inr (x', st1)"
    and d: "restore_elems data xs st1 = Inr (xs1, st')" and d': "xs' = x' # xs1"
    using "10.prems" by (auto split: sum.splits prod.splits)
  have "st1 = st_after (phs x) st \<and> phs x' = drop (lead (rs_next st) (phs x)) (phs x)"
    using "10.IH"(1) "10.prems" x by (auto simp: not_container_no_phs st_after_Nil split: if_splits)
  then show ?case
    using restore_then [where phr = "phs_elems xs1" and qs = "phs_elems xs" and ?st2.0 = st']
      "10.IH"(2) [OF _ d] d restore_out_of_order(3) [of st1 data xs]
    by (auto simp: d')
qed (auto simp: st_after_Nil)


section \<open>Restoring the segments of a frame\<close>

text \<open>
  The segments of a frame lie back to back after a prefix; the cursor at segment \<open>k\<close> stands
  at the end of the first \<open>k\<close> of them. A placeholder fits the segments when it names one of
  them and carries its length.
\<close>

definition seg_offset :: "bytes \<Rightarrow> bytes list \<Rightarrow> nat \<Rightarrow> nat" where
  "seg_offset pre segs k = length pre + length (concat (take k segs))"

definition seg_table :: "bytes list \<Rightarrow> nat \<Rightarrow> nat \<Rightarrow> bytes option" where
  "seg_table segs m i = (if i < m then Some (segs ! i) else None)"

definition ph_fits :: "bytes list \<Rightarrow> nat \<times> nat \<Rightarrow> bool" where
  "ph_fits segs p \<longleftrightarrow> fst p < length segs \<and> snd p = length (segs ! fst p)"

definition at_segment :: "bytes \<Rightarrow> bytes list \<Rightarrow> restore_state \<Rightarrow> bool" where
  "at_segment pre segs st \<longleftrightarrow> \<not> rs_out_of_order st \<and> rs_next st \<le> length segs \<and>
     rs_offset st = seg_offset pre segs (rs_next st)"

lemma seg_offset_Suc:
  "k < length segs \<Longrightarrow> seg_offset pre segs (Suc k) = seg_offset pre segs k + length (segs ! k)"
  by (simp add: seg_offset_def take_Suc_conv_app_nth)

lemma seg_slice:
  assumes "k < length segs"
  shows "slice (seg_offset pre segs k) (seg_offset pre segs (Suc k)) (pre @ concat segs) = segs ! k"
proof -
  have "concat segs = concat (take k segs) @ segs ! k @ concat (drop (Suc k) segs)"
    by (metis append_take_drop_id assms concat.simps(2) concat_append Cons_nth_drop_Suc)
  then show ?thesis
    using slice_append_mid [of "pre @ concat (take k segs)" "segs ! k" "concat (drop (Suc k) segs)"]
    by (simp add: seg_offset_Suc [OF assms]) (simp add: seg_offset_def add.assoc)
qed

lemma seg_offset_bound:
  "k \<le> length segs \<Longrightarrow> seg_offset pre segs k \<le> length (pre @ concat segs)"
  by (metis add_le_cancel_left append_take_drop_id concat_append le_add1 length_append seg_offset_def)

lemma seg_offset_all [simp]: "seg_offset pre segs (length segs) = length pre + length (concat segs)"
  by (simp add: seg_offset_def)

lemma lead_offset:
  assumes "\<forall>p \<in> set ps. ph_fits segs p" "k \<le> length segs"
  shows "k + lead k ps \<le> length segs \<and>
    seg_offset pre segs k + sum_list (map snd (take (lead k ps) ps)) = seg_offset pre segs (k + lead k ps)"
  using assms
proof (induction k ps rule: lead.induct)
  case (2 k i n ps)
  show ?case
  proof (cases "i = k")
    case True
    with 2 have "k < length segs" "n = length (segs ! k)" by (auto simp: ph_fits_def)
    with 2 True show ?thesis by (auto simp: seg_offset_Suc)
  next
    case False
    with 2 show ?thesis by simp
  qed
qed simp

lemma at_segment_after:
  assumes "at_segment pre segs st" "\<forall>p \<in> set ps. ph_fits segs p"
    and "\<not> rs_out_of_order (st_after ps st)"
  shows "at_segment pre segs (st_after ps st)"
  using assms lead_offset [OF assms(2), of "rs_next st" pre]
  by (auto simp: at_segment_def st_after_def Let_def)

lemma rest_not_consumed:
  assumes "distinct (map fst (ps @ qs))" "\<forall>p \<in> set (ps @ qs). k \<le> fst p" "p \<in> set qs"
  shows "k + lead k ps \<le> fst p"
proof (rule ccontr)
  assume "\<not> k + lead k ps \<le> fst p"
  with assms have "fst p \<in> set (map fst (take (lead k ps) ps))"
    by (auto simp: lead_take)
  then have "fst p \<in> set (map fst ps)"
    by (metis in_set_takeD take_map)
  with assms show False by force
qed

lemma lead_full_lt:
  assumes "lead k ps = length ps" "p \<in> set ps"
  shows "fst p < k + length ps"
proof -
  have "map fst ps = [k ..< k + length ps]"
    using lead_take [of k ps] assms(1) by simp
  then have "fst p \<in> set [k ..< k + length ps]"
    using assms(2) by (metis image_eqI set_map)
  then show ?thesis by simp
qed

text \<open>The facts that let a traversal go on after one element, for items and elements alike.\<close>

lemma fill_then:
  assumes "distinct (map fst (ps @ qs))" "\<forall>p \<in> set (ps @ qs). k \<le> fst p"
  shows "lead k ps < length ps \<Longrightarrow> \<forall>p \<in> set qs. seg_table segs (k + lead k (ps @ qs)) (fst p) = None"
    and "lead k ps = length ps \<Longrightarrow>
      \<forall>p \<in> set ps. seg_table segs (k + lead k (ps @ qs)) (fst p) = seg_table segs (k + lead k ps) (fst p)"
    and "lead k ps = length ps \<Longrightarrow> \<forall>p \<in> set qs. k + length ps \<le> fst p"
proof -
  show "\<forall>p \<in> set qs. seg_table segs (k + lead k (ps @ qs)) (fst p) = None" if "lead k ps < length ps"
    using that rest_not_consumed [OF assms] by (force simp: seg_table_def lead_append)
  show "\<forall>p \<in> set ps. seg_table segs (k + lead k (ps @ qs)) (fst p) = seg_table segs (k + lead k ps) (fst p)"
    if "lead k ps = length ps"
    using that lead_full_lt [OF that] by (force simp: seg_table_def lead_append)
  show "\<forall>p \<in> set qs. k + length ps \<le> fst p" if "lead k ps = length ps"
    using that rest_not_consumed [OF assms] by simp
qed

definition fits_from :: "bytes list \<Rightarrow> nat \<Rightarrow> (nat \<times> nat) list \<Rightarrow> bool" where
  "fits_from segs k ps \<longleftrightarrow>
     (\<forall>p \<in> set ps. ph_fits segs p \<and> k \<le> fst p) \<and> distinct (map fst ps)"

lemma fits_from_appendD:
  "fits_from segs k (ps @ qs) \<Longrightarrow> fits_from segs k ps"
  "fits_from segs k (ps @ qs) \<Longrightarrow> lead k ps = length ps \<Longrightarrow> fits_from segs (k + length ps) qs"
  using fill_then(3) [of ps qs k] by (auto simp: fits_from_def)

lemma fill_continue:
  assumes at: "at_segment pre segs st" and fits: "fits_from segs (rs_next st) (ps @ qs)"
  obtains (part) "rs_out_of_order (st_after ps st)" "lead (rs_next st) (ps @ qs) = lead (rs_next st) ps"
      "\<forall>p \<in> set qs. seg_table segs (rs_next st + lead (rs_next st) (ps @ qs)) (fst p) = None"
    | (full) "\<not> rs_out_of_order (st_after ps st)" "at_segment pre segs (st_after ps st)"
      "fits_from segs (rs_next (st_after ps st)) qs"
      "rs_next (st_after ps st) + lead (rs_next (st_after ps st)) qs = rs_next st + lead (rs_next st) (ps @ qs)"
      "\<forall>p \<in> set ps. seg_table segs (rs_next st + lead (rs_next st) (ps @ qs)) (fst p)
         = seg_table segs (rs_next st + lead (rs_next st) ps) (fst p)"
proof -
  let ?k = "rs_next st"
  have dk: "distinct (map fst (ps @ qs))" "\<forall>p \<in> set (ps @ qs). ?k \<le> fst p"
    using fits by (auto simp: fits_from_def)
  show thesis
  proof (cases "rs_out_of_order (st_after ps st)")
    case True
    then have "lead ?k ps < length ps" by (simp add: st_after_def Let_def)
    with True fill_then(1) [OF dk] show ?thesis
      by (intro part) (simp_all add: lead_append)
  next
    case False
    then have len: "lead ?k ps = length ps"
      using lead_le [of ?k ps] by (simp add: st_after_def Let_def)
    then have n1: "rs_next (st_after ps st) = ?k + length ps" by (simp add: st_after_def Let_def)
    show ?thesis
    proof (rule full)
      show "at_segment pre segs (st_after ps st)"
        using at False fits by (intro at_segment_after) (auto simp: fits_from_def)
      show "fits_from segs (rs_next (st_after ps st)) qs"
        using fits_from_appendD(2) [OF fits len] by (simp add: n1)
    qed (use False n1 len fill_then(2) [OF dk len] in \<open>simp_all add: lead_append\<close>)
  qed
qed

lemma restore_fills:
  "at_segment pre segs st \<Longrightarrow> fits_from segs (rs_next st) (phs v) \<Longrightarrow>
     restore_sequential (pre @ concat segs) v st =
       Inr (fill (seg_table segs (rs_next st + lead (rs_next st) (phs v))) v, st_after (phs v) st)"
  "at_segment pre segs st \<Longrightarrow> fits_from segs (rs_next st) (phs_items d) \<Longrightarrow>
     restore_items (pre @ concat segs) d st =
       Inr (fill_items (seg_table segs (rs_next st + lead (rs_next st) (phs_items d))) d, st_after (phs_items d) st)"
  "at_segment pre segs st \<Longrightarrow> fits_from segs (rs_next st) (phs_elems xs) \<Longrightarrow>
     restore_elems (pre @ concat segs) xs st =
       Inr (fill_elems (seg_table segs (rs_next st + lead (rs_next st) (phs_elems xs))) xs, st_after (phs_elems xs) st)"
proof (induction v and d and xs arbitrary: st and st and st rule: value_induct)
  case (1 d)
  note at = "1.prems"(1) and fits = "1.prems"(2)
  show ?case
  proof (cases "placeholder_of (PDict d)")
    case None
    with "1.IH" [OF at] fits show ?thesis by simp
  next
    case (Some p)
    obtain i n where p: "p = (i, n)" by fastforce
    have f: "i < length segs" "n = length (segs ! i)" "rs_next st \<le> i" and o: "\<not> rs_out_of_order st"
      using at fits Some by (auto simp: p fits_from_def at_segment_def ph_fits_def)
    show ?thesis
    proof (cases "i = rs_next st")
      case True
      have off: "rs_offset st + n = seg_offset pre segs (Suc i)" "rs_offset st = seg_offset pre segs i"
        using at f True by (auto simp: at_segment_def seg_offset_Suc)
      moreover have "seg_offset pre segs (Suc i) \<le> length (pre @ concat segs)"
        using f by (intro seg_offset_bound) simp
      ultimately show ?thesis
        using Some o f seg_slice [of i segs pre]
        by (simp add: p True [symmetric] Let_def seg_table_def st_after_def)
    next
      case False
      with f o Some show ?thesis by (simp add: p seg_table_def st_after_def)
    qed
  qed
next
  case (2 xs)
  then show ?case by simp
next
  case (8 k x d)
  note at = "8.prems"(1) and fits = "8.prems"(2) [unfolded phs_items.simps]
  have o: "\<not> rs_out_of_order st" using at by (simp add: at_segment_def)
  have x: "(if is_dict_or_list x then restore_sequential (pre @ concat segs) x st else Inr (x, st))
      = Inr (fill (seg_table segs (rs_next st + lead (rs_next st) (phs x))) x, st_after (phs x) st)"
    using "8.IH"(1) [OF at fits_from_appendD(1) [OF fits]]
    by (cases "is_dict_or_list x") (auto simp: not_container_no_phs st_after_Nil o)
  from at fits show ?case
  proof (cases rule: fill_continue)
    case part
    with x show ?thesis by (simp add: restore_out_of_order fill_none st_after_append_part)
  next
    case full
    with x "8.IH"(2) [OF full(2,3)] fill_cong(1) [OF full(5)] show ?thesis
      by (simp add: st_after_append_full)
  qed
next
  case (10 x xs)
  note at = "10.prems"(1) and fits = "10.prems"(2) [unfolded phs_elems.simps]
  have o: "\<not> rs_out_of_order st" using at by (simp add: at_segment_def)
  have x: "(if is_dict_or_list x then restore_sequential (pre @ concat segs) x st else Inr (x, st))
      = Inr (fill (seg_table segs (rs_next st + lead (rs_next st) (phs x))) x, st_after (phs x) st)"
    using "10.IH"(1) [OF at fits_from_appendD(1) [OF fits]]
    by (cases "is_dict_or_list x") (auto simp: not_container_no_phs st_after_Nil o)
  from at fits show ?case
  proof (cases rule: fill_continue)
    case part
    with x show ?thesis by (simp add: restore_out_of_order fill_none st_after_append_part)
  next
    case full
    with x "10.IH"(2) [OF full(2,3)] fill_cong(1) [OF full(5)] show ?thesis
      by (simp add: st_after_append_full)
  qed
qed (simp_all add: at_segment_def st_after_Nil)

section \<open>The out-of-order fallback\<close>

lemma collect_fold:
  "collect_segment_lengths v ls = fold (\<lambda>(i, n). dset i n) (phs v) ls"
  "collect_items d ls = fold (\<lambda>(i, n). dset i n) (phs_items d) ls"
  "collect_elems xs ls = fold (\<lambda>(i, n). dset i n) (phs_elems xs) ls"
  by (induction v and d and xs arbitrary: ls and ls and ls rule: value_induct)
     (auto split: option.splits)

lemma fold_dset_other:
  "i \<notin> fst ` set ps \<Longrightarrow> dget (fold (\<lambda>(i, n). dset i n) ps ls) i = dget ls i"
  by (induction ps arbitrary: ls) auto

lemma fold_dset_mem:
  "distinct (map fst ps) \<Longrightarrow> (i, n) \<in> set ps \<Longrightarrow>
     dget (fold (\<lambda>(i, n). dset i n) ps ls) i = Some n"
proof (induction ps arbitrary: ls)
  case (Cons p ps)
  show ?case
  proof (cases "p = (i, n)")
    case True
    with Cons.prems show ?thesis by (simp add: fold_dset_other)
  next
    case False
    with Cons show ?thesis by (cases p) auto
  qed
qed simp

lemma fold_dset_keys: "dkeys (fold (\<lambda>(i, n). dset i n) ps ls) = dkeys ls \<union> fst ` set ps"
proof (induction ps arbitrary: ls)
  case (Cons p ps)
  show ?case by (cases p) (simp only: fold_simps prod.case Cons.IH, simp)
qed simp

lemma restore_by_index_fill:
  "fst ` set (phs v) \<subseteq> dkeys views \<Longrightarrow> restore_by_index views v = Inr (fill (dget views) v)"
  "fst ` set (phs_items d) \<subseteq> dkeys views \<Longrightarrow>
     restore_by_index_items views d = Inr (fill_items (dget views) d)"
  "fst ` set (phs_elems xs) \<subseteq> dkeys views \<Longrightarrow>
     restore_by_index_elems views xs = Inr (fill_elems (dget views) xs)"
proof (induction v and d and xs rule: value_induct)
  case (1 d)
  then show ?case
    by (auto simp: pd.in_keys_iff split: option.splits)
qed (auto simp: image_Un)

lemma place_segments_ok:
  assumes "k \<le> m" "m \<le> length segs" "\<forall>i. k \<le> i \<and> i < m \<longrightarrow> dget lengths i = Some (length (segs ! i))"
  shows "\<exists>views'. place_segments (pre @ concat segs) lengths [k ..< m] (seg_offset pre segs k) views
           = Inr (views', seg_offset pre segs m) \<and>
         (\<forall>i. dget views' i = (if k \<le> i \<and> i < m then Some (segs ! i) else dget views i))"
  using assms
proof (induction "m - k" arbitrary: k views)
  case (Suc r)
  then have k: "k < m" "k < length segs" and upt: "[k ..< m] = k # [Suc k ..< m]"
    by (auto simp: upt_conv_Cons)
  have off: "seg_offset pre segs (Suc k) = seg_offset pre segs k + length (segs ! k)"
    by (rule seg_offset_Suc [OF k(2)])
  have "seg_offset pre segs (Suc k) \<le> length (pre @ concat segs)"
    using k by (intro seg_offset_bound) simp
  moreover have "\<exists>views'. place_segments (pre @ concat segs) lengths [Suc k ..< m] (seg_offset pre segs (Suc k))
        (dset k (segs ! k) views) = Inr (views', seg_offset pre segs m) \<and>
      (\<forall>i. dget views' i = (if Suc k \<le> i \<and> i < m then Some (segs ! i) else dget (dset k (segs ! k) views) i))"
    using Suc.hyps(2) Suc.prems k by (intro Suc.hyps(1)) auto
  ultimately show ?case
    using Suc.prems(3) k seg_slice [OF k(2), of pre] by (fastforce simp: upt off [symmetric])
qed auto

lemma place_segments_offset:
  assumes "place_segments data lengths [k ..< m] (seg_offset pre segs k) views = Inr (views', off)"
    and "k \<le> m" "m \<le> length segs" "\<forall>i. k \<le> i \<and> i < m \<longrightarrow> dget lengths i = Some (length (segs ! i))"
  shows "off = seg_offset pre segs m"
  using assms
proof (induction "m - k" arbitrary: k views)
  case (Suc r)
  then have k: "k < m" "k < length segs" and upt: "[k ..< m] = k # [Suc k ..< m]"
    by (auto simp: upt_conv_Cons)
  show ?case
    using Suc.prems k Suc.hyps(2)
    by (intro Suc.hyps(1) [of "Suc k"]) (auto simp: upt seg_offset_Suc split: if_splits)
qed auto

text \<open>
  The table that the fallback collects, when the indices that are left are exactly those from
  \<open>k\<close> on: it covers them, with the lengths of the segments.
\<close>

lemma remaining_table:
  assumes fits: "\<forall>p \<in> set ps. ph_fits segs p" "distinct (map fst ps)"
    and all: "fst ` set ps = {k ..< length segs}" and k: "k \<le> length segs"
    and lengths: "lengths = fold (\<lambda>(i, n). dset i n) ps []"
  shows "(if lengths = [] then k else Max (set (map fst lengths)) + 1) = length segs"
    and "\<forall>i. k \<le> i \<and> i < length segs \<longrightarrow> dget lengths i = Some (length (segs ! i))"
proof -
  have keys: "set (map fst lengths) = {k ..< length segs}"
    using all by (simp add: lengths fold_dset_keys)
  show "(if lengths = [] then k else Max (set (map fst lengths)) + 1) = length segs"
  proof (cases "lengths = []")
    case True
    with keys k show ?thesis by auto
  next
    case False
    then have "{k ..< length segs} \<noteq> {}" using keys by (metis map_is_Nil_conv set_empty)
    then have "k < length segs" by simp
    then have "Max {k ..< length segs} = length segs - 1"
      by (intro Max_eqI) auto
    with False keys \<open>k < length segs\<close> show ?thesis by auto
  qed
  show "\<forall>i. k \<le> i \<and> i < length segs \<longrightarrow> dget lengths i = Some (length (segs ! i))"
  proof (intro allI impI)
    fix i assume "k \<le> i \<and> i < length segs"
    with all obtain n where p: "(i, n) \<in> set ps"
      by (metis (no_types, opaque_lifting) atLeastLessThan_iff image_iff prod.collapse)
    with fits(1) have "n = length (segs ! i)" by (auto simp: ph_fits_def)
    with fold_dset_mem [OF fits(2) p] show "dget lengths i = Some (length (segs ! i))"
      by (simp add: lengths)
  qed
qed

text \<open>
  The fallback, started where the sequential pass stopped, fills every placeholder that is
  left: their indices are exactly those from \<open>rs_next\<close> on.
\<close>

lemma restore_remaining_ok:
  assumes at: "rs_offset st = seg_offset pre segs k" "rs_next st = k" "k \<le> length segs"
    and fits: "\<forall>p \<in> set (phs v). ph_fits segs p" "distinct (map fst (phs v))"
    and all: "fst ` set (phs v) = {k ..< length segs}"
  shows "restore_remaining v (pre @ concat segs) st =
    Inr (fill (seg_table segs (length segs)) v, st\<lparr>rs_offset := length (pre @ concat segs)\<rparr>)"
proof -
  define lengths where "lengths = collect_segment_lengths v []"
  note tab = remaining_table [OF fits all at(3), of lengths, unfolded lengths_def collect_fold, OF refl,
      folded collect_fold lengths_def]
  obtain views where views: "place_segments (pre @ concat segs) lengths [k ..< length segs]
      (seg_offset pre segs k) [] = Inr (views, length (pre @ concat segs))"
    and vtab: "\<forall>i. dget views i = (if k \<le> i \<and> i < length segs then Some (segs ! i) else None)"
    using place_segments_ok [of k "length segs" segs lengths pre "[]"] at tab(2) by auto
  have "fst ` set (phs v) \<subseteq> dkeys views"
    using vtab by (auto simp: all pd.in_keys_iff)
  moreover have "fill (dget views) v = fill (seg_table segs (length segs)) v"
    using all by (intro fill_cong) (force simp: vtab seg_table_def)
  ultimately show ?thesis
    unfolding restore_remaining_def Let_def lengths_def [symmetric] at(2) tab(1)
    using views by (simp add: at(1) restore_by_index_fill)
qed

lemma restore_remaining_offset:
  assumes at: "rs_offset st = seg_offset pre segs k" "rs_next st = k" "k \<le> length segs"
    and fits: "\<forall>p \<in> set (phs v). ph_fits segs p" "distinct (map fst (phs v))"
    and all: "fst ` set (phs v) = {k ..< length segs}"
    and run: "restore_remaining v data st = Inr (v', st')"
  shows "rs_offset st' = length (pre @ concat segs)"
proof -
  define lengths where "lengths = collect_segment_lengths v []"
  note tab = remaining_table [OF fits all at(3), of lengths, unfolded lengths_def collect_fold, OF refl,
      folded collect_fold lengths_def]
  from run obtain views off where
    "place_segments data lengths [k ..< length segs] (seg_offset pre segs k) [] = Inr (views, off)"
    and "rs_offset st' = off"
    unfolding restore_remaining_def Let_def lengths_def [symmetric] at(1,2) tab(1)
    by (auto split: sum.splits prod.splits)
  with place_segments_offset [OF this(1) at(3) _ tab(2)] show ?thesis by simp
qed

section \<open>Frames\<close>

definition cuib_frame :: "bytes \<Rightarrow> bytes list \<Rightarrow> bytes" where
  "cuib_frame envelope segs = MAGIC @ le32 (length envelope) @ envelope @ concat segs"

text \<open>
  A frame that a peer may send: the envelope's placeholders name every segment exactly once,
  in any order, each with its segment's length. The Python and Node encoders number in traversal
  order; a coder that serialises maps in another order does not.
\<close>

definition frame_ok :: "pyval \<Rightarrow> bytes list \<Rightarrow> bool" where
  "frame_ok env segs \<longleftrightarrow>
     list_all (ph_fits segs) (phs env) \<and> distinct (map fst (phs env)) \<and>
     set (map fst (phs env)) = set [0 ..< length segs]"

lemma le32_value_le32:
  assumes "n < 2 ^ 32"
  shows "le32_value (le32 n) = n"
proof -
  define a b c where "a = n div 256" and "b = a div 256" and "c = b div 256"
  have "n = n mod 256 + 256 * a" "a = a mod 256 + 256 * b" "b = b mod 256 + 256 * c"
    by (simp_all add: a_def b_def c_def)
  moreover have "n div 65536 = b" "n div 16777216 = c"
    by (simp_all add: a_def b_def c_def div_mult2_eq [symmetric])
  moreover have "c mod 256 = c"
    using assms by (simp add: a_def b_def c_def div_mult2_eq [symmetric])
  ultimately show ?thesis
    by (simp add: le32_value_def le32_def unat_of_nat a_def [symmetric])
qed

lemma frame_parts:
  assumes "w = cuib_frame p segs" "8 + length p \<le> m" "length p < 2 ^ 32"
  shows "\<not> length (take m w) < HEADER_SIZE" "take 4 (take m w) = MAGIC"
    "le32_value (slice 4 8 (take m w)) = length p"
    "slice HEADER_SIZE (HEADER_SIZE + length p) (take m w) = p"
proof -
  have l: "length MAGIC = 4" "length (le32 (length p)) = 4"
    by (simp_all add: MAGIC_def le32_def)
  have w: "take m w = MAGIC @ le32 (length p) @ p @ take (m - (8 + length p)) (concat segs)"
    using assms(1,2) l by (simp add: cuib_frame_def)
  show "\<not> length (take m w) < HEADER_SIZE" "take 4 (take m w) = MAGIC"
    "le32_value (slice 4 8 (take m w)) = length p"
    "slice HEADER_SIZE (HEADER_SIZE + length p) (take m w) = p"
    unfolding w using l assms(3) by (simp_all add: HEADER_SIZE_def slice_def le32_value_le32)
qed

lemma decode_framed:
  assumes "w = cuib_frame p segs" "8 + length p \<le> m" "length p < 2 ^ 32" "unpack p = Inr env"
  shows "decode_message unpack (take m w) =
    (case restore_sequential (take m w) env (restore_init (8 + length p)) of
       Inl e \<Rightarrow> Inl e
     | Inr (v, st) \<Rightarrow>
         (case (if rs_out_of_order st then restore_remaining v (take m w) st else Inr (v, st)) of
            Inl e \<Rightarrow> Inl e
          | Inr (v', st') \<Rightarrow>
              if rs_offset st' \<noteq> length (take m w)
              then Inl (Raised ValueError (''Invalid CUIB frame: expected payload size ''
                          @ show_nat (rs_offset st') @ '', got '' @ show_nat (length (take m w))))
              else Inr v'))"
proof -
  have "\<not> length (take m w) < HEADER_SIZE + length p"
    using assms(1,2) by (simp add: cuib_frame_def MAGIC_def le32_def HEADER_SIZE_def)
  with frame_parts [OF assms(1-3)] assms(4) show ?thesis
    unfolding decode_message_def Let_def by (simp add: HEADER_SIZE_def)
qed

lemma frame_okD:
  assumes "frame_ok env segs"
  shows "fits_from segs 0 (phs env)" "\<forall>p \<in> set (phs env). ph_fits segs p"
    "distinct (map fst (phs env))" "fst ` set (phs env) = {..<length segs}"
    "length (phs env) = length segs"
proof -
  show "fst ` set (phs env) = {..<length segs}"
    using assms by (auto simp: frame_ok_def)
  then have "card (set (map fst (phs env))) = length segs" by simp
  then show "length (phs env) = length segs"
    using assms distinct_card [of "map fst (phs env)"] by (simp add: frame_ok_def)
qed (use assms in \<open>auto simp: frame_ok_def fits_from_def list_all_iff\<close>)

text \<open>Where the sequential pass stops in a good frame, for whatever data it ran on.\<close>

lemma frame_cursor:
  assumes ok: "frame_ok env segs" and pre: "length pre = base"
    and k: "k = lead 0 (phs env)" and st: "st = st_after (phs env) (restore_init base)"
  shows "rs_offset st = seg_offset pre segs k" "rs_next st = k" "k \<le> length segs"
    "\<not> rs_out_of_order st \<Longrightarrow> k = length segs"
    "fst ` set (drop k (phs env)) = {k ..< length segs}"
proof -
  note D = frame_okD [OF ok]
  have off: "k \<le> length segs" "rs_offset st = seg_offset pre segs k"
    using lead_offset [OF D(2), of 0 pre] pre
    by (simp_all add: k st st_after_def restore_init_def seg_offset_def Let_def)
  then show "rs_offset st = seg_offset pre segs k" "k \<le> length segs" by simp_all
  show "rs_next st = k" "\<not> rs_out_of_order st \<Longrightarrow> k = length segs"
    using D(5) off(1) by (simp_all add: k st st_after_def restore_init_def Let_def)
  have "distinct (map fst (take k (phs env) @ drop k (phs env)))" using D(3) by simp
  then have "fst ` set (take k (phs env)) \<inter> fst ` set (drop k (phs env)) = {}"
    unfolding map_append distinct_append by simp
  moreover have "fst ` set (take k (phs env)) = {..<k}"
    by (metis atLeast0LessThan atLeastLessThan_upt k lead_take list.set_map plus_nat.add_0)
  moreover have "fst ` set (take k (phs env)) \<union> fst ` set (drop k (phs env)) = {..<length segs}"
    using D(4) by (metis append_take_drop_id image_Un set_append)
  moreover have "A \<inter> B = {} \<Longrightarrow> A = C \<Longrightarrow> A \<union> B = D \<Longrightarrow> B = D - C" for A B C D :: "nat set"
    by blast
  ultimately have "fst ` set (drop k (phs env)) = {..<length segs} - {..<k}" by metis
  then show "fst ` set (drop k (phs env)) = {k ..< length segs}" by auto
qed

lemma decode_frame_fills:
  assumes p: "length p < 2 ^ 32" "unpack p = Inr env" and ok: "frame_ok env segs"
  shows "decode_message unpack (cuib_frame p segs) = Inr (fill (seg_table segs (length segs)) env)"
proof -
  define pre where "pre = MAGIC @ le32 (length p) @ p"
  define st where "st = st_after (phs env) (restore_init (8 + length p))"
  define k where "k = lead 0 (phs env)"
  have w: "cuib_frame p segs = pre @ concat segs" and pre: "length pre = 8 + length p"
    by (simp_all add: cuib_frame_def pre_def MAGIC_def le32_def)
  note D = frame_okD [OF ok] and C = frame_cursor [OF ok pre k_def st_def]
  have "at_segment pre segs (restore_init (8 + length p))"
    using pre by (simp add: at_segment_def restore_init_def seg_offset_def)
  then have seq: "restore_sequential (pre @ concat segs) env (restore_init (8 + length p)) =
      Inr (fill (seg_table segs k) env, st)"
    using restore_fills(1) [of pre segs "restore_init (8 + length p)" env] D(1)
    by (simp add: k_def st_def restore_init_def)
  have left: "phs (fill (seg_table segs k) env) = drop k (phs env)"
    using restore_cursor(1) [OF _ seq] by (simp add: restore_init_def k_def)
  have fillk: "fill (seg_table segs (length segs)) (fill (seg_table segs k) env)
      = fill (seg_table segs (length segs)) env"
    using C(3) by (auto simp: fill_fill seg_table_def intro!: fill_cong)
  have "rs_out_of_order st \<Longrightarrow> restore_remaining (fill (seg_table segs k) env) (pre @ concat segs) st =
      Inr (fill (seg_table segs (length segs)) env, st\<lparr>rs_offset := length (pre @ concat segs)\<rparr>)"
    using restore_remaining_ok [OF C(1-3), of "fill (seg_table segs k) env"] D(2,3) C(5)
    by (simp add: left fillk distinct_drop in_set_dropD drop_map [symmetric])
  moreover have "\<not> rs_out_of_order st \<Longrightarrow> rs_offset st = length (pre @ concat segs)"
    using C by simp
  ultimately show ?thesis
    using decode_framed [of "cuib_frame p segs" p segs "length (cuib_frame p segs)" unpack env] p seq C(4)
    by (simp add: w pre)
qed

lemma decode_truncated:
  assumes p: "length p < 2 ^ 32" "unpack p = Inr env" and ok: "frame_ok env segs"
    and w: "w = cuib_frame p segs" and m: "8 \<le> m" "m < length w"
  shows "\<exists>e. decode_message unpack (take m w) = Inl e"
proof (cases "8 + length p \<le> m")
  case True
  define pre where "pre = MAGIC @ le32 (length p) @ p"
  have len: "length w = length pre + length (concat segs)" and pre: "length pre = 8 + length p"
    by (simp_all add: w cuib_frame_def pre_def MAGIC_def le32_def)
  show ?thesis
  proof (rule ccontr)
    assume "\<nexists>e. decode_message unpack (take m w) = Inl e"
    then obtain x where x: "decode_message unpack (take m w) = Inr x"
      by (cases "decode_message unpack (take m w)") auto
    note run = x [unfolded decode_framed [of w p segs m unpack env, OF w True p]]
    then obtain v st where seq: "restore_sequential (take m w) env (restore_init (8 + length p)) = Inr (v, st)"
      by (auto split: sum.splits prod.splits)
    then have st: "st = st_after (phs env) (restore_init (8 + length p))"
      and left: "phs v = drop (lead 0 (phs env)) (phs env)"
      using restore_cursor(1) [of "restore_init (8 + length p)" "take m w" env v st]
      by (simp_all add: restore_init_def)
    note D = frame_okD [OF ok] and C = frame_cursor [OF ok pre refl st]
    obtain v' st' where st': "(if rs_out_of_order st then restore_remaining v (take m w) st else Inr (v, st)) = Inr (v', st')"
      and total: "rs_offset st' = length (take m w)"
      using run seq by (auto split: sum.splits prod.splits if_splits)
    have "rs_offset st' = length (pre @ concat segs)"
    proof (cases "rs_out_of_order st")
      case True
      then have "restore_remaining v (take m w) st = Inr (v', st')" using st' by simp
      then show ?thesis
        using D(2,3) C(5)
        by (intro restore_remaining_offset [OF C(1-3)])
           (auto simp: left distinct_drop in_set_dropD drop_map [symmetric])
    next
      case False
      with st' C show ?thesis by simp
    qed
    with total m len show False by simp
  qed
next
  case False
  have l: "length MAGIC = 4" "length (le32 (length p)) = 4"
    by (simp_all add: MAGIC_def le32_def)
  then have "take m w = MAGIC @ le32 (length p) @ take (m - 8) (p @ concat segs)"
    using m by (simp add: w cuib_frame_def)
  then have hd: "take 4 (take m w) = MAGIC" "slice 4 8 (take m w) = le32 (length p)"
    using l by (simp_all add: slice_def)
  with False m p show ?thesis
    by (simp add: decode_message_def HEADER_SIZE_def le32_value_le32)
qed

section \<open>What the encoder produces\<close>

text \<open>The binaries that travel out of band, in traversal order.\<close>

fun binaries :: "pyval \<Rightarrow> bytes list"
  and binaries_items :: "(pyval \<times> pyval) list \<Rightarrow> bytes list"
  and binaries_elems :: "pyval list \<Rightarrow> bytes list"
where
  "binaries (PDict d) = binaries_items d"
| "binaries (PList xs) = binaries_elems xs"
| "binaries (PTuple xs) = binaries_elems xs"
| "binaries v = (case as_extractable_segment v of Some b \<Rightarrow> [b] | None \<Rightarrow> [])"
| "binaries_items [] = []"
| "binaries_items ((k, x) # d) = binaries x @ binaries_items d"
| "binaries_elems [] = []"
| "binaries_elems (x # xs) = binaries x @ binaries_elems xs"

definition envelope_of :: "pyval \<Rightarrow> pyval" where
  "envelope_of v = (case fst (extract_binaries v []) of None \<Rightarrow> v | Some w \<Rightarrow> w)"

lemma scalar_leaf_binaries: "scalar_leaf x \<Longrightarrow> binaries x = [] \<and> wire_view x = mp_norm x \<and> phs x = []"
  by (cases x) (simp_all add: as_extractable_segment_def)

lemma extract_segments:
  "snd (extract_binaries v segs) = segs @ binaries v \<and>
     (fst (extract_binaries v segs) = None \<longleftrightarrow> binaries v = [])"
  "snd (extract_items d segs) = segs @ binaries_items d \<and>
     (fst (extract_items d segs) = None \<longleftrightarrow> binaries_items d = [])"
  "snd (extract_elems xs segs) = segs @ binaries_elems xs \<and>
     (fst (extract_elems xs segs) = None \<longleftrightarrow> binaries_elems xs = [])"
  by (induction v segs and d segs and xs segs
      rule: extract_binaries_extract_items_extract_elems.induct)
     (auto simp: scalar_leaf_binaries split: prod.splits option.splits)

text \<open>The extraction of one value as a function of the number of segments before it.\<close>

fun env_from :: "nat \<Rightarrow> pyval \<Rightarrow> pyval"
  and env_items :: "nat \<Rightarrow> (pyval \<times> pyval) list \<Rightarrow> (pyval \<times> pyval) list"
  and env_elems :: "nat \<Rightarrow> pyval list \<Rightarrow> pyval list"
where
  "env_from n (PDict d) = PDict (env_items n d)"
| "env_from n (PList xs) = PList (env_elems n xs)"
| "env_from n (PTuple xs) = PList (env_elems n xs)"
| "env_from n v = (case as_extractable_segment v of Some b \<Rightarrow> placeholder n (length b) | None \<Rightarrow> mp_norm v)"
| "env_items n [] = []"
| "env_items n ((k, x) # d) = (k, env_from n x) # env_items (n + length (binaries x)) d"
| "env_elems n [] = []"
| "env_elems n (x # xs) = env_from n x # env_elems (n + length (binaries x)) xs"

lemma env_from_no_binaries:
  "binaries v = [] \<Longrightarrow> env_from n v = mp_norm v"
  "binaries_items d = [] \<Longrightarrow> env_items n d = mp_norm_items d"
  "binaries_elems xs = [] \<Longrightarrow> env_elems n xs = mp_norm_elems xs"
  by (induction v and d and xs arbitrary: n and n and n rule: value_induct)
     (auto split: option.splits)

lemma mp_norm_placeholder [simp]: "mp_norm (placeholder i n) = placeholder i n"
  by (simp add: placeholder_def)


text \<open>One element and then the rest, where the code keeps, copies or replaces the element.\<close>

lemma extract_elem_length:
  "length (snd (if scalar_leaf x then (None, segs) else extract_binaries x segs))
     = length segs + length (binaries x)"
  by (simp add: scalar_leaf_binaries extract_segments)

lemma scalar_leaf_env: "scalar_leaf x \<Longrightarrow> env_from n x = mp_norm x"
  by (simp add: env_from_no_binaries scalar_leaf_binaries)

lemma mp_norm_extract:
  "mp_norm (case fst (extract_binaries v segs) of None \<Rightarrow> v | Some w \<Rightarrow> w) = env_from (length segs) v"
  "mp_norm_items (case fst (extract_items d segs) of None \<Rightarrow> d | Some w \<Rightarrow> w) = env_items (length segs) d"
  "mp_norm_elems (case fst (extract_elems xs segs) of None \<Rightarrow> xs | Some w \<Rightarrow> w) = env_elems (length segs) xs"
proof (induction v segs and d segs and xs segs
    rule: extract_binaries_extract_items_extract_elems.induct)
  case (1 d segs)
  then show ?case by (auto split: prod.splits option.splits)
next
  case (2 xs segs)
  then show ?case by (auto split: prod.splits option.splits)
next
  case (3 xs segs)
  then show ?case by (auto split: prod.splits option.splits)
next
  case (6 k x d segs)
  obtain t segs1 where x: "(if scalar_leaf x then (None, segs) else extract_binaries x segs) = (t, segs1)"
    by fastforce
  obtain r segs2 where d: "extract_items d segs1 = (r, segs2)" by fastforce
  have "mp_norm (case t of None \<Rightarrow> x | Some w \<Rightarrow> w) = env_from (length segs) x"
    using x "6.IH"(1) by (auto simp: scalar_leaf_env split: if_splits)
  moreover have "mp_norm_items (case r of None \<Rightarrow> d | Some w \<Rightarrow> w) = env_items (length segs1) d"
    using "6.IH"(2) [OF x [symmetric]] d by simp
  moreover have "length segs1 = length segs + length (binaries x)"
    using extract_elem_length [of x segs] x by simp
  ultimately show ?case
    using x d by (auto split: option.splits)
next
  case (8 x xs segs)
  obtain t segs1 where x: "(if scalar_leaf x then (None, segs) else extract_binaries x segs) = (t, segs1)"
    by fastforce
  obtain r segs2 where d: "extract_elems xs segs1 = (r, segs2)" by fastforce
  have "mp_norm (case t of None \<Rightarrow> x | Some w \<Rightarrow> w) = env_from (length segs) x"
    using x "8.IH"(1) by (auto simp: scalar_leaf_env split: if_splits)
  moreover have "mp_norm_elems (case r of None \<Rightarrow> xs | Some w \<Rightarrow> w) = env_elems (length segs1) xs"
    using "8.IH"(2) [OF x [symmetric]] d by simp
  moreover have "length segs1 = length segs + length (binaries x)"
    using extract_elem_length [of x segs] x by simp
  ultimately show ?case
    using x d by (auto split: option.splits)
qed (auto simp: as_extractable_segment_def split: option.splits if_splits)

text \<open>Extraction does not turn a map of the user into a placeholder, nor out of one.\<close>

lemma env_from_PInt [simp]: "env_from n x = PInt i \<longleftrightarrow> x = PInt i"
  by (cases x) (auto simp: as_extractable_segment_def placeholder_def)

lemma mp_norm_PInt [simp]: "mp_norm x = PInt i \<longleftrightarrow> x = PInt i"
  by (cases x) auto

lemma sget_mp_norm: "sget (mp_norm_items d) k = map_option mp_norm (sget d k)"
  by (induction d) (auto simp: sget_Cons_any)

lemma sget_env_items: "sget (env_items n d) k = Some (PInt i) \<longleftrightarrow> sget d k = Some (PInt i)"
  by (induction d arbitrary: n) (auto simp: sget_Cons_any)

lemma env_items_length [simp]: "length (env_items n d) = length d"
  by (induction d arbitrary: n) auto

lemma mp_norm_items_length [simp]: "length (mp_norm_items d) = length d"
  by (induction d) auto

lemma placeholder_of_env_items:
  "placeholder_of (PDict (env_items n d)) = placeholder_of (PDict (mp_norm_items d))"
proof -
  have "placeholder_of (PDict (env_items n d)) = Some p \<longleftrightarrow>
      placeholder_of (PDict (mp_norm_items d)) = Some p" for p
    by (cases p) (auto simp: placeholder_of_Some_iff sget_mp_norm sget_env_items)
  then show ?thesis by (metis option.exhaust)
qed

text \<open>
  The envelope has one placeholder per binary, numbered in order, and filling the binaries
  back in gives the receiver's view of the message.
\<close>

lemma phs_placeholder: "placeholder_of (placeholder i n) = Some (i, n)"
  by (simp add: placeholder_def placeholder_of_Some_iff PLACEHOLDER_KEY_def)

lemma phs_fill_placeholder:
  "phs (placeholder i n) = [(i, n)]"
  "fill S (placeholder i n) = (case S i of Some b \<Rightarrow> PView b | None \<Rightarrow> placeholder i n)"
  using phs_placeholder [of i n] by (simp_all add: placeholder_def split: option.splits)

definition numbered :: "nat \<Rightarrow> bytes list \<Rightarrow> (nat \<times> nat) list" where
  "numbered n bs = zip [n ..< n + length bs] (map length bs)"

lemma numbered_append: "numbered n (bs @ cs) = numbered n bs @ numbered (n + length bs) cs"
proof -
  have "[n ..< n + (length bs + length cs)] = [n ..< n + length bs] @ [n + length bs ..< n + length bs + length cs]"
    by (metis add.assoc le_add1 upt_add_eq_append)
  then show ?thesis by (simp add: numbered_def)
qed

lemma numbered_single: "numbered n [b] = [(n, length b)]"
  by (simp add: numbered_def)

lemma phs_env:
  "phs (mp_norm v) = [] \<Longrightarrow> phs (env_from n v) = numbered n (binaries v)"
  "phs_items (mp_norm_items d) = [] \<Longrightarrow> phs_items (env_items n d) = numbered n (binaries_items d)"
  "phs_elems (mp_norm_elems xs) = [] \<Longrightarrow> phs_elems (env_elems n xs) = numbered n (binaries_elems xs)"
  by (induction v and d and xs arbitrary: n and n and n rule: value_induct)
     (auto simp: numbered_append numbered_single placeholder_of_env_items phs_fill_placeholder
        numbered_def [of _ "[]"] split: option.splits)

definition tabulates :: "(nat \<Rightarrow> bytes option) \<Rightarrow> nat \<Rightarrow> bytes list \<Rightarrow> bool" where
  "tabulates S n bs \<longleftrightarrow> (\<forall>i < length bs. S (n + i) = Some (bs ! i))"

lemma tabulates_append:
  "tabulates S n (bs @ cs) \<longleftrightarrow> tabulates S n bs \<and> tabulates S (n + length bs) cs"
proof
  assume t: "tabulates S n (bs @ cs)"
  have "S (n + (length bs + i)) = Some (cs ! i)" if "i < length cs" for i
    using t that by (simp only: tabulates_def) (metis length_append nat_add_left_cancel_less nth_append_length_plus)
  then show "tabulates S n bs \<and> tabulates S (n + length bs) cs"
    using t by (auto simp: tabulates_def nth_append add.assoc split: if_splits)
next
  assume t: "tabulates S n bs \<and> tabulates S (n + length bs) cs"
  have "S (n + i) = Some ((bs @ cs) ! i)" if "i < length bs + length cs" for i
  proof (cases "i < length bs")
    case False
    then obtain j where "i = length bs + j" by (metis le_Suc_ex not_less)
    then show ?thesis using t that by (simp add: tabulates_def nth_append add.assoc)
  qed (use t in \<open>simp add: tabulates_def nth_append\<close>)
  then show "tabulates S n (bs @ cs)" by (simp add: tabulates_def)
qed

lemma wire_view_no_binaries:
  "binaries v = [] \<Longrightarrow> wire_view v = mp_norm v"
  "binaries_items d = [] \<Longrightarrow> wire_items d = mp_norm_items d"
  "binaries_elems xs = [] \<Longrightarrow> wire_elems xs = mp_norm_elems xs"
  by (induction v and d and xs rule: value_induct) (auto split: option.splits)

lemma fill_env:
  "phs (mp_norm v) = [] \<Longrightarrow> tabulates S n (binaries v) \<Longrightarrow> fill S (env_from n v) = wire_view v"
  "phs_items (mp_norm_items d) = [] \<Longrightarrow> tabulates S n (binaries_items d) \<Longrightarrow>
     fill_items S (env_items n d) = wire_items d"
  "phs_elems (mp_norm_elems xs) = [] \<Longrightarrow> tabulates S n (binaries_elems xs) \<Longrightarrow>
     fill_elems S (env_elems n xs) = wire_elems xs"
  by (induction v and d and xs arbitrary: n and n and n rule: value_induct)
     (auto simp: tabulates_append placeholder_of_env_items phs_fill_placeholder tabulates_def [of _ _ "[_]"]
       split: option.splits)

section \<open>The encoder and the decoder together\<close>

lemma mp_norm_envelope: "mp_norm (envelope_of v) = env_from 0 v"
  using mp_norm_extract(1) [of v "[]"] by (simp add: envelope_of_def)

lemma binaries_placeholder [simp]: "binaries (placeholder i n) = []"
  by (simp add: placeholder_def as_extractable_segment_def)

lemma envelope_binaries:
  "binaries (case fst (extract_binaries v segs) of None \<Rightarrow> v | Some w \<Rightarrow> w) = []"
  "binaries_items (case fst (extract_items d segs) of None \<Rightarrow> d | Some w \<Rightarrow> w) = []"
  "binaries_elems (case fst (extract_elems xs segs) of None \<Rightarrow> xs | Some w \<Rightarrow> w) = []"
proof (induction v segs and d segs and xs segs
    rule: extract_binaries_extract_items_extract_elems.induct)
  case (6 k x d segs)
  obtain t segs1 where x: "(if scalar_leaf x then (None, segs) else extract_binaries x segs) = (t, segs1)"
    by fastforce
  then show ?case
    using "6.IH" by (auto simp: scalar_leaf_binaries split: option.splits prod.splits if_splits)
next
  case (8 x xs segs)
  obtain t segs1 where x: "(if scalar_leaf x then (None, segs) else extract_binaries x segs) = (t, segs1)"
    by fastforce
  then show ?case
    using "8.IH" by (auto simp: scalar_leaf_binaries split: option.splits prod.splits if_splits)
qed (auto split: option.splits prod.splits)

lemma encode_message_eq:
  "encode_message pack v =
    (if binaries v = [] then pack v
     else (case pack (envelope_of v) of
             Inl e \<Rightarrow> Inl e
           | Inr p \<Rightarrow> if length p < 2 ^ 32 then Inr (cuib_frame p (binaries v))
                      else Inl (Raised StructError ''argument out of range'')))"
  using extract_segments(1) [of v "[]"]
  by (auto simp: encode_message_def envelope_of_def cuib_frame_def split: prod.splits sum.splits option.splits)

lemma frame_ok_numbered:
  assumes "phs env = numbered 0 bs"
  shows "frame_ok env bs"
proof -
  have "map fst (phs env) = [0 ..< length bs]"
    using assms by (simp add: numbered_def)
  then show ?thesis
    using assms by (auto simp: frame_ok_def list_all_iff ph_fits_def numbered_def in_set_zip)
qed

lemma frame_ok_envelope:
  "phs (mp_norm v) = [] \<Longrightarrow> frame_ok (mp_norm (envelope_of v)) (binaries v)"
  by (simp add: mp_norm_envelope frame_ok_numbered phs_env)

lemma fill_envelope:
  assumes "phs (mp_norm v) = []"
  shows "fill (seg_table (binaries v) (length (binaries v))) (mp_norm (envelope_of v)) = wire_view v"
  unfolding mp_norm_envelope
  by (rule fill_env(1) [OF assms]) (simp add: tabulates_def seg_table_def)

section \<open>Properties of the codec\<close>

lemma encode_decode_view:
  assumes "pack (envelope_of v) = Inr p" "binaries v = [] \<or> length p < 2 ^ 32" "take 4 p \<noteq> MAGIC"
    and "unpack p = Inr (mp_norm (envelope_of v))" "phs (mp_norm v) = []"
  shows "\<exists>w. encode_message pack v = Inr w \<and> decode_message unpack w = Inr (wire_view v)"
proof (cases "binaries v = []")
  case True
  then have env: "envelope_of v = v"
    using extract_segments(1) [of v "[]"] by (simp add: envelope_of_def)
  have "decode_message unpack p = Inr (wire_view v)"
    using assms(3,4) True by (simp add: env decode_message_def wire_view_no_binaries)
  with True assms(1) show ?thesis by (simp add: encode_message_eq env)
next
  case False
  with assms show ?thesis
    using decode_frame_fills [of p unpack "mp_norm (envelope_of v)" "binaries v"]
    by (simp add: encode_message_eq frame_ok_envelope fill_envelope)
qed

text \<open>
  C2. A message arrives as it was sent. Whatever the nesting, \<open>decode_message\<close> applied to the
  bytes of \<open>encode_message\<close> delivers the message, with large binaries as views and msgpack's
  own normalisation elsewhere, provided msgpack round-trips the envelope and no map of the
  message looks exactly like a placeholder.
\<close>

theorem encode_decode_message:
  assumes "pack (envelope_of v) = Inr p" "length p < 2 ^ 32" "take 4 p \<noteq> MAGIC"
    and "unpack p = Inr (mp_norm (envelope_of v))" "phs (mp_norm v) = []"
  shows "\<exists>w. encode_message pack v = Inr w \<and> decode_message unpack w = Inr (wire_view v)"
  using assms encode_decode_view by blast

definition demo_message :: pyval where
  "demo_message = PDict [(PStr ''id'', PInt 7),
     (PStr ''frames'', PTuple [PBytes (replicate 16384 1), PNone, PView (replicate 20000 2), PByteArray [3]])]"

lemma demo_message_envelope:
  "envelope_of demo_message = PDict [(PStr ''id'', PInt 7),
     (PStr ''frames'', PList [placeholder 0 16384, PNone, placeholder 1 20000, PByteArray [3]])]"
  by (simp add: demo_message_def envelope_of_def as_extractable_segment_def BINARY_EXTRACT_THRESHOLD_def)

theorem encode_decode_message_witness:
  "\<exists>w. encode_message (\<lambda>_. Inr [7]) demo_message = Inr w \<and>
       decode_message (\<lambda>_. Inr (mp_norm (envelope_of demo_message))) w = Inr (wire_view demo_message)"
proof (rule encode_decode_message [where p = "[7]"])
  show "phs (mp_norm demo_message) = []"
    by (simp add: demo_message_def placeholder_of.simps(1))
qed (simp_all add: MAGIC_def)

text \<open>
  C3. What goes on the wire. A message without large binaries is byte-identical to its msgpack
  form; any other is a frame whose segments are exactly its large binaries in traversal order
  and whose envelope has no large binary left.
\<close>

theorem encode_message_wire:
  "encode_message pack v =
    (if binaries v = [] then pack v
     else (case pack (envelope_of v) of
             Inl e \<Rightarrow> Inl e
           | Inr p \<Rightarrow> if length p < 2 ^ 32 then Inr (cuib_frame p (binaries v))
                      else Inl (Raised StructError ''argument out of range''))) \<and>
   binaries (envelope_of v) = []"
  using encode_message_eq envelope_binaries(1) [of v "[]"] by (simp add: envelope_of_def)

text \<open>
  C4. Frames of peers that number their segments in another order than they serialise them are
  decoded right: every placeholder gets its own segment.
\<close>

theorem decode_any_order:
  assumes "length p < 2 ^ 32" "unpack p = Inr env" "frame_ok env segs"
  shows "decode_message unpack (cuib_frame p segs) = Inr (fill (seg_table segs (length segs)) env)"
  using assms by (rule decode_frame_fills)

theorem decode_any_order_witness:
  "decode_message (\<lambda>_. Inr (PList [placeholder 1 2, placeholder 0 3, PInt 5]))
     (cuib_frame [9] [[10, 11, 12], [20, 21]])
   = Inr (PList [PView [20, 21], PView [10, 11, 12], PInt 5])"
proof -
  have "phs (PList [placeholder 1 2, placeholder 0 3, PInt 5]) = [(1, 2), (0, 3)]"
    by (simp add: phs_fill_placeholder)
  then have "frame_ok (PList [placeholder 1 2, placeholder 0 3, PInt 5]) [[10, 11, 12], [20, 21]]"
    by (auto simp: frame_ok_def ph_fits_def)
  from decode_any_order [OF _ _ this, of "[9]" "\<lambda>_. Inr (PList [placeholder 1 2, placeholder 0 3, PInt 5])"]
  show ?thesis by (simp add: phs_fill_placeholder seg_table_def)
qed



text \<open>
  The proviso is needed: the encoder does not escape a map of the user that looks like a
  placeholder, and next to a large binary such a map makes the decoder raise.
\<close>

definition lookalike_message :: pyval where
  "lookalike_message = PList [PDict [(PStr ''__cui_bin__'', PInt 0), (PStr ''l'', PInt 0)],
                              PBytes (replicate 16384 1)]"

lemma lookalike_message_lost:
  "\<exists>w. encode_message (\<lambda>_. Inr [7]) lookalike_message = Inr w \<and>
       decode_message (\<lambda>_. Inr (mp_norm (envelope_of lookalike_message))) w = Inl (Raised KeyError ''0'')"
proof -
  have env: "envelope_of lookalike_message = PList [placeholder 0 0, placeholder 0 16384]"
    by (simp add: lookalike_message_def envelope_of_def as_extractable_segment_def
        BINARY_EXTRACT_THRESHOLD_def placeholder_def PLACEHOLDER_KEY_def)
  have bin: "binaries lookalike_message = [replicate 16384 1]"
    by (simp add: lookalike_message_def as_extractable_segment_def BINARY_EXTRACT_THRESHOLD_def)
  have ph: "placeholder i n = PDict [(PStr ''__cui_bin__'', PInt (int i)), (PStr ''l'', PInt (int n))]" for i n
    by (simp add: placeholder_def PLACEHOLDER_KEY_def)
  show ?thesis
    using phs_placeholder [of 0 0] phs_placeholder [of 0 16384]
      decode_framed [of "cuib_frame [7] [replicate 16384 1]" "[7]" "[replicate 16384 1]"
        "length (cuib_frame [7] [replicate 16384 1])" "\<lambda>_. Inr (mp_norm (envelope_of lookalike_message))"
        "mp_norm (envelope_of lookalike_message)"]
    by (simp add: encode_message_eq env bin cuib_frame_def ph restore_init_def Let_def MAGIC_def le32_def
        restore_remaining_def show_nat.simps)
qed

end
