(* ===== verification/Dispatch.thy ===== *)
theory Dispatch
  imports Callbacks Pull_Callback Streams Codec_Correct
begin

text \<open>
  Serving requests: \<open>register_handler\<close> of \<open>client.py\<close> with its \<open>handle_message\<close>, which tells the kinds
  of request apart, runs the handler and answers, the combined cleanup that it returns, and
  \<open>on_request\<close> for native requests.
\<close>

section \<open>Kinds of requests\<close>

datatype request_kind =
    Stream_Request pyval pyval
  | Pull_Request pyval pyval
  | Pull_Callback_Request pyval pyval pyval pyval
  | Callback_Request pyval pyval
  | Normal_Request pyval

text \<open>\<open>params.get(key) is not None\<close>\<close>

definition has_value :: "(pyval \<times> pyval) list \<Rightarrow> string \<Rightarrow> bool" where
  "has_value d k \<longleftrightarrow> sget_or_none d k \<noteq> PNone"

definition get_default :: "(pyval \<times> pyval) list \<Rightarrow> string \<Rightarrow> pyval \<Rightarrow> pyval" where
  "get_default d k v = (case sget d k of None \<Rightarrow> v | Some x \<Rightarrow> x)"

text \<open>
  The parameters that carry a marker: the dictionary itself, or the first element of a list, which
  is how \<open>call\<close> wraps its arguments.
\<close>

definition marked_params :: "string \<Rightarrow> pyval \<Rightarrow> (pyval \<times> pyval) list option" where
  "marked_params key params = (case params of
      PDict d \<Rightarrow> if truthy (sget_or_none d key) then Some d else None
    | PList (PDict d # _) \<Rightarrow> if truthy (sget_or_none d key) then Some d else None
    | _ \<Rightarrow> None)"

definition callback_marked :: "pyval \<Rightarrow> (pyval \<times> pyval) list option" where
  "callback_marked params = (case params of
      PDict d \<Rightarrow> if has_value d ''__callback'' \<and> has_value d ''__callbackSubject'' then Some d else None
    | PList (PDict d # _) \<Rightarrow> if truthy (sget_or_none d ''__callback'') then Some d else None
    | _ \<Rightarrow> None)"

definition stream_marked :: "pyval \<Rightarrow> (pyval \<times> pyval) list option" where
  "stream_marked params = (case params of
      PDict d \<Rightarrow> if has_value d ''__stream'' \<and> has_value d ''__streamSubject'' then Some d else None
    | _ \<Rightarrow> None)"

text \<open>
  The chain of tests in \<open>handle_message\<close>; \<open>default_id\<close> is \<open>message["id"]\<close>. A callback request without
  subject raises.
\<close>

definition classify :: "pyval \<Rightarrow> pyval \<Rightarrow> exc + request_kind" where
  "classify default_id params =
     (case stream_marked params of
        Some d \<Rightarrow> Inr (Stream_Request (sget_or_none d ''__streamSubject'') (get_default d ''args'' (PList [])))
      | None \<Rightarrow>
     (case marked_params ''__pullIterator'' params of
        Some d \<Rightarrow> Inr (Pull_Request (get_default d ''__iteratorId'' default_id) (get_default d ''args'' (PList [])))
      | None \<Rightarrow>
     (case marked_params ''__pullCallback'' params of
        Some d \<Rightarrow> Inr (Pull_Callback_Request (get_default d ''__iteratorId'' default_id)
          (get_default d ''__callbackSubject'' (PStr [])) (get_default d ''__onewayMethods'' (PList []))
          (get_default d ''args'' (PList [])))
      | None \<Rightarrow>
     (case callback_marked params of
        Some d \<Rightarrow>
          (case sget d ''__callbackSubject'' of
             None \<Rightarrow> Inl (Raised KeyError ''__callbackSubject'')
           | Some s \<Rightarrow> Inr (Callback_Request s (get_default d ''args'' (PList []))))
      | None \<Rightarrow> Inr (Normal_Request params)))))"

section \<open>Answering a request\<close>

text \<open>
  The state that the registrations of a client share, and what one registration keeps itself
  (\<open>sv_pull_ids\<close>, \<open>sv_callback_ids\<close>). \<open>'h\<close> is the cleanup function of a session. \<open>sv_replies\<close> are the
  responses published, with the id of their reply subject, \<open>sv_streams\<close> the stream tasks started.
\<close>

record 'h server =
  sv_pull :: "(pyval, 'h) pydict"
  sv_callback :: "(pyval, 'h) pydict"
  sv_pull_ids :: "pyval list"
  sv_callback_ids :: "pyval list"
  sv_replies :: "(pyval \<times> pyval) list"
  sv_streams :: "(pyval \<times> pyval \<times> pyval) list"
  sv_printed :: "exc list"

text \<open>
  What a request meets: \<open>en_open\<close> opens the session that a request asks for, \<open>en_call\<close> runs
  the handler for a normal request, \<open>en_clock\<close> are the two time stamps, \<open>en_publish\<close> is what
  publishing a response raises, \<open>en_closed\<close> is \<open>client.is_closed\<close>.
\<close>

record 'h environment =
  en_open :: "request_kind \<Rightarrow> exc + 'h"
  en_call :: "pyval list \<Rightarrow> exc + pyval"
  en_clock :: "int \<times> int"
  en_publish :: "pyval \<Rightarrow> exc option"
  en_closed :: bool

definition base_response :: "string list \<Rightarrow> pyval \<Rightarrow> (pyval \<times> pyval) list \<Rightarrow> (pyval \<times> pyval) list" where
  "base_response methods rid message =
     (PStr ''id'', rid) # (if sget message ''__discover'' = Some (PBool True)
                            then [(PStr ''__methods'', PList (map PStr methods))] else [])"

definition timing_stamp :: "int \<times> int \<Rightarrow> pyval" where
  "timing_stamp t = PDict [(PStr ''start'', PInt (fst t)), (PStr ''end'', PInt (snd t))]"

text \<open>
  The body of the try block up to the publish of the response: the new state, and the response (none
  for a stream) or the exception.
\<close>

definition serve_request :: "'h environment \<Rightarrow> pyval \<Rightarrow> (pyval \<times> pyval) list \<Rightarrow> (pyval \<times> pyval) list \<Rightarrow> 'h server
    \<Rightarrow> 'h server \<times> (exc + (pyval \<times> pyval) list option)" where
  "serve_request env rid message response s =
     (case classify rid (sget_or_none message ''params'') of
        Inl e \<Rightarrow> (s, Inl e)
      | Inr (Stream_Request subject args) \<Rightarrow>
          (s\<lparr>sv_streams := sv_streams s @ [(subject, args, rid)]\<rparr>, Inr None)
      | Inr (Pull_Request i args) \<Rightarrow>
          (case en_open env (Pull_Request i args) of
             Inl e \<Rightarrow> (s, Inl e)
           | Inr h \<Rightarrow>
               if \<not> hashable i then (s, Inl (Raised TypeError ''unhashable type'')) else
               (s\<lparr>sv_pull := dset i h (sv_pull s), sv_pull_ids := sv_pull_ids s @ [i]\<rparr>,
                Inr (Some (response @ [(PStr ''result'', PDict [(PStr ''iteratorId'', i)])]))))
      | Inr (Pull_Callback_Request i subject oneway args) \<Rightarrow>
          (case en_open env (Pull_Callback_Request i subject oneway args) of
             Inl e \<Rightarrow> (s, Inl e)
           | Inr h \<Rightarrow>
               if \<not> hashable i then (s, Inl (Raised TypeError ''unhashable type'')) else
               (s\<lparr>sv_pull := dset i h (sv_pull s), sv_pull_ids := sv_pull_ids s @ [i]\<rparr>,
                Inr (Some (response @ [(PStr ''result'', PDict [(PStr ''iteratorId'', i)])]))))
      | Inr (Callback_Request subject args) \<Rightarrow>
          (case en_open env (Callback_Request subject args) of
             Inl e \<Rightarrow> (s, Inl e)
           | Inr h \<Rightarrow>
               if \<not> hashable rid then (s, Inl (Raised TypeError ''unhashable type'')) else
               (s\<lparr>sv_callback := dset rid h (sv_callback s), sv_callback_ids := sv_callback_ids s @ [rid]\<rparr>,
                Inr (Some (response @ [(PStr ''result'', PDict [(PStr ''ok'', PBool True)])]))))
      | Inr (Normal_Request params) \<Rightarrow>
          (case en_call env (normal_args (get_default message ''params'' (PList []))) of
             Inl e \<Rightarrow> (s, Inl e)
           | Inr v \<Rightarrow>
               (s, Inr (Some (response @
                  (if sget message ''__timing'' = Some (PBool True)
                   then [(PStr ''__timing'', timing_stamp (en_clock env))] else []) @ [(PStr ''result'', v)])))))"

text \<open>The \<open>except\<close> branch: the response so far gets the error and is published instead.\<close>

definition error_reply :: "(exc \<Rightarrow> string) \<Rightarrow> 'h environment \<Rightarrow> string list \<Rightarrow> pyval \<Rightarrow> (pyval \<times> pyval) list \<Rightarrow> exc
    \<Rightarrow> 'h server \<Rightarrow> 'h server" where
  "error_reply str env methods rid response e s =
     (let error_dict = format_error_dict str e;
          response = dset (PStr ''error'') (PDict error_dict) response;
          response = (if sget error_dict ''code'' = Some (PStr (code_value METHOD_NOT_FOUND))
                      then dset (PStr ''__methods'') (PList (map PStr methods)) response else response)
      in case en_publish env (PDict response) of
           None \<Rightarrow> s\<lparr>sv_replies := sv_replies s @ [(rid, PDict response)]\<rparr>
         | Some pe \<Rightarrow> if en_closed env then s else s\<lparr>sv_printed := sv_printed s @ [pe]\<rparr>)"

definition handle_message :: "(exc \<Rightarrow> string) \<Rightarrow> 'h environment \<Rightarrow> string list \<Rightarrow> pyval \<Rightarrow> 'h server \<Rightarrow> 'h server" where
  "handle_message str env methods msg s =
     (case msg of
        PDict message \<Rightarrow>
          (case sget message ''id'' of
             None \<Rightarrow> s\<lparr>sv_printed := sv_printed s @ [Raised KeyError ''id'']\<rparr>
           | Some rid \<Rightarrow>
               let response = base_response methods rid message
               in case serve_request env rid message response s of
                    (s, Inl e) \<Rightarrow> error_reply str env methods rid response e s
                  | (s, Inr None) \<Rightarrow> s
                  | (s, Inr (Some response)) \<Rightarrow>
                      (case en_publish env (PDict response) of
                         None \<Rightarrow> s\<lparr>sv_replies := sv_replies s @ [(rid, PDict response)]\<rparr>
                       | Some e \<Rightarrow> error_reply str env methods rid response e s))
      | _ \<Rightarrow> s\<lparr>sv_printed := sv_printed s @ [Raised TypeError ''indices must be integers'']\<rparr>)"

definition handler_subject :: "string \<Rightarrow> string \<Rightarrow> string" where
  "handler_subject ns meth = ''rpc.'' @ ns @ ''.'' @ meth"

section \<open>Unregistering\<close>

text \<open>
  The sessions that the cleanup function ends: those of its own registration, as far as they are still
  in the maps of the client. The cleanups that run are collected in order.
\<close>

fun pop_all :: "'k list \<Rightarrow> ('k, 'h) pydict \<Rightarrow> ('k, 'h) pydict \<times> 'h list" where
  "pop_all [] d = (d, [])"
| "pop_all (k # ks) d =
     (case dget d k of
        None \<Rightarrow> pop_all ks d
      | Some h \<Rightarrow> (case pop_all ks (dpop k d) of (d', hs) \<Rightarrow> (d', h # hs)))"

definition unregister :: "'h server \<Rightarrow> 'h server \<times> 'h list" where
  "unregister s =
     (case pop_all (sv_pull_ids s) (sv_pull s) of
        (p, hs) \<Rightarrow>
          (case pop_all (sv_callback_ids s) (sv_callback s) of
             (c, hs') \<Rightarrow> (s\<lparr>sv_pull := p, sv_callback := c\<rparr>, hs @ hs')))"

section \<open>Native requests\<close>

text \<open>
  \<open>handle_request\<close> of \<open>on_request\<close>: the bytes that it responds with, if any, or the exception that
  leaves it. \<open>call\<close> is the handler, \<open>respond\<close> what \<open>msg.respond\<close> raises.
\<close>

definition request_failure :: "(exc \<Rightarrow> string) \<Rightarrow> exc \<Rightarrow> pyval" where
  "request_failure str e = PDict [(PStr ''error'', PStr (str e)),
     (PStr ''code'', case e of RPC r \<Rightarrow> exc_code r | _ \<Rightarrow> PStr (code_value INTERNAL_ERROR))]"

definition handle_request :: "(exc \<Rightarrow> string) \<Rightarrow> (pyval \<Rightarrow> exc + bytes) \<Rightarrow> (bytes \<Rightarrow> exc + pyval) \<Rightarrow> (pyval \<Rightarrow> exc + pyval)
    \<Rightarrow> (bytes \<Rightarrow> exc option) \<Rightarrow> nats_msg \<Rightarrow> exc + bytes option" where
  "handle_request str pack unpack call respond msg =
     (let answer = (\<lambda>w. case respond w of None \<Rightarrow> Inr (Some w) | Some e \<Rightarrow> Inl e);
          body = (case decode_message unpack (nm_data msg) of
             Inl e \<Rightarrow> Inl e
           | Inr data \<Rightarrow>
               (case call data of
                  Inl e \<Rightarrow> Inl e
                | Inr v \<Rightarrow>
                    if nm_reply msg = [] then Inr None
                    else (case encode_message pack v of Inl e \<Rightarrow> Inl e | Inr w \<Rightarrow> answer w)))
      in case body of
           Inr r \<Rightarrow> Inr r
         | Inl e \<Rightarrow>
             if nm_reply msg = [] then Inr None
             else (case encode_message pack (request_failure str e) of Inl e' \<Rightarrow> Inl e' | Inr w \<Rightarrow> answer w))"

section \<open>Client and server agree on the kinds of requests\<close>

definition unmarked :: "pyval list \<Rightarrow> bool" where
  "unmarked args = (case args of
      PDict d # _ \<Rightarrow> list_all (\<lambda>k. \<not> truthy (sget_or_none d k)) [''__pullIterator'', ''__pullCallback'', ''__callback'']
    | _ \<Rightarrow> True)"

lemma wire_items_sget: "sget (wire_items d) k = map_option wire_view (sget d k)"
  by (induction d) (auto simp: sget_def)

lemma truthy_wire: "truthy (wire_view v) = truthy v"
proof (cases v)
  case (PDict d)
  then show ?thesis by (cases d) auto
next
  case (PList xs)
  then show ?thesis by (cases xs) auto
next
  case (PTuple xs)
  then show ?thesis by (cases xs) auto
qed (auto simp: as_extractable_segment_def)

lemma truthy_wire_get: "truthy (sget_or_none (wire_items d) k) = truthy (sget_or_none d k)"
  by (simp add: sget_or_none_def wire_items_sget truthy_wire split: option.split)

lemma wire_elems_append: "wire_elems xs = map wire_view xs"
  by (induction xs) auto

lemma wire_str: "wire_view (PStr s) = PStr s" "wire_view (PBool b) = PBool b"
  by (simp_all add: as_extractable_segment_def)

lemma marked_unmarked:
  assumes "unmarked args" "key \<in> {''__pullIterator'', ''__pullCallback'', ''__callback''}"
  shows "marked_params key (wire_view (PTuple args)) = None"
proof (cases args)
  case (Cons a as)
  show ?thesis
  proof (cases a)
    case (PDict d)
    then have "\<not> truthy (sget_or_none d key)" using assms by (auto simp: unmarked_def Cons)
    then show ?thesis by (simp add: marked_params_def Cons PDict truthy_wire_get)
  qed (auto simp: marked_params_def Cons as_extractable_segment_def)
qed (simp add: marked_params_def)

lemma callback_unmarked: "unmarked args \<Longrightarrow> callback_marked (wire_view (PTuple args)) = None"
  using marked_unmarked [of args "''__callback''"]
  by (cases args) (auto simp: callback_marked_def marked_params_def split: pyval.splits)

text \<open>
  C30. Whatever the client sends, as it arrives after encoding and decoding, is recognised by the server
  as the kind of request that it is, with the identifiers and arguments that the client put in; plain
  calls are taken for a session request only if their first argument is a dictionary with a marker key.
\<close>

theorem requests_recognised:
  "classify rid (wire_view (PTuple [pull_params i args])) = Inr (Pull_Request (PStr i) (PList (map wire_view args))) \<and>
   classify rid (wire_view (PTuple [pull_callback_params i cbs methods oneway args]))
     = Inr (Pull_Callback_Request (PStr i) (PStr cbs) (PList (map PStr oneway)) (PList (map wire_view args))) \<and>
   classify rid (wire_view (PTuple [callback_params cid args]))
     = Inr (Callback_Request (PStr (callback_subject cid)) (PList (map wire_view args))) \<and>
   (\<exists>d p. wire_view (stream_request sid subject args) = PDict d \<and> sget d ''params'' = Some p \<and>
     classify rid p = Inr (Stream_Request (PStr (stream_subject subject sid)) (PList (map wire_view args)))) \<and>
   (unmarked args \<longrightarrow> classify rid (wire_view (PTuple args)) = Inr (Normal_Request (PList (map wire_view args))))"
proof -
  have strs: "map wire_view (map PStr ss) = map PStr ss" for ss by (simp add: as_extractable_segment_def)
  have p: "classify rid (wire_view (PTuple [pull_params i args])) = Inr (Pull_Request (PStr i) (PList (map wire_view args)))"
    by (simp add: classify_def pull_params_def stream_marked_def marked_params_def get_default_def as_extractable_segment_def wire_elems_append)
  have q: "classify rid (wire_view (PTuple [pull_callback_params i cbs methods oneway args]))
     = Inr (Pull_Callback_Request (PStr i) (PStr cbs) (PList (map PStr oneway)) (PList (map wire_view args)))"
    using strs by (simp add: classify_def pull_callback_params_def stream_marked_def marked_params_def get_default_def as_extractable_segment_def
        wire_elems_append)
  have r: "classify rid (wire_view (PTuple [callback_params cid args]))
     = Inr (Callback_Request (PStr (callback_subject cid)) (PList (map wire_view args)))"
    by (simp add: classify_def callback_params_def stream_marked_def marked_params_def callback_marked_def get_default_def
        as_extractable_segment_def wire_elems_append)
  have s: "\<exists>d p. wire_view (stream_request sid subject args) = PDict d \<and> sget d ''params'' = Some p \<and>
     classify rid p = Inr (Stream_Request (PStr (stream_subject subject sid)) (PList (map wire_view args)))"
    by (simp add: classify_def stream_request_def stream_marked_def has_value_def get_default_def as_extractable_segment_def wire_elems_append)
  have t: "classify rid (wire_view (PTuple args)) = Inr (Normal_Request (PList (map wire_view args)))" if "unmarked args"
    using marked_unmarked [OF that] callback_unmarked [OF that]
    by (simp add: classify_def stream_marked_def wire_elems_append)
  show ?thesis using p q r s t by blast
qed

theorem requests_recognised_witness:
  "classify (PStr ''r'') (wire_view (PTuple [PInt 3, PTuple [PNone]]))
     = Inr (Normal_Request (PList (map wire_view [PInt 3, PTuple [PNone]])))"
  using requests_recognised [of "PStr ''r''" "[]" "[PInt 3, PTuple [PNone]]" "[]" "[]" "[]" "[]" "[]" "[]"]
  by (simp add: unmarked_def)

section \<open>Every request is answered once\<close>

lemma sget_dset [simp]: "sget (dset (PStr k) v d) k' = (if k = k' then Some v else sget d k')"
  by (simp add: sget_def)

lemma sget_append: "sget (xs @ ys) k = (case sget xs k of None \<Rightarrow> sget ys k | Some v \<Rightarrow> Some v)"
  by (simp add: sget_def map_add_def split: option.split)

lemma base_response_keys:
  "sget (base_response methods rid message) ''id'' = Some rid"
  "k \<noteq> ''id'' \<Longrightarrow> k \<noteq> ''__methods'' \<Longrightarrow> sget (base_response methods rid message) k = None"
  by (auto simp: base_response_def)

text \<open>What serving leaves alone, and what a response always has.\<close>

lemma serve_request_keeps:
  assumes "serve_request env rid message (base_response methods rid message) s = (s', r)"
  shows "sv_replies s' = sv_replies s \<and> sv_printed s' = sv_printed s \<and>
    (case r of
       Inr None \<Rightarrow> (\<exists>subject args. classify rid (sget_or_none message ''params'') = Inr (Stream_Request subject args) \<and>
         sv_streams s' = sv_streams s @ [(subject, args, rid)])
     | Inr (Some response) \<Rightarrow> sv_streams s' = sv_streams s \<and> sget response ''id'' = Some rid \<and>
         sget response ''error'' = None \<and> (\<exists>v. sget response ''result'' = Some v)
     | Inl e \<Rightarrow> sv_streams s' = sv_streams s)"
proof (cases "classify rid (sget_or_none message ''params'')")
  case (Inl e)
  then show ?thesis using assms by (auto simp: serve_request_def)
next
  case (Inr k)
  note b = base_response_keys
  show ?thesis
  proof (cases k)
    case (Normal_Request params)
    then show ?thesis
      using assms Inr b by (auto simp: serve_request_def sget_append split: sum.splits if_splits)
  qed (use assms Inr b in \<open>auto simp: serve_request_def sget_append split: sum.splits if_splits\<close>)
qed

lemma error_reply_sent:
  assumes "\<forall>v. en_publish env v = None" "sget response ''id'' = Some rid"
  shows "\<exists>d. error_reply str env methods rid response e s = s\<lparr>sv_replies := sv_replies s @ [(rid, PDict d)]\<rparr> \<and>
    sget d ''id'' = Some rid \<and> sget d ''error'' = Some (PDict (format_error_dict str e)) \<and>
    sget d ''result'' = sget response ''result''"
  using assms by (auto simp: error_reply_def Let_def)



definition demo_env :: "nat environment" where
  "demo_env = \<lparr>en_open = (\<lambda>_. Inr 0), en_call = (\<lambda>args. if args = [] then Inl (Raised ValueError ''empty'') else Inr (hd args)),
     en_clock = (5, 8), en_publish = (\<lambda>_. None), en_closed = False\<rparr>"

definition demo_server :: "nat server" where
  "demo_server = \<lparr>sv_pull = [], sv_callback = [], sv_pull_ids = [], sv_callback_ids = [], sv_replies = [],
     sv_streams = [], sv_printed = []\<rparr>"


section \<open>What the caller sees\<close>

text \<open>The exception that a caller gets for one of the handler: its own class travels only as a code.\<close>

definition received_exc :: "(exc \<Rightarrow> string) \<Rightarrow> exc \<Rightarrow> rpc_exception" where
  "received_exc str e = (case e of
      RPC r \<Rightarrow> r\<lparr>exc_data := wire_view (exc_data r)\<rparr>
    | _ \<Rightarrow> create_error (Inl INTERNAL_ERROR) (str e) PNone)"

lemma wire_items_dset: "wire_items (dset k v d) = dset k (wire_view v) (wire_items d)"
  by (induction d) auto

lemma wire_items_append: "wire_items (xs @ ys) = wire_items xs @ wire_items ys"
  by (induction xs) auto

lemma is_str_wire: "is_str v \<Longrightarrow> wire_view v = v"
  by (cases v) (auto simp: as_extractable_segment_def)

lemma from_dict_wire: "typed_exc e \<Longrightarrow> from_dict (wire_view (PDict (format_error_dict str e))) = Inr (received_exc str e)"
  by (cases e) (auto simp: typed_exc_def received_exc_def format_error_dict_def to_dict_def from_dict_def create_error_def
      is_str_wire as_extractable_segment_def)

lemma plain_call_served:
  assumes "\<forall>v. en_publish env v = None" "\<forall>e args. en_call env args = Inl e \<longrightarrow> typed_exc e"
    and "sget message ''id'' = Some rid" "sget message ''params'' = Some (wire_view (PTuple args))" "unmarked args"
    and "sget message ''__discover'' = None"
  shows "\<exists>d. sv_replies (handle_message str env methods (PDict message) s) = sv_replies s @ [(rid, PDict d)] \<and>
    sget d ''id'' = Some rid \<and>
    response_outcome (wire_items d) = (case en_call env (map wire_view args) of
        Inr v \<Rightarrow> Inr (Done_Result (wire_view v))
      | Inl e \<Rightarrow> Inr (Done_Error (RPC (received_exc str e))))"
proof -
  have k: "classify rid (sget_or_none message ''params'') = Inr (Normal_Request (PList (map wire_view args)))"
    using marked_unmarked [OF assms(5)] callback_unmarked [OF assms(5)] assms(4)
    by (simp add: sget_or_none_def classify_def stream_marked_def wire_elems_append)
  have a: "normal_args (get_default message ''params'' (PList [])) = map wire_view args"
    using assms(4) by (simp add: get_default_def normal_args_def wire_elems_append)
  have b: "base_response methods rid message = [(PStr ''id'', rid)]"
    using assms(6) by (simp add: base_response_def)
  show ?thesis
  proof (cases "en_call env (map wire_view args)")
    case (Inr v)
    let ?t = "if sget message ''__timing'' = Some (PBool True) then [(PStr ''__timing'', timing_stamp (en_clock env))] else []"
    let ?d = "(PStr ''id'', rid) # ?t @ [(PStr ''result'', v)]"
    have served: "serve_request env rid message (base_response methods rid message) s = (s, Inr (Some ?d))"
      using Inr by (simp add: serve_request_def k a b)
    have "sv_replies (handle_message str env methods (PDict message) s) = sv_replies s @ [(rid, PDict ?d)]"
      using assms(1,3) served by (simp add: handle_message_def)
    moreover have "response_outcome (wire_items ?d) = Inr (Done_Result (wire_view v))"
      by (simp add: response_outcome_def wire_items_sget attach_methods_def sget_or_none_def sget_append)
    moreover have "sget ?d ''id'' = Some rid" by simp
    ultimately show ?thesis using Inr by auto
  next
    case (Inl e)
    have served: "serve_request env rid message (base_response methods rid message) s = (s, Inl e)"
      using Inl by (simp add: serve_request_def k a b)
    have "typed_exc e" using Inl assms(2) by blast
    then have w: "from_dict (PDict (wire_items (format_error_dict str e))) = Inr (received_exc str e)"
      using from_dict_wire [of e str] by simp
    have "sget [(PStr ''id'', rid)] ''id'' = Some rid" by simp
    from error_reply_sent [OF assms(1) this, of str methods e s] obtain d
      where "error_reply str env methods rid [(PStr ''id'', rid)] e s = s\<lparr>sv_replies := sv_replies s @ [(rid, PDict d)]\<rparr>"
        and d: "sget d ''id'' = Some rid" "sget d ''error'' = Some (PDict (format_error_dict str e))" by blast
    then have "sv_replies (handle_message str env methods (PDict message) s) = sv_replies s @ [(rid, PDict d)]"
      using assms(3) served b by (simp add: handle_message_def)
    then show ?thesis using Inl w d by (auto simp: response_outcome_def wire_items_sget)
  qed
qed

text \<open>
  C32. The outcome of a call is the outcome of the handler: for a plain request with the connection up, the
  response as it arrives settles the call of the client with the value that the handler returned, or with
  the exception that it raised.
\<close>

theorem call_outcome_travels:
  assumes "\<forall>v. en_publish env v = None" "\<forall>e args. en_call env args = Inl e \<longrightarrow> typed_exc e"
    and "sget message ''id'' = Some rid" "sget message ''params'' = Some (wire_view (PTuple args))" "unmarked args"
    and "sget message ''__discover'' = None"
  shows "\<exists>d. sv_replies (handle_message str env methods (PDict message) s) = sv_replies s @ [(rid, PDict d)] \<and>
    response_outcome (wire_items d) = (case en_call env (map wire_view args) of
        Inr v \<Rightarrow> Inr (Done_Result (wire_view v))
      | Inl e \<Rightarrow> Inr (Done_Error (RPC (received_exc str e))))"
  using plain_call_served [OF assms] by blast

theorem call_outcome_travels_witness:
  "\<exists>d. sv_replies (handle_message (\<lambda>_. ''empty'') demo_env [''m''] (PDict [(PStr ''id'', PStr ''r''), (PStr ''params'', PList [PInt 7])])
     demo_server) = sv_replies demo_server @ [(PStr ''r'', PDict d)] \<and> response_outcome (wire_items d) = Inr (Done_Result (PInt 7))"
  using call_outcome_travels [of demo_env "[(PStr ''id'', PStr ''r''), (PStr ''params'', PList [PInt 7])]" "PStr ''r''" "[PInt 7]"
      "\<lambda>_. ''empty''" "[''m'']" demo_server]
  by (simp add: demo_env_def unmarked_def typed_exc_def as_extractable_segment_def)

section \<open>Responses are of their type\<close>


lemma typed_dict_dset:
  assumes "typed_dict req opt (PDict d)" "map_of (req @ opt) k = Some t" "t v" "distinct (map fst (req @ opt))"
  shows "typed_dict req opt (PDict (dset (PStr k) v d))"
proof -
  let ?P = "\<lambda>(k, x). case k of PStr s \<Rightarrow> (case map_of (req @ opt) s of None \<Rightarrow> False | Some t \<Rightarrow> t x) | _ \<Rightarrow> False"
  have all: "list_all P (dset (PStr k) v d)" if "list_all P d" "P (PStr k, v)" for P :: "pyval \<times> pyval \<Rightarrow> bool"
    using that by (induction d) auto
  have t: "t' = t" if "(k, t') \<in> set req" for t'
    using that assms(2,4) map_of_is_SomeI [of "req @ opt" k t'] by (auto simp del: map_of_append)
  have "list_all ?P (dset (PStr k) v d)"
    by (rule all) (use assms(1-3) in \<open>simp_all add: typed_dict_def del: map_of_append\<close>)
  moreover have "list_all (\<lambda>(k', t'). case sget (dset (PStr k) v d) k' of None \<Rightarrow> False | Some x \<Rightarrow> t' x) req"
    using assms(1,3) t by (auto simp: typed_dict_def list_all_iff)
  ultimately show ?thesis by (simp add: typed_dict_def)
qed

lemma RPCResponse_error:
  assumes "RPCResponse (PDict d)" "typed_exc e"
  shows "RPCResponse (PDict (dset (PStr ''error'') (PDict (format_error_dict str e)) d))"
  using typed_dict_dset [OF assms(1) [unfolded RPCResponse_def], of "''error''" "or_none RPCError"] RPCError_format [OF assms(2)]
  by (simp add: RPCResponse_def or_none_def)

lemma RPCResponse_methods:
  assumes "RPCResponse (PDict d)"
  shows "RPCResponse (PDict (dset (PStr ''__methods'') (PList (map PStr methods)) d))"
  using typed_dict_dset [OF assms(1) [unfolded RPCResponse_def], of "''__methods''" "or_none (list_of is_str)"]
  by (simp add: RPCResponse_def or_none_def list_all_iff)

lemma RPCResponse_base:
  assumes "is_str rid"
  shows "RPCResponse (PDict (base_response methods rid message))"
    and "RPCResponse (PDict (base_response methods rid message @ [(PStr ''result'', v)]))"
    and "RPCResponse (PDict (base_response methods rid message @ [(PStr ''__timing'', timing_stamp t), (PStr ''result'', v)]))"
  using assms by (auto simp: base_response_def RPCResponse_def typed_dict_def or_none_def list_all_iff sget_append
      timing_stamp_def RPCTiming_def)

lemma serve_request_typed:
  assumes "is_str rid" "serve_request env rid message (base_response methods rid message) s = (s', Inr (Some d))"
  shows "RPCResponse (PDict d)"
  using assms(2) by (auto simp: serve_request_def RPCResponse_base [OF assms(1)] split: sum.splits request_kind.splits if_splits)



section \<open>Results that cannot be serialised\<close>

text \<open>
  The error response is built on top of the response that could not be published, and still holds the
  result: if no message with that result can be published, the caller gets no answer at all.
\<close>

lemma unserialisable_result_lost:
  assumes "classify rid (sget_or_none message ''params'') = Inr (Normal_Request p)" "sget message ''id'' = Some rid"
    and "en_call env (normal_args (get_default message ''params'' (PList []))) = Inr v"
    and "\<forall>d. sget d ''result'' = Some v \<longrightarrow> en_publish env (PDict d) \<noteq> None"
  shows "sv_replies (handle_message str env methods (PDict message) s) = sv_replies s"
proof -
  obtain d where d: "serve_request env rid message (base_response methods rid message) s = (s, Inr (Some d))"
    "sget d ''result'' = Some v"
    using assms(1,3) base_response_keys(2) [of "''result''" methods rid message]
    by (auto simp: serve_request_def sget_append)
  obtain e where e: "en_publish env (PDict d) = Some e" using assms(4) d(2) by fastforce
  have "en_publish env (PDict (dset (PStr ''error'') x d)) \<noteq> None"
    "en_publish env (PDict (dset (PStr ''__methods'') y (dset (PStr ''error'') x d))) \<noteq> None" for x y
    using assms(4) d(2) by simp_all
  then have "sv_replies (error_reply str env methods rid d e s) = sv_replies s"
    by (auto simp: error_reply_def Let_def simp del: not_None_eq split: option.split)
  then show ?thesis using assms(2) d(1) e by (simp add: handle_message_def)
qed

section \<open>Unregistering leaves other registrations alone\<close>

lemma pop_all_spec:
  "pop_all ks d = (d', hs) \<Longrightarrow>
     (\<forall>k. dget d' k = (if k \<in> set ks then None else dget d k)) \<and> set hs = {h. \<exists>k \<in> set ks. dget d k = Some h}"
proof (induction ks arbitrary: d d' hs)
  case (Cons k ks)
  show ?case
  proof (cases "dget d k")
    case None
    then show ?thesis using Cons by auto
  next
    case (Some h)
    then obtain hs2 where r: "pop_all ks (dpop k d) = (d', hs2)" "hs = h # hs2"
      using Cons.prems by (auto split: prod.splits)
    show ?thesis using Cons.IH [OF r(1)] r(2) Some by (auto simp: delete_conv' split: if_splits) (metis option.inject)
  qed
qed simp

text \<open>
  The cleanup function of a registration ends exactly the live sessions of that registration, and leaves
  the sessions of every other registration alone.
\<close>

lemma unregister_own:
  assumes "unregister s = (s', hs)"
  shows "set hs = {h. (\<exists>i \<in> set (sv_pull_ids s). dget (sv_pull s) i = Some h) \<or>
                      (\<exists>i \<in> set (sv_callback_ids s). dget (sv_callback s) i = Some h)} \<and>
    (\<forall>i. dget (sv_pull s') i = (if i \<in> set (sv_pull_ids s) then None else dget (sv_pull s) i)) \<and>
    (\<forall>i. dget (sv_callback s') i = (if i \<in> set (sv_callback_ids s) then None else dget (sv_callback s) i))"
proof -
  obtain p h1 where p: "pop_all (sv_pull_ids s) (sv_pull s) = (p, h1)" by fastforce
  obtain c h2 where c: "pop_all (sv_callback_ids s) (sv_callback s) = (c, h2)" by fastforce
  show ?thesis using assms p c pop_all_spec [OF p] pop_all_spec [OF c] by (auto simp: unregister_def)
qed

end
