(* ===== verification/Calls_Correct.thy ===== *)
theory Calls_Correct
  imports Calls
begin

text \<open>
  The correctness of calls in flight: entries, timers and waiting futures belong together in every
  reachable state, so no caller is left behind; futures are settled once; responses and statuses
  settle the call they name; tearing down settles everything.
\<close>

section \<open>The invariant\<close>

definition waits :: "client_calls \<Rightarrow> nat \<Rightarrow> bool" where
  "waits c f \<longleftrightarrow> f < length (cc_futures c) \<and> cc_futures c ! f = Waiting \<and> dget (cc_raised c) f = None"

text \<open>
  Entries and armed timers correspond one to one, and every future that a caller still waits for
  has them, apart from those in \<open>F\<close>, which the current operation has taken on itself to settle.
\<close>

definition calls_ok_but :: "nat set \<Rightarrow> client_calls \<Rightarrow> bool" where
  "calls_ok_but F c \<longleftrightarrow>
     (\<forall>rid p. dget (cc_pending c) rid = Some p \<longrightarrow> pr_timeout p = pr_future p \<and>
        pr_future p < length (cc_futures c) \<and> (\<exists>s. dget (cc_timers c) (pr_future p) = Some (rid, s))) \<and>
     (\<forall>f rid s. dget (cc_timers c) f = Some (rid, s) \<longrightarrow> (\<exists>p. dget (cc_pending c) rid = Some p \<and> pr_future p = f)) \<and>
     (\<forall>f. waits c f \<and> f \<notin> F \<longrightarrow> (\<exists>rid s. dget (cc_timers c) f = Some (rid, s))) \<and>
     (\<forall>rid f. dget (cc_replies c) rid = Some f \<longrightarrow> f < length (cc_futures c) \<and>
        (\<forall>p. dget (cc_pending c) rid = Some p \<longrightarrow> pr_future p = f))"

abbreviation calls_ok :: "client_calls \<Rightarrow> bool" where
  "calls_ok \<equiv> calls_ok_but {}"

lemma calls_okD:
  assumes "calls_ok_but F c"
  shows "dget (cc_pending c) rid = Some p \<Longrightarrow> pr_timeout p = pr_future p"
    "dget (cc_pending c) rid = Some p \<Longrightarrow> pr_future p < length (cc_futures c)"
    "dget (cc_pending c) rid = Some p \<Longrightarrow> \<exists>s. dget (cc_timers c) (pr_future p) = Some (rid, s)"
    "dget (cc_timers c) f = Some (rid, s) \<Longrightarrow> \<exists>p. dget (cc_pending c) rid = Some p \<and> pr_future p = f"
    "waits c f \<Longrightarrow> f \<notin> F \<Longrightarrow> \<exists>rid s. dget (cc_timers c) f = Some (rid, s)"
    "dget (cc_replies c) rid = Some f \<Longrightarrow> f < length (cc_futures c)"
    "dget (cc_replies c) rid = Some f \<Longrightarrow> dget (cc_pending c) rid = Some p \<Longrightarrow> pr_future p = f"
  using assms unfolding calls_ok_but_def by blast+

lemma calls_fields [simp]:
  "cc_pending (set_future f x c) = cc_pending c" "cc_timers (set_future f x c) = cc_timers c"
  "cc_replies (set_future f x c) = cc_replies c" "cc_raised (set_future f x c) = cc_raised c"
  "cc_status (set_future f x c) = cc_status c" "cc_rx (set_future f x c) = cc_rx c"
  "cc_futures (set_future f x c) = (cc_futures c)[f := x]"
  "cc_pending (cancel_timer t c) = cc_pending c" "cc_timers (cancel_timer t c) = dpop t (cc_timers c)"
  "cc_replies (cancel_timer t c) = cc_replies c" "cc_raised (cancel_timer t c) = cc_raised c"
  "cc_status (cancel_timer t c) = cc_status c" "cc_rx (cancel_timer t c) = cc_rx c"
  "cc_futures (cancel_timer t c) = cc_futures c"
  "cc_pending (pop_pending r c) = dpop r (cc_pending c)" "cc_timers (pop_pending r c) = cc_timers c"
  "cc_replies (pop_pending r c) = cc_replies c" "cc_raised (pop_pending r c) = cc_raised c"
  "cc_status (pop_pending r c) = cc_status c" "cc_rx (pop_pending r c) = cc_rx c"
  "cc_futures (pop_pending r c) = cc_futures c"
  by (simp_all add: set_future_def cancel_timer_def pop_pending_def)

lemma pop_cancel [simp]: "pop_pending r (cancel_timer t c) = cancel_timer t (pop_pending r c)"
  by (cases c) (simp add: pop_pending_def cancel_timer_def)

text \<open>The invariant reads five fields only.\<close>

lemma calls_ok_cong:
  "cc_pending c' = cc_pending c \<Longrightarrow> cc_timers c' = cc_timers c \<Longrightarrow> cc_replies c' = cc_replies c \<Longrightarrow>
   cc_raised c' = cc_raised c \<Longrightarrow> cc_futures c' = cc_futures c \<Longrightarrow> calls_ok_but F c' = calls_ok_but F c"
  by (simp add: calls_ok_but_def waits_def)

text \<open>The three moves that operations are made of: release a call, settle it, find it done.\<close>

lemma release_ok:
  assumes "calls_ok_but F c" "dget (cc_pending c) rid = Some p"
  shows "calls_ok_but (insert (pr_future p) F) (cancel_timer (pr_timeout p) (pop_pending rid c))"
proof -
  note D = calls_okD [OF assms(1)]
  have t: "pr_timeout p = pr_future p" by (rule D(1) [OF assms(2)])
  obtain s where s: "dget (cc_timers c) (pr_future p) = Some (rid, s)" using D(3) [OF assms(2)] by blast
  have other: "pr_future q \<noteq> pr_future p" if "dget (cc_pending c) r = Some q" "r \<noteq> rid" for r q
    using D(3) [OF that(1)] s that(2) by auto
  have other2: "r \<noteq> rid" if "dget (cc_timers c) f = Some (r, u)" "f \<noteq> pr_future p" for f r u
    using D(4) [OF that(1)] assms(2) that(2) by auto
  have w: "waits (cancel_timer (pr_timeout p) (pop_pending rid c)) = waits c"
    by (simp add: waits_def fun_eq_iff)
  show ?thesis
    unfolding calls_ok_but_def w
    using D other other2 by (auto simp: t) (metis option.inject)+
qed

lemma settle_ok:
  assumes "calls_ok_but (insert f F) c" "x \<noteq> Waiting"
  shows "calls_ok_but F (set_future f x c)"
proof -
  note D = calls_okD [OF assms(1)]
  have "waits c g \<and> g \<noteq> f" if "waits (set_future f x c) g" for g
    using that assms(2) by (cases "g = f") (auto simp: waits_def)
  then show ?thesis
    unfolding calls_ok_but_def using D by auto
qed

lemma done_ok:
  assumes "calls_ok_but (insert f F) c" "is_done f c"
  shows "calls_ok_but F c"
proof -
  have "g \<noteq> f" if "waits c g" for g
    using that assms(2) by (auto simp: waits_def is_done_def)
  then show ?thesis using assms(1) unfolding calls_ok_but_def by auto
qed

lemma settle_or_done:
  "calls_ok_but (insert f F) c \<Longrightarrow> x \<noteq> Waiting \<Longrightarrow> calls_ok_but F (if is_done f c then c else set_future f x c)"
  by (simp add: settle_ok done_ok)

lemma replies_ok:
  assumes "calls_ok_but F c"
  shows "calls_ok_but F (c\<lparr>cc_replies := dpop rid (cc_replies c)\<rparr>)"
  using calls_okD [OF assms] unfolding calls_ok_but_def waits_def by auto

lemma unsubscribe_ok:
  assumes "calls_ok_but F c" "\<And>p. dget (cc_pending c) rid = Some p \<Longrightarrow> pr_future p \<in> F \<or> \<not> waits c (pr_future p)"
  shows "calls_ok_but F (unsubscribe_all rid c)"
proof (cases "dget (cc_pending c) rid")
  case None
  then show ?thesis using replies_ok [OF assms(1)] by (simp add: unsubscribe_all_def)
next
  case (Some p)
  let ?c = "cancel_timer (pr_timeout p) (pop_pending rid c)"
  have r: "calls_ok_but (insert (pr_future p) F) ?c" by (rule release_ok [OF assms(1) Some])
  have w: "waits ?c f = waits c f" for f by (simp add: waits_def)
  have "calls_ok_but F ?c"
    using r assms(2) [OF Some] unfolding calls_ok_but_def w by (auto simp: insert_absorb)
  moreover have "unsubscribe_all rid c = ?c\<lparr>cc_replies := dpop rid (cc_replies ?c)\<rparr>"
    using Some by (cases c) (simp add: unsubscribe_all_def pop_pending_def cancel_timer_def)
  ultimately show ?thesis using replies_ok by metis
qed

lemma begin_ok:
  assumes "calls_ok c" "dget (cc_pending c) rid = None" "dget (cc_replies c) rid = None"
    and "c' = begin_call rid subject c \<or> c' = begin_service_call rid subject c"
  shows "calls_ok c'"
proof -
  note D = calls_okD [OF assms(1)]
  let ?n = "length (cc_futures c)"
  have fresh: "dget (cc_timers c) ?n = None"
    using D(2,4) by (metis less_irrefl not_None_eq surj_pair)
  have old: "r \<noteq> rid" if "dget (cc_timers c) f = Some (r, u)" for f r u
    using D(4) [OF that] assms(2) by auto
  have w: "waits c g" if "waits c' g" "g \<noteq> ?n" for g
    using that assms(4) by (auto simp: waits_def begin_call_def begin_service_call_def Let_def nth_append)
  obtain p R where c': "cc_pending c' = dset rid p (cc_pending c)" "pr_future p = ?n" "pr_timeout p = ?n"
    "cc_timers c' = dset ?n (rid, subject) (cc_timers c)" "length (cc_futures c') = Suc ?n"
    "cc_replies c' = cc_replies c \<or> cc_replies c' = dset rid ?n (cc_replies c)"
    using assms(4) by (auto simp: begin_call_def begin_service_call_def Let_def)
  show ?thesis
    unfolding calls_ok_but_def
  proof (intro conjI allI impI)
    fix r q assume q: "dget (cc_pending c') r = Some q"
    then show "pr_timeout q = pr_future q" "pr_future q < length (cc_futures c')"
      using D(1,2) c' by (auto split: if_splits intro: less_SucI)
    show "\<exists>s. dget (cc_timers c') (pr_future q) = Some (r, s)"
      using q D(2,3) c' by (fastforce split: if_splits)
  next
    fix f r u assume "dget (cc_timers c') f = Some (r, u)"
    then have "f = ?n \<and> r = rid \<or> f \<noteq> ?n \<and> dget (cc_timers c) f = Some (r, u)"
      using c'(4) by (auto split: if_splits)
    then show "\<exists>p. dget (cc_pending c') r = Some p \<and> pr_future p = f"
    proof
      assume f: "f \<noteq> ?n \<and> dget (cc_timers c) f = Some (r, u)"
      then have "r \<noteq> rid" by (rule old [OF conjunct2])
      then show ?thesis using D(4) [OF conjunct2 [OF f]] c'(1) by simp
    qed (simp add: c'(1,2))
  next
    fix f assume "waits c' f \<and> f \<notin> {}"
    then show "\<exists>rid s. dget (cc_timers c') f = Some (rid, s)"
      using w D(5) c' by (cases "f = ?n") auto
  next
    fix r f assume r: "dget (cc_replies c') r = Some f"
    then show "f < length (cc_futures c')"
      using D(6) [of r f] c' by (auto split: if_splits)
    fix q assume "dget (cc_pending c') r = Some q"
    with r show "pr_future q = f"
      using D(7) c' assms(3) by (auto split: if_splits)
  qed
qed

lemma publish_failed_ok:
  assumes "calls_ok c" "\<And>p. dget (cc_pending c) rid = Some p \<Longrightarrow> pr_future p = f"
  shows "calls_ok (publish_failed rid f e c)"
proof -
  let ?c = "case dget (cc_pending c) rid of None \<Rightarrow> c | Some p \<Rightarrow> cancel_timer f (pop_pending rid c)"
  have r: "calls_ok_but {f} ?c"
  proof (cases "dget (cc_pending c) rid")
    case None
    then show ?thesis using assms(1) unfolding calls_ok_but_def by auto
  next
    case (Some p)
    then have "pr_timeout p = f" "pr_future p = f" using calls_okD(1) [OF assms(1) Some] assms(2) by auto
    then show ?thesis using release_ok [OF assms(1) Some] Some by simp
  qed
  have e: "publish_failed rid f e c = ?c\<lparr>cc_raised := dset f e (cc_raised ?c)\<rparr>"
    by (simp add: publish_failed_def Let_def)
  have "waits (?c\<lparr>cc_raised := dset f e (cc_raised ?c)\<rparr>) g \<Longrightarrow> waits ?c g \<and> g \<noteq> f" for g
    by (auto simp: waits_def split: if_splits)
  then show ?thesis
    using calls_okD [OF r] unfolding e calls_ok_but_def by auto
qed

lemma timeout_ok:
  assumes "calls_ok c"
  shows "calls_ok (handle_timeout timeout f c)"
proof (cases "dget (cc_timers c) f")
  case (Some a)
  obtain rid s where a: "a = (rid, s)" by fastforce
  obtain p where p: "dget (cc_pending c) rid = Some p" "pr_future p = f"
    using calls_okD(4) [OF assms] Some a by blast
  have t: "pr_timeout p = f" using calls_okD(1) [OF assms p(1)] p(2) by simp
  let ?c = "cancel_timer f (pop_pending rid c)"
  have "calls_ok_but {f} ?c" using release_ok [OF assms p(1)] p(2) t by simp
  from settle_or_done [OF this, of "Done_Error (timeout_error s timeout)"]
  have "calls_ok (if is_done f ?c then ?c else set_future f (Done_Error (timeout_error s timeout)) ?c)" by simp
  then show ?thesis
    using Some a p by (simp add: handle_timeout_def Let_def split: if_split_asm)
qed (use assms in \<open>simp add: handle_timeout_def\<close>)

text \<open>A response is sane when an error in it has a code and a message.\<close>

definition sane :: "pyval \<Rightarrow> bool" where
  "sane v = (case v of
      PDict d \<Rightarrow> (case sget d ''error'' of None \<Rightarrow> True | Some err \<Rightarrow> \<not> isl (from_dict err))
    | _ \<Rightarrow> True)"

lemma sane_outcome:
  "sane (PDict d) \<Longrightarrow> \<exists>x. x \<noteq> Waiting \<and> response_outcome d = Inr x"
  by (auto simp: sane_def response_outcome_def split: option.splits sum.splits)

lemma route_ok:
  assumes "calls_ok c" "sane v"
  shows "calls_ok (fst (route_mux_response v c))"
proof -
  have "calls_ok (fst (route_mux_response (PDict d) c))" if v: "v = PDict d" for d
  proof (cases "sget_or_none d ''id''")
    case (PStr rid)
    show ?thesis
    proof (cases "dget (cc_pending c) rid")
      case (Some p)
      obtain x where x: "x \<noteq> Waiting" "response_outcome d = Inr x"
        using sane_outcome assms(2) v by blast
      let ?c = "cancel_timer (pr_timeout p) (pop_pending rid c)"
      have "calls_ok (if is_done (pr_future p) ?c then ?c else set_future (pr_future p) x ?c)"
        using settle_or_done [OF release_ok [OF assms(1) Some] x(1)] .
      then show ?thesis
        using PStr Some x(2) assms(1) by (simp add: route_mux_response_def Let_def split: if_split_asm)
    qed (use PStr assms(1) in \<open>simp add: route_mux_response_def Let_def\<close>)
  qed (use assms(1) in \<open>simp_all add: route_mux_response_def Let_def\<close>)
  then show ?thesis
    using assms(1) by (cases v) (simp_all add: route_mux_response_def)
qed

lemma no_responders_ok:
  assumes "calls_ok c"
  shows "calls_ok (fst (handle_no_responders token c))"
proof (cases "dget (cc_status c) token")
  case None
  show ?thesis
  proof (cases "dget (cc_pending c) token")
    case (Some p)
    show ?thesis
      using settle_or_done [OF release_ok [OF assms Some], of "Done_Error (NoResponders s)" for s] None Some
      by (simp add: handle_no_responders_def Let_def)
  qed (use assms None in \<open>simp add: handle_no_responders_def\<close>)
next
  case (Some h)
  have "calls_ok (c\<lparr>cc_status := dpop token (cc_status c)\<rparr>) = calls_ok c" by (rule calls_ok_cong) simp_all
  with Some assms show ?thesis by (simp add: handle_no_responders_def)
qed

lemma service_response_ok:
  assumes "calls_ok c" "sane v"
  shows "calls_ok (fst (handle_rpc_response rid v c))"
proof -
  have "calls_ok (fst (handle_rpc_response rid (PDict d) c))" if v: "v = PDict d" for d
  proof (cases "sget_or_none d ''id'' = PStr rid \<and> dget (cc_pending c) rid \<noteq> None")
    case True
    then obtain p where p: "dget (cc_pending c) rid = Some p" by blast
    obtain x where x: "x \<noteq> Waiting" "response_outcome d = Inr x"
      using sane_outcome assms(2) v by blast
    let ?c = "cancel_timer (pr_timeout p) (pop_pending rid c)"
    let ?d = "if is_done (pr_future p) ?c then ?c else set_future (pr_future p) x ?c"
    have "calls_ok ?d" using settle_or_done [OF release_ok [OF assms(1) p] x(1)] .
    moreover have "dget (cc_pending ?d) rid = None" by simp
    ultimately have "calls_ok (unsubscribe_all rid ?d)" by (intro unsubscribe_ok) auto
    then show ?thesis
      using True p x(2) by (auto simp: handle_rpc_response_def Let_def split: if_splits)
  qed (use assms(1) in \<open>auto simp: handle_rpc_response_def\<close>)
  then show ?thesis using assms(1) by (cases v) (simp_all add: handle_rpc_response_def)
qed

lemma service_no_responders_ok:
  assumes "calls_ok c"
  shows "calls_ok (service_no_responders rid subject c)"
proof (cases "dget (cc_replies c) rid")
  case (Some f)
  let ?d = "if is_done f c then c else set_future f (Done_Error (NoResponders subject)) c"
  have "calls_ok_but (insert f {}) c" using assms unfolding calls_ok_but_def by auto
  then have d: "calls_ok ?d" by (rule settle_or_done) simp
  have "\<not> waits ?d (pr_future p)" if "dget (cc_pending ?d) rid = Some p" for p
  proof -
    have "pr_future p = f" using calls_okD(7) [OF assms Some] that by (simp split: if_splits)
    moreover have "f < length (cc_futures c)" by (rule calls_okD(6) [OF assms Some])
    ultimately show ?thesis by (auto simp: waits_def is_done_def)
  qed
  with d have "calls_ok (unsubscribe_all rid ?d)" by (intro unsubscribe_ok) auto
  then show ?thesis using Some by (simp add: service_no_responders_def)
qed (use assms in \<open>simp add: service_no_responders_def\<close>)

section \<open>The reply inbox keeps the invariant\<close>

text \<open>The responses that a message, or the chunk that completes one, hands to \<open>_route_mux_response\<close>.\<close>

fun routed :: "mux_event list \<Rightarrow> pyval list" where
  "routed [] = []"
| "routed (Routed v # out) = v # routed out"
| "routed (_ # out) = routed out"

lemma routed_append [simp]: "routed (xs @ ys) = routed xs @ routed ys"
  by (induction xs rule: routed.induct) simp_all

lemma route_completed_ok:
  "calls_ok c \<Longrightarrow> list_all sane (routed (snd (route_completed out c))) \<Longrightarrow> calls_ok (fst (route_completed out c))"
proof (induction out c rule: route_completed.induct)
  case (2 v out c)
  then show ?case by (auto simp: route_ok split: prod.splits)
qed (auto split: prod.splits)

lemma after_manager_ok:
  assumes "calls_ok c" "list_all sane (routed (snd (after_manager r c)))"
  shows "calls_ok (fst (after_manager r c))"
proof -
  obtain rx out where r: "run_callbacks (snd r) ((cc_rx c)\<lparr>rx_manager := fst r\<rparr>) = (rx, out)" by fastforce
  have "calls_ok (c\<lparr>cc_rx := rx\<rparr>)"
    using assms(1) by (subst calls_ok_cong [where c = c]) simp_all
  then show ?thesis
    using route_completed_ok assms(2) by (simp add: after_manager_def r)
qed

text \<open>What a message on the inbox amounts to.\<close>

lemma mux_message_pairs:
  assumes "Q (c, [])" "\<And>e. Q (c, [Mux_Printed e])"
    and "\<And>token. status_503 is_503 msg \<Longrightarrow> Q (handle_no_responders token c)"
    and "\<And>tid n tsize csize. Q (after_manager (start_receiving can_alloc now tid n (Route_Response tid)
           (Print_Response_Error tid) tsize csize (rx_manager (cc_rx c))) c)"
    and "\<And>ch. Q (after_manager (process_chunk unpack now ch (rx_manager (cc_rx c))) c)"
    and "\<And>v e. decode_message unpack (nm_data msg) = Inr v \<Longrightarrow>
           Q (fst (route_mux_response v c), [Routed v]) \<and> Q (fst (route_mux_response v c), [Routed v, Mux_Printed e])"
  shows "Q (handle_mux_message can_alloc unpack is_503 now msg c)"
proof -
  let ?type = "header_of msg ''x-chunked-transfer''"
  consider (status) "status_503 is_503 msg"
    | (header) "\<not> status_503 is_503 msg" "?type = Some ''header''"
    | (chunk) "\<not> status_503 is_503 msg" "?type = Some ''chunk''"
    | (other) "\<not> status_503 is_503 msg" "?type \<noteq> Some ''header''" "?type \<noteq> Some ''chunk''" by blast
  then show ?thesis
  proof cases
    case status
    then show ?thesis using assms(3) by (simp add: handle_mux_message_def)
  next
    case header
    then show ?thesis
      using assms(1,2,4) by (simp add: handle_mux_message_def split: sum.split option.split)
  next
    case chunk
    then show ?thesis
      using assms(1,2,5) by (simp add: handle_mux_message_def split: option.split)
  next
    case other
    then show ?thesis
      using assms(2,6) by (simp add: handle_mux_message_def split: sum.split option.split prod.split)
        (metis fst_conv)
  qed
qed

lemma mux_message_cases:
  assumes "P c" "\<And>token. P (fst (handle_no_responders token c))"
    and "\<And>tid n tsize csize. P (fst (after_manager (start_receiving can_alloc now tid n (Route_Response tid)
           (Print_Response_Error tid) tsize csize (rx_manager (cc_rx c))) c))"
    and "\<And>ch. P (fst (after_manager (process_chunk unpack now ch (rx_manager (cc_rx c))) c))"
    and "\<And>v. decode_message unpack (nm_data msg) = Inr v \<Longrightarrow> P (fst (route_mux_response v c))"
  shows "P (fst (handle_mux_message can_alloc unpack is_503 now msg c))"
  by (rule mux_message_pairs [where Q = "\<lambda>r. P (fst r)"]) (use assms in auto)

lemma mux_message_ok:
  assumes "calls_ok c"
  shows "list_all sane (routed (snd (handle_mux_message can_alloc unpack is_503 now msg c))) \<longrightarrow>
    calls_ok (fst (handle_mux_message can_alloc unpack is_503 now msg c))"
  by (rule mux_message_pairs)
    (use assms no_responders_ok [OF assms] after_manager_ok [OF assms] route_ok [OF assms] in auto)

text \<open>Routing and settling do not touch the receiving side.\<close>

lemma unsubscribe_fields [simp]:
  "cc_rx (unsubscribe_all rid c) = cc_rx c" "cc_futures (unsubscribe_all rid c) = cc_futures c"
  "cc_raised (unsubscribe_all rid c) = cc_raised c"
  by (simp_all add: unsubscribe_all_def split: option.split)

lemma route_rx [simp]: "cc_rx (fst (route_mux_response v c)) = cc_rx c"
  by (auto simp: route_mux_response_def Let_def split: pyval.split option.split sum.split)

lemma route_completed_rx [simp]: "cc_rx (fst (route_completed out c)) = cc_rx c"
proof (induction out c rule: route_completed.induct)
  case (2 v out c)
  then show ?case using route_rx [of v c] by (auto split: prod.splits)
qed (simp_all add: case_prod_unfold)

lemma after_manager_rx: "rx_manager (cc_rx (fst (after_manager r c))) = fst r"
proof -
  obtain rx out where r: "run_callbacks (snd r) ((cc_rx c)\<lparr>rx_manager := fst r\<rparr>) = (rx, out)" by fastforce
  show ?thesis using run_callbacks_effect [OF r] by (simp add: after_manager_def r)
qed

lemma handle_no_responders_rx [simp]: "cc_rx (fst (handle_no_responders token c)) = cc_rx c"
  by (simp add: handle_no_responders_def Let_def split: option.split)

lemma mux_message_owned:
  assumes "owned cb_transfer (rx_manager (cc_rx c))"
  shows "owned cb_transfer (rx_manager (cc_rx (fst (handle_mux_message can_alloc unpack is_503 now msg c))))"
proof (rule mux_message_cases)
  fix tid n tsize csize
  obtain m' evs where s: "start_receiving can_alloc now tid n (Route_Response tid) (Print_Response_Error tid)
      tsize csize (rx_manager (cc_rx c)) = (m', evs)" by fastforce
  have "owned cb_transfer m'" by (rule start_ok [OF assms s]) simp_all
  then show "owned cb_transfer (rx_manager (cc_rx (fst (after_manager (start_receiving can_alloc now tid n
      (Route_Response tid) (Print_Response_Error tid) tsize csize (rx_manager (cc_rx c))) c))))"
    by (simp add: after_manager_rx s)
next
  fix ch
  show "owned cb_transfer (rx_manager (cc_rx (fst (after_manager (process_chunk unpack now ch
      (rx_manager (cc_rx c))) c))))"
    using balance_owned [OF process_balance(1) [OF assms]] by (simp add: after_manager_rx) (metis prod.collapse)
qed (use assms in simp_all)

section \<open>Tearing down\<close>

lemma cleanup_entries_effect:
  assumes "\<forall>f. waits c f \<longrightarrow> f \<in> (pr_future \<circ> snd) ` set ps"
    and "dkeys (cc_timers c) \<subseteq> (pr_timeout \<circ> snd) ` set ps"
    and "\<forall>rid f. dget (cc_replies c) rid = Some f \<longrightarrow> f < length (cc_futures c)"
  defines "d \<equiv> cleanup_entries ps c"
  shows "(\<forall>f. \<not> waits d f) \<and> dkeys (cc_timers d) = {} \<and> length (cc_futures d) = length (cc_futures c) \<and>
    (\<forall>rid f. dget (cc_replies d) rid = Some f \<longrightarrow> f < length (cc_futures d)) \<and>
    (\<forall>f < length (cc_futures c). cc_futures d ! f = cc_futures c ! f \<or>
       cc_futures c ! f = Waiting \<and> cc_futures d ! f = Done_Error connection_closed) \<and> cc_rx d = cc_rx c"
  using assms(1-3) unfolding d_def
proof (induction ps c rule: cleanup_entries.induct)
  case (2 rid p ps c)
  let ?c1 = "cancel_timer (pr_timeout p) c"
  let ?c2 = "if pr_cleanup p then unsubscribe_all rid ?c1 else ?c1"
  let ?c3 = "if is_done (pr_future p) ?c2 then ?c2 else set_future (pr_future p) (Done_Error connection_closed) ?c2"
  have u: "dkeys (cc_timers (unsubscribe_all r e)) \<subseteq> dkeys (cc_timers e)" for r e
    by (auto simp: unsubscribe_all_def split: option.split)
  have v: "dget (cc_replies (unsubscribe_all r e)) k = Some f \<Longrightarrow> dget (cc_replies e) k = Some f" for r e k f
    by (auto simp: unsubscribe_all_def split: option.splits if_splits)
  have f2: "cc_futures ?c2 = cc_futures c" "cc_raised ?c2 = cc_raised c" "cc_rx ?c2 = cc_rx c" by simp_all
  have w: "waits c f \<and> f \<noteq> pr_future p" if "waits ?c3 f" for f
    using that f2 by (cases "f = pr_future p") (auto simp: waits_def is_done_def split: if_splits)
  have 1: "\<forall>f. waits ?c3 f \<longrightarrow> f \<in> (pr_future \<circ> snd) ` set ps"
    using w "2.prems"(1) by fastforce
  have t2: "dkeys (cc_timers ?c2) \<subseteq> dkeys (cc_timers c) - {pr_timeout p}"
    using u [of rid ?c1] by auto
  have "dkeys (cc_timers c) - {pr_timeout p} \<subseteq> (pr_timeout \<circ> snd) ` set ps"
    using "2.prems"(2) by auto
  with t2 have "dkeys (cc_timers ?c2) \<subseteq> (pr_timeout \<circ> snd) ` set ps" by (rule subset_trans)
  then have 2: "dkeys (cc_timers ?c3) \<subseteq> (pr_timeout \<circ> snd) ` set ps" by simp
  have 3: "\<forall>r f. dget (cc_replies ?c3) r = Some f \<longrightarrow> f < length (cc_futures ?c3)"
  proof (intro allI impI)
    fix r f assume "dget (cc_replies ?c3) r = Some f"
    moreover have "cc_replies ?c3 = cc_replies ?c2" by simp
    ultimately have "dget (cc_replies ?c2) r = Some f" by metis
    then have "dget (cc_replies c) r = Some f" using v [of rid ?c1 r f] by (cases "pr_cleanup p") simp_all
    then show "f < length (cc_futures ?c3)" using "2.prems"(3) f2(1) by simp
  qed
  have g: "length (cc_futures ?c3) = length (cc_futures c)" "cc_rx ?c3 = cc_rx c" using f2 by simp_all
  have h: "cc_futures ?c3 ! f = cc_futures c ! f \<or>
      cc_futures c ! f = Waiting \<and> cc_futures ?c3 ! f = Done_Error connection_closed"
    if "f < length (cc_futures c)" for f
    using that f2 by (cases "f = pr_future p") (auto simp: is_done_def)
  have e: "cleanup_entries ((rid, p) # ps) c = cleanup_entries ps ?c3" by (simp add: Let_def)
  note IH = "2.IH" [OF refl refl refl 1 2 3]
  show ?case unfolding e using IH g h by (metis future.distinct(3))
qed (auto simp: waits_def)

lemma cleanup_ok:
  assumes "calls_ok c"
  shows "calls_ok (cleanup_pending_requests c)"
    "\<not> waits (cleanup_pending_requests c) f"
    "length (cc_futures (cleanup_pending_requests c)) = length (cc_futures c)"
    "f < length (cc_futures c) \<Longrightarrow> cc_futures (cleanup_pending_requests c) ! f = cc_futures c ! f \<or>
       cc_futures c ! f = Waiting \<and> cc_futures (cleanup_pending_requests c) ! f = Done_Error connection_closed"
    "cc_rx (cleanup_pending_requests c) = cc_rx c"
proof -
  note D = calls_okD [OF assms]
  have 1: "\<forall>f. waits c f \<longrightarrow> f \<in> (pr_future \<circ> snd) ` set (cc_pending c)"
  proof (intro allI impI)
    fix f assume "waits c f"
    then obtain rid s where "dget (cc_timers c) f = Some (rid, s)" using D(5) by blast
    then obtain p where "dget (cc_pending c) rid = Some p" "pr_future p = f" using D(4) by blast
    then show "f \<in> (pr_future \<circ> snd) ` set (cc_pending c)" by (force dest: map_of_SomeD)
  qed
  have 2: "dkeys (cc_timers c) \<subseteq> (pr_timeout \<circ> snd) ` set (cc_pending c)"
  proof
    fix f assume "f \<in> dkeys (cc_timers c)"
    then obtain rid s where "dget (cc_timers c) f = Some (rid, s)" by (auto simp: pd.in_keys_iff)
    then obtain p where p: "dget (cc_pending c) rid = Some p" "pr_future p = f" using D(4) by blast
    then have "pr_timeout p = f" using D(1) by simp
    with p(1) show "f \<in> (pr_timeout \<circ> snd) ` set (cc_pending c)" by (force dest: map_of_SomeD)
  qed
  have 3: "\<forall>rid f. dget (cc_replies c) rid = Some f \<longrightarrow> f < length (cc_futures c)" using D(6) by blast
  let ?d = "cleanup_entries (cc_pending c) c"
  have E: "\<not> waits ?d f" "dkeys (cc_timers ?d) = {}" "length (cc_futures ?d) = length (cc_futures c)"
    "dget (cc_replies ?d) rid = Some f \<Longrightarrow> f < length (cc_futures ?d)"
    "f < length (cc_futures c) \<Longrightarrow> cc_futures ?d ! f = cc_futures c ! f \<or>
       cc_futures c ! f = Waiting \<and> cc_futures ?d ! f = Done_Error connection_closed"
    "cc_rx ?d = cc_rx c" for f rid
    using cleanup_entries_effect [OF 1 2 3] by blast+
  have w: "waits (cleanup_pending_requests c) = waits ?d"
    by (simp add: cleanup_pending_requests_def waits_def fun_eq_iff)
  have t: "dget (cc_timers ?d) f = None" for f
    using E(2) by (simp add: map_of_eq_None_iff)
  show "\<not> waits (cleanup_pending_requests c) f" using E(1) w by simp
  show "calls_ok (cleanup_pending_requests c)"
    using E(1,4) t w unfolding calls_ok_but_def by (auto simp: cleanup_pending_requests_def)
  show "length (cc_futures (cleanup_pending_requests c)) = length (cc_futures c)"
    "f < length (cc_futures c) \<Longrightarrow> cc_futures (cleanup_pending_requests c) ! f = cc_futures c ! f \<or>
       cc_futures c ! f = Waiting \<and> cc_futures (cleanup_pending_requests c) ! f = Done_Error connection_closed"
    "cc_rx (cleanup_pending_requests c) = cc_rx c"
    using E(3,5,6) by (simp_all add: cleanup_pending_requests_def)
qed

section \<open>Reachable states\<close>

text \<open>
  The side conditions of the steps: request ids are new, the except branches run for the calls
  they belong to, and the responses that are routed are sane; what a malformed one does is
  the lemma \<open>malformed_error_strands_caller\<close> below.
\<close>

fun op_ok :: "(int \<Rightarrow> bool) \<Rightarrow> (bytes \<Rightarrow> exc + pyval) \<Rightarrow> ((string, string) pydict \<Rightarrow> bool) \<Rightarrow> call_op \<Rightarrow> client_calls \<Rightarrow> bool" where
  "op_ok can_alloc unpack is_503 (Begin_Call rid _) c \<longleftrightarrow> dget (cc_pending c) rid = None \<and> dget (cc_replies c) rid = None"
| "op_ok can_alloc unpack is_503 (Begin_Service rid _) c \<longleftrightarrow> dget (cc_pending c) rid = None \<and> dget (cc_replies c) rid = None"
| "op_ok can_alloc unpack is_503 (Publish_Failed rid f _) c \<longleftrightarrow>
     (case dget (cc_pending c) rid of None \<Rightarrow> True | Some p \<Rightarrow> pr_future p = f)"
| "op_ok can_alloc unpack is_503 (Caller_Cleanup rid) c \<longleftrightarrow>
     (case dget (cc_pending c) rid of None \<Rightarrow> True | Some p \<Rightarrow> \<not> waits c (pr_future p))"
| "op_ok can_alloc unpack is_503 (Service_Response _ v) c \<longleftrightarrow> sane v"
| "op_ok can_alloc unpack is_503 (Mux_Message now msg) c \<longleftrightarrow>
     list_all sane (routed (snd (handle_mux_message can_alloc unpack is_503 now msg c)))"
| "op_ok can_alloc unpack is_503 _ c \<longleftrightarrow> True"

inductive call_reachable :: "(int \<Rightarrow> bool) \<Rightarrow> (bytes \<Rightarrow> exc + pyval) \<Rightarrow> ((string, string) pydict \<Rightarrow> bool) \<Rightarrow> int
    \<Rightarrow> client_calls \<Rightarrow> bool" for can_alloc unpack is_503 timeout where
  init: "call_reachable can_alloc unpack is_503 timeout calls_init"
| step: "\<lbrakk>call_reachable can_alloc unpack is_503 timeout c; op_ok can_alloc unpack is_503 op c\<rbrakk>
    \<Longrightarrow> call_reachable can_alloc unpack is_503 timeout (call_step can_alloc unpack is_503 timeout op c)"

inductive_cases call_reachable_stepE: "call_reachable can_alloc unpack is_503 timeout c"

lemma cancel_caller_ok: "calls_ok c \<Longrightarrow> calls_ok (cancel_caller f c)"
proof -
  assume "calls_ok c"
  then have "calls_ok_but {f} c" unfolding calls_ok_but_def by auto
  with \<open>calls_ok c\<close> show ?thesis by (simp add: cancel_caller_def settle_ok)
qed

lemma call_step_ok:
  assumes "calls_ok c" "owned cb_transfer (rx_manager (cc_rx c))" "op_ok can_alloc unpack is_503 op c"
  shows "calls_ok (call_step can_alloc unpack is_503 timeout op c)"
    "owned cb_transfer (rx_manager (cc_rx (call_step can_alloc unpack is_503 timeout op c)))"
proof -
  show "calls_ok (call_step can_alloc unpack is_503 timeout op c)"
  proof (cases op)
    case (Caller_Cleanup rid)
    then show ?thesis using assms(3) by (auto intro!: unsubscribe_ok [OF assms(1)] split: option.splits)
  next
    case (Publish_Failed rid f e)
    then show ?thesis using assms(3) by (auto intro!: publish_failed_ok [OF assms(1)] split: option.splits)
  next
    case Cleanup_All
    then show ?thesis
      using cleanup_ok(1) [OF assms(1)] by simp (subst calls_ok_cong [where c = "cleanup_pending_requests c"]; simp)
  next
    case (Watch_Status token h)
    then show ?thesis using assms(1) by simp (subst calls_ok_cong [where c = c]; simp)
  qed (use assms begin_ok [OF assms(1)] timeout_ok mux_message_ok cancel_caller_ok service_response_ok
      service_no_responders_ok in auto)
  show "owned cb_transfer (rx_manager (cc_rx (call_step can_alloc unpack is_503 timeout op c)))"
  proof (cases op)
    case (Service_Response rid v)
    have "cc_rx (fst (handle_rpc_response rid v c)) = cc_rx c"
      by (auto simp: handle_rpc_response_def Let_def split: pyval.split option.split sum.split)
    with Service_Response assms(2) show ?thesis by simp
  qed (use assms(2) mux_message_owned cleanup_ok(5) [OF assms(1)] in \<open>auto simp: begin_call_def begin_service_call_def
      publish_failed_def handle_timeout_def cancel_caller_def service_no_responders_def Let_def split: option.splits prod.splits\<close>)
qed

lemma reachable_ok:
  assumes "call_reachable can_alloc unpack is_503 timeout c"
  shows "calls_ok c \<and> owned cb_transfer (rx_manager (cc_rx c))"
  using assms(1)
proof (induction rule: call_reachable.induct)
  case init
  show ?case by (simp add: calls_init_def calls_ok_but_def waits_def)
next
  case (step c op)
  then show ?case using call_step_ok by blast
qed

text \<open>Settled futures stay as they are.\<close>

definition keeps :: "client_calls \<Rightarrow> client_calls \<Rightarrow> bool" where
  "keeps c c' \<longleftrightarrow> length (cc_futures c) \<le> length (cc_futures c') \<and>
     (\<forall>f < length (cc_futures c). cc_futures c ! f \<noteq> Waiting \<longrightarrow> cc_futures c' ! f = cc_futures c ! f)"

lemma keeps_same [intro]: "cc_futures c' = cc_futures c \<Longrightarrow> keeps c c'"
  by (simp add: keeps_def)

lemma keeps_trans: "keeps a b \<Longrightarrow> keeps b c \<Longrightarrow> keeps a c"
  by (auto simp: keeps_def)

lemma keeps_settle: "cc_futures c' = cc_futures c \<Longrightarrow> \<not> is_done f c' \<Longrightarrow> keeps c (set_future f x c')"
  by (auto simp: keeps_def is_done_def) (metis nth_list_update_neq)

lemma route_keeps: "keeps c (fst (route_mux_response v c))"
  by (auto simp: route_mux_response_def Let_def intro: keeps_settle split: pyval.split option.split sum.split)

lemma route_completed_keeps: "keeps c (fst (route_completed out c))"
proof (induction out c rule: route_completed.induct)
  case (2 v out c)
  then show ?case using keeps_trans [OF route_keeps [of c v]] by (auto split: prod.splits)
qed (auto simp: case_prod_unfold)

lemma after_manager_keeps: "keeps c (fst (after_manager r c))"
proof -
  obtain rx out where r: "run_callbacks (snd r) ((cc_rx c)\<lparr>rx_manager := fst r\<rparr>) = (rx, out)" by fastforce
  have "keeps c (c\<lparr>cc_rx := rx\<rparr>)" by auto
  then show ?thesis
    using keeps_trans [OF _ route_completed_keeps] by (simp add: after_manager_def r)
qed

lemma mux_message_keeps: "keeps c (fst (handle_mux_message can_alloc unpack is_503 now msg c))"
proof (rule mux_message_cases)
  show "keeps c (fst (handle_no_responders token c))" for token
    by (auto simp: handle_no_responders_def Let_def intro: keeps_settle split: option.split)
qed (auto intro: after_manager_keeps route_keeps)

lemma call_step_keeps:
  "calls_ok c \<Longrightarrow> keeps c (call_step can_alloc unpack is_503 timeout op c)"
proof (cases op)
  case Cleanup_All
  assume "calls_ok c"
  note C = cleanup_ok [OF this]
  show ?thesis
    using C(3,4) Cleanup_All by (auto simp: keeps_def)
next
  case (Service_Response rid v)
  then show ?thesis
    by (auto simp: handle_rpc_response_def Let_def keeps_def is_done_def split: pyval.split option.split sum.split)
      (metis nth_list_update_neq)+
next
  case (Mux_Message now msg)
  then show ?thesis using mux_message_keeps by simp
next
  case (Timer_Fires f)
  then show ?thesis
    by (auto simp: handle_timeout_def Let_def intro: keeps_settle split: option.split prod.split)
next
  case (Cancel_Caller f)
  then show ?thesis by (auto simp: cancel_caller_def intro: keeps_settle)
next
  case (Service_No_Responders rid subject)
  then show ?thesis
    by (auto simp: service_no_responders_def keeps_def is_done_def split: option.split) (metis nth_list_update_neq)
qed (auto simp: keeps_def begin_call_def begin_service_call_def publish_failed_def nth_append Let_def split: option.split)

section \<open>The reply inbox is a chunk endpoint\<close>

fun responses_in :: "rx_callback chunk_event list \<Rightarrow> pyval list" where
  "responses_in [] = []"
| "responses_in (Completed (Route_Response t) v # evs) = v # responses_in evs"
| "responses_in (_ # evs) = responses_in evs"

fun mux_responses :: "rx_event list \<Rightarrow> pyval list" where
  "mux_responses [] = []"
| "mux_responses (Mux_Response v # out) = v # mux_responses out"
| "mux_responses (_ # out) = mux_responses out"

lemma responses_in_append [simp]: "responses_in (xs @ ys) = responses_in xs @ responses_in ys"
  by (induction xs rule: responses_in.induct) simp_all

lemma responses_in_errors: "only_errors evs \<Longrightarrow> responses_in evs = []"
  by (induction evs rule: responses_in.induct) (simp_all add: only_errors_def)

lemma run_callbacks_responses: "run_callbacks evs rx = (rx', out) \<Longrightarrow> mux_responses out = responses_in evs"
  by (induction evs rx arbitrary: rx' out rule: run_callbacks.induct) (auto split: prod.splits)

lemma route_completed_routed: "routed (snd (route_completed out c)) = mux_responses out"
  by (induction out c rule: route_completed.induct) (simp_all add: case_prod_unfold)

lemma after_manager_routed: "routed (snd (after_manager r c)) = responses_in (snd r)"
proof -
  obtain rx out where r: "run_callbacks (snd r) ((cc_rx c)\<lparr>rx_manager := fst r\<rparr>) = (rx, out)" by fastforce
  show ?thesis
    using run_callbacks_responses [OF r] by (simp add: after_manager_def r route_completed_routed)
qed

interpretation mux: chunk_endpoint "handle_mux_message can_alloc unpack is_503" "\<lambda>c. rx_manager (cc_rx c)"
    "\<lambda>_. True" "\<lambda>m. \<not> status_503 is_503 m" routed responses_in Route_Response Print_Response_Error can_alloc unpack
  for can_alloc unpack is_503
proof unfold_locales
  fix c :: client_calls and m tid n len csize now m' evs
  assume "\<not> status_503 is_503 m" "header_of m ''x-chunked-transfer'' = Some ''header''"
    "header_of m ''x-chunk-id'' = Some tid" "tid \<noteq> []" "unpack (nm_data m) = Inr (chunk_header tid n len csize)"
    and s: "start_receiving can_alloc now tid n (Route_Response tid) (Print_Response_Error tid) (Some len) (Some csize)
      (rx_manager (cc_rx c)) = (m', evs)"
  then have h: "handle_mux_message can_alloc unpack is_503 now m c = after_manager (m', evs) c"
    by (simp add: handle_mux_message_def read_header_def chunk_header_def int_field_def)
  show "\<exists>c' out. handle_mux_message can_alloc unpack is_503 now m c = (c', out) \<and>
      rx_manager (cc_rx c') = m' \<and> True \<and> routed out = []"
    using after_manager_rx [of "(m', evs)" c] after_manager_routed [of "(m', evs)" c]
      responses_in_errors [OF start_errors [OF s]] unfolding h by (metis fst_conv prod.collapse snd_conv)
next
  fix c :: client_calls and tid now i m' evs subj rep and ch :: chunk_data
  assume "tid \<noteq> []" "cd_data ch \<noteq> []"
    "process_chunk unpack now (client_chunk tid (int i) (cd_data ch)) (rx_manager (cc_rx c)) = (m', evs)"
  then have h: "handle_mux_message can_alloc unpack is_503 now (chunk_message subj rep tid i ch) c
      = after_manager (m', evs) c"
    by (simp add: handle_mux_message_def status_503_def)
  show "\<exists>c' out. handle_mux_message can_alloc unpack is_503 now (chunk_message subj rep tid i ch) c = (c', out) \<and>
      rx_manager (cc_rx c') = m' \<and> True \<and> routed out = responses_in evs"
    using after_manager_rx [of "(m', evs)" c] after_manager_routed [of "(m', evs)" c]
    unfolding h by (metis fst_conv prod.collapse snd_conv)
next
  fix c :: client_calls and m v now
  assume "\<not> status_503 is_503 m" "header_of m ''x-chunked-transfer'' = None" "decode_message unpack (nm_data m) = Inr v"
  then show "\<exists>c' out. handle_mux_message can_alloc unpack is_503 now m c = (c', out) \<and>
      rx_manager (cc_rx c') = rx_manager (cc_rx c) \<and> True \<and> routed out = [v]"
    by (auto simp: handle_mux_message_def split: prod.split option.split) (metis fst_conv route_rx)+
qed (auto simp: responses_in_errors status_503_def)

text \<open>What the inbox does to the calls is to route what it handed out, one by one.\<close>

definition route_all :: "pyval list \<Rightarrow> client_calls \<Rightarrow> client_calls" where
  "route_all vs c = fold (\<lambda>v c. fst (route_mux_response v c)) vs c"

lemma route_other_rx: "fst (route_mux_response v (c\<lparr>cc_rx := rx\<rparr>)) = (fst (route_mux_response v c))\<lparr>cc_rx := rx\<rparr>"
  by (cases c) (auto simp: route_mux_response_def Let_def cancel_timer_def pop_pending_def is_done_def set_future_def
      split: pyval.split option.split sum.split)

lemma route_all_rx: "route_all vs (c\<lparr>cc_rx := rx\<rparr>) = (route_all vs c)\<lparr>cc_rx := rx\<rparr>"
  by (induction vs arbitrary: c) (simp_all add: route_all_def route_other_rx)

lemma route_completed_calls: "fst (route_completed out c) = route_all (mux_responses out) c"
  by (induction out c rule: route_completed.induct) (simp_all add: case_prod_unfold route_all_def)

lemma mux_message_calls:
  assumes "\<not> status_503 is_503 msg" "handle_mux_message can_alloc unpack is_503 now msg c = (c', out)"
  shows "\<exists>rx. c' = (route_all (routed out) c)\<lparr>cc_rx := rx\<rparr>"
proof -
  have A: "\<exists>rx. fst (after_manager r c) = (route_all (routed (snd (after_manager r c))) c)\<lparr>cc_rx := rx\<rparr>" for r
  proof -
    obtain rx o' where r: "run_callbacks (snd r) ((cc_rx c)\<lparr>rx_manager := fst r\<rparr>) = (rx, o')" by fastforce
    show ?thesis
      using run_callbacks_responses [OF r]
      by (auto simp: after_manager_routed) (auto simp: after_manager_def r route_completed_calls route_all_rx)
  qed
  have B: "\<exists>rx. d = d\<lparr>cc_rx := rx\<rparr>" for d :: client_calls by (rule exI [of _ "cc_rx d"]) simp
  have "\<exists>rx. fst (handle_mux_message can_alloc unpack is_503 now msg c)
      = (route_all (routed (snd (handle_mux_message can_alloc unpack is_503 now msg c))) c)\<lparr>cc_rx := rx\<rparr>"
    by (rule mux_message_pairs) (use assms(1) A B in \<open>auto simp: route_all_def\<close>)
  then show ?thesis using assms(2) by simp
qed

lemma deliver_mux_calls:
  assumes "\<forall>m \<in> snd ` set msgs. \<not> status_503 is_503 m"
    and "deliver (handle_mux_message can_alloc unpack is_503) msgs c = (c', out)"
  shows "\<exists>rx. c' = (route_all (routed out) c)\<lparr>cc_rx := rx\<rparr>"
  using assms
proof (induction msgs arbitrary: c out)
  case Nil
  then show ?case by (auto simp: route_all_def intro: exI [of _ "cc_rx c"])
next
  case (Cons m msgs)
  obtain now msg where m: "m = (now, msg)" by fastforce
  obtain c1 out1 where h: "handle_mux_message can_alloc unpack is_503 now msg c = (c1, out1)" by fastforce
  obtain out2 where d: "deliver (handle_mux_message can_alloc unpack is_503) msgs c1 = (c', out2)"
    and out: "out = out1 @ out2"
    using Cons.prems(2) by (auto simp: m h split: prod.splits)
  obtain rx1 where "c1 = (route_all (routed out1) c)\<lparr>cc_rx := rx1\<rparr>"
    using mux_message_calls [OF _ h] Cons.prems(1) by (auto simp: m)
  moreover obtain rx2 where "c' = (route_all (routed out2) c1)\<lparr>cc_rx := rx2\<rparr>"
    using Cons.IH [OF _ d] Cons.prems(1) by auto
  ultimately show ?case by (auto simp: out route_all_rx) (auto simp: route_all_def)
qed

section \<open>Properties of calls\<close>



text \<open>
  C14. A call is settled once: from the first result, error or cancellation on, nothing that can
  happen changes what the caller gets.
\<close>

theorem settled_once:
  assumes "call_reachable can_alloc unpack is_503 timeout c"
    and "f < length (cc_futures c)" "cc_futures c ! f \<noteq> Waiting"
    and "(\<lambda>a b. \<exists>op. op_ok can_alloc unpack is_503 op a \<and> b = call_step can_alloc unpack is_503 timeout op a)\<^sup>*\<^sup>* c c'"
  shows "f < length (cc_futures c') \<and> cc_futures c' ! f = cc_futures c ! f"
proof -
  have "call_reachable can_alloc unpack is_503 timeout c' \<and> f < length (cc_futures c') \<and>
      cc_futures c' ! f = cc_futures c ! f"
    using assms(4)
  proof (induction rule: rtranclp_induct)
    case base
    then show ?case using assms by simp
  next
    case (step a b)
    then obtain op where op: "op_ok can_alloc unpack is_503 op a" "b = call_step can_alloc unpack is_503 timeout op a" by blast
    have "keeps a b" unfolding op(2) using reachable_ok step.IH by (intro call_step_keeps) blast
    then show ?case using step.IH call_reachable.step op assms(3) by (auto simp: keeps_def)
  qed
  then show ?thesis by blast
qed

lemma response_settles:
  assumes "calls_ok c" "owned cb_transfer (rx_manager (cc_rx c))"
    and "dget (cc_pending c) rid = Some p" "rid \<noteq> []" "cc_futures c ! pr_future p = Waiting"
    and "publish pack (\<lambda>_. None) tid (int n) True (reply_subject rid) response None None = (msgs, None)"
    and "0 < n" "header_travels pack unpack" "arrives unpack pack response = Some (PDict d)"
    and "\<forall>v b. pack v = Inr b \<longrightarrow> b \<noteq> []"
    and "sget d ''id'' = Some (PStr rid)" "response_outcome d = Inr x"
    and "tid \<noteq> []" "tid \<notin> transfers (rx_manager (cc_rx c))" "length ts = length msgs" "timely ts"
  shows "\<exists>c' out. deliver (handle_mux_message can_alloc unpack is_503) (zip ts msgs) c = (c', out) \<and>
    cc_futures c' = (cc_futures c)[pr_future p := x] \<and>
    cc_pending c' = dpop rid (cc_pending c) \<and> cc_timers c' = dpop (pr_future p) (cc_timers c)"
proof -
  obtain w where w: "encode_message pack response = Inr w" "decode_message unpack w = Inr (PDict d)"
    using assms(9) by (auto split: sum.splits)
  have reg: "\<forall>m \<in> set msgs. \<not> status_503 is_503 m"
  proof (cases "length w \<le> n")
    case True
    then show ?thesis using assms(6) w(1) by (auto simp: publish_def send_all_ok status_503_def)
  next
    case False
    then obtain h hdrs chunks where
      P: "pack (chunk_header tid (int (length chunks)) (int (length w)) (int n)) = Inr h"
      "create_chunks w tid (int n) = Inr chunks"
      "msgs = \<lparr>nm_subject = reply_subject rid, nm_data = h, nm_headers = Some hdrs,
                 nm_reply = (case None of None \<Rightarrow> [] | Some r \<Rightarrow> r)\<rparr>
         # map (\<lambda>(i, chunk). chunk_message (reply_subject rid) (case None of None \<Rightarrow> [] | Some r \<Rightarrow> r) tid i chunk)
               (List.enumerate 0 chunks)"
      using publish_chunked [OF assms(6,7) w(1)] by (metis not_le)
    have "h \<noteq> []" using assms(10) P(1) by blast
    then show ?thesis
      using create_chunks_nonempty [OF assms(7) P(2)] unfolding P(3)
      by (auto simp: status_503_def in_set_enumerate_eq)
  qed
  have ne: "msgs \<noteq> []"
    using assms(6) w(1) by (auto simp: publish_def Let_def send_all_ok split: if_splits sum.splits)
  have "\<exists>c' out. deliver (handle_mux_message can_alloc unpack is_503) (zip ts msgs) c = (c', out) \<and>
      routed out = [PDict d] \<and> True \<and> owned cb_transfer (rx_manager (cc_rx c')) \<and>
      transfers (rx_manager (cc_rx c')) \<subseteq> transfers (rx_manager (cc_rx c))"
    by (rule mux.publish_deliver [OF assms(6,7) _ assms(8,9) _ assms(2,14,13) _ assms(15,16)])
       (use reg ne in \<open>simp_all add: plain_def\<close>)
  then obtain c' out where d: "deliver (handle_mux_message can_alloc unpack is_503) (zip ts msgs) c = (c', out)"
      "routed out = [PDict d]"
    by blast
  obtain rx where c': "c' = (route_all [PDict d] c)\<lparr>cc_rx := rx\<rparr>"
  proof -
    have "\<forall>m \<in> snd ` set (zip ts msgs). \<not> status_503 is_503 m"
      using reg by (auto dest: set_zip_rightD)
    from deliver_mux_calls [OF this d(1)] that show thesis by (auto simp: d(2))
  qed
  have t: "pr_timeout p = pr_future p" by (rule calls_okD(1) [OF assms(1,3)])
  have "fst (route_mux_response (PDict d) c)
      = set_future (pr_future p) x (cancel_timer (pr_timeout p) (pop_pending rid c))"
    using assms(3,4,5,11,12) by (simp add: route_mux_response_def sget_or_none_def is_done_def)
  then have "c' = (set_future (pr_future p) x (cancel_timer (pr_timeout p) (pop_pending rid c)))\<lparr>cc_rx := rx\<rparr>"
    by (simp add: c' route_all_def)
  then show ?thesis using d(1) t by auto
qed

text \<open>
  C13. End to end over the reply inbox: a response of any size, published by the responder on the
  call's reply subject, settles exactly the call it names, with its result or its error, disarms
  the timer and removes the entry; no other future changes. An error in it has a code and a message.
\<close>

theorem response_settles_call:
  assumes "call_reachable can_alloc unpack is_503 timeout c"
    and "dget (cc_pending c) rid = Some p" "rid \<noteq> []" "cc_futures c ! pr_future p = Waiting"
    and "publish pack (\<lambda>_. None) tid (int n) True (reply_subject rid) response None None = (msgs, None)"
    and "0 < n" "header_travels pack unpack" "arrives unpack pack response = Some (PDict d)"
    and "\<forall>v b. pack v = Inr b \<longrightarrow> b \<noteq> []"
    and "sget d ''id'' = Some (PStr rid)" "sane (PDict d)"
    and "tid \<noteq> []" "tid \<notin> transfers (rx_manager (cc_rx c))" "length ts = length msgs" "timely ts"
  shows "\<exists>c' out x. deliver (handle_mux_message can_alloc unpack is_503) (zip ts msgs) c = (c', out) \<and>
    response_outcome d = Inr x \<and> cc_futures c' = (cc_futures c)[pr_future p := x] \<and>
    cc_pending c' = dpop rid (cc_pending c) \<and> cc_timers c' = dpop (pr_future p) (cc_timers c)"
proof -
  have ok: "calls_ok c" "owned cb_transfer (rx_manager (cc_rx c))" using reachable_ok [OF assms(1)] by blast+
  obtain x where x: "response_outcome d = Inr x" using sane_outcome [OF assms(11)] by blast
  show ?thesis
    using response_settles [OF ok assms(2-10) x assms(12-15), of can_alloc is_503] x by blast
qed

text \<open>A small exchange for the witnesses: one call, answered in two chunks.\<close>

definition demo_response :: pyval where
  "demo_response = PDict [(PStr ''id'', PStr ''p.1''), (PStr ''result'', PInt 42)]"

definition demo_pack2 :: "pyval \<Rightarrow> exc + bytes" where
  "demo_pack2 v = (if v = demo_response then Inr [1, 2, 3]
     else if v = chunk_header ''t'' 2 3 2 then Inr [7, 7] else Inl (Raised TypeError ''unsupported''))"

definition demo_unpack2 :: "bytes \<Rightarrow> exc + pyval" where
  "demo_unpack2 b = (if b = [1, 2, 3] then Inr demo_response
     else if b = [7, 7] then Inr (chunk_header ''t'' 2 3 2) else Inl (Raised ValueError ''invalid''))"

definition demo_call :: client_calls where
  "demo_call = call_step (\<lambda>_. True) demo_unpack2 (\<lambda>_. False) 30000 (Begin_Call ''p.1'' ''rpc.a.b'') calls_init"

lemma demo_call_reachable: "call_reachable (\<lambda>_. True) demo_unpack2 (\<lambda>_. False) 30000 demo_call"
  unfolding demo_call_def by (rule call_reachable.step [OF call_reachable.init]) (simp add: calls_init_def)

theorem response_settles_call_witness:
  "\<exists>c' out. deliver (handle_mux_message (\<lambda>_. True) demo_unpack2 (\<lambda>_. False))
      (zip [5, 6, 7] (fst (publish demo_pack2 (\<lambda>_. None) ''t'' (int 2) True (reply_subject ''p.1'') demo_response None None)))
      demo_call = (c', out) \<and> cc_futures c' = [Done_Result (PInt 42)]"
proof -
  let ?r = "publish demo_pack2 (\<lambda>_. None) ''t'' (int 2) True (reply_subject ''p.1'') demo_response None None"
  have r: "?r = (fst ?r, None)" "length (fst ?r) = 3" by code_simp+
  let ?p = "\<lparr>pr_future = 0, pr_timeout = 0, pr_subject = Some ''rpc.a.b'', pr_cleanup = False\<rparr>"
  have p: "dget (cc_pending demo_call) ''p.1'' = Some ?p" "cc_futures demo_call ! pr_future ?p = Waiting" by code_simp+
  have a: "arrives demo_unpack2 demo_pack2 demo_response
      = Some (PDict [(PStr ''id'', PStr ''p.1''), (PStr ''result'', PInt 42)])" by code_simp
  have t: "transfers (rx_manager (cc_rx demo_call)) = {}" by code_simp
  have h: "header_travels demo_pack2 demo_unpack2"
    by (auto simp: header_travels_def demo_pack2_def demo_unpack2_def demo_response_def chunk_header_def split: if_splits)
  have ne: "\<forall>v b. demo_pack2 v = Inr b \<longrightarrow> b \<noteq> []" by (auto simp: demo_pack2_def split: if_splits)
  have f: "cc_futures demo_call = [Waiting]" by code_simp
  have sane: "sane (PDict [(PStr ''id'', PStr ''p.1''), (PStr ''result'', PInt 42)])" by code_simp
  have ti: "timely [5, 6, 7]" by code_simp
  show ?thesis
    using response_settles_call [OF demo_call_reachable p(1) _ p(2) r(1) _ h a ne _ sane _ _ _ ti] r(2) t
    by (auto simp: response_outcome_def attach_methods_def f)
qed

definition demo_cancelled :: client_calls where
  "demo_cancelled = call_step (\<lambda>_. True) demo_unpack2 (\<lambda>_. False) 30000 (Cancel_Caller 0) demo_call"

theorem settled_once_witness:
  "cc_futures (call_step (\<lambda>_. True) demo_unpack2 (\<lambda>_. False) 30000 (Timer_Fires 0) demo_cancelled) ! 0 = Cancelled"
proof -
  let ?R = "\<lambda>a b. \<exists>op. op_ok (\<lambda>_. True) demo_unpack2 (\<lambda>_. False) op a \<and> b = call_step (\<lambda>_. True) demo_unpack2 (\<lambda>_. False) 30000 op a"
  let ?c = "call_step (\<lambda>_. True) demo_unpack2 (\<lambda>_. False) 30000 (Timer_Fires 0) demo_cancelled"
  have r: "call_reachable (\<lambda>_. True) demo_unpack2 (\<lambda>_. False) 30000 demo_cancelled"
    unfolding demo_cancelled_def by (rule call_reachable.step [OF demo_call_reachable]) simp
  have f: "cc_futures demo_cancelled = [Cancelled]" by code_simp
  have "?R demo_cancelled ?c" by (rule exI [of _ "Timer_Fires 0"]) simp
  then have p: "?R\<^sup>*\<^sup>* demo_cancelled ?c" by (rule r_into_rtranclp)
  show ?thesis using settled_once [OF r _ _ p, of 0, unfolded f] by simp
qed



text \<open>
  C16. A no-responder status is told apart by its subject alone: it settles the call with that
  reply subject, with the subject of the request in the error, unless a stream or iterator
  watches that subject, whose handler then runs instead, once.
\<close>

theorem no_responders_settles:
  assumes "call_reachable can_alloc unpack is_503 timeout c"
    and "nm_subject msg = reply_subject token" "status_503 is_503 msg"
    and "handle_mux_message can_alloc unpack is_503 now msg c = (c', out)"
  shows "(\<forall>h. dget (cc_status c) token = Some h \<longrightarrow> out = [Status_Handler h (NoResponders token)] \<and>
        dget (cc_status c') token = None \<and> cc_futures c' = cc_futures c) \<and>
    (\<forall>p s. dget (cc_status c) token = None \<and> dget (cc_pending c) token = Some p \<and>
        cc_futures c ! pr_future p = Waiting \<and> pr_subject p = Some s \<and> s \<noteq> [] \<longrightarrow>
        cc_futures c' = (cc_futures c)[pr_future p := Done_Error (NoResponders s)] \<and>
        dget (cc_pending c') token = None \<and> dget (cc_timers c') (pr_future p) = None) \<and>
    (dget (cc_status c) token = None \<and> dget (cc_pending c) token = None \<longrightarrow> c' = c)"
proof -
  have ok: "calls_ok c" using reachable_ok [OF assms(1)] by blast
  have h: "handle_no_responders token c = (c', out)"
    using assms(2-4) by (simp add: handle_mux_message_def)
  then show ?thesis
    using calls_okD(1) [OF ok, of token]
    by (auto simp: handle_no_responders_def Let_def is_done_def split: option.splits if_splits)
qed

theorem no_responders_settles_witness:
  "cc_futures (fst (handle_mux_message (\<lambda>_. True) demo_unpack2 (\<lambda>h. dget h ''Status'' = Some ''503'') 9
      \<lparr>nm_subject = reply_subject ''p.1'', nm_data = [], nm_headers = Some [(''Status'', ''503'')], nm_reply = []\<rparr>
      demo_call)) = [Done_Error (NoResponders ''rpc.a.b'')]"
proof -
  let ?is = "\<lambda>h. dget h ''Status'' = Some ''503''"
  let ?m = "\<lparr>nm_subject = reply_subject ''p.1'', nm_data = [], nm_headers = Some [(''Status'', ''503'')], nm_reply = []\<rparr>"
  let ?p = "\<lparr>pr_future = 0, pr_timeout = 0, pr_subject = Some ''rpc.a.b'', pr_cleanup = False\<rparr>"
  have r: "call_reachable (\<lambda>_. True) demo_unpack2 ?is 30000
      (call_step (\<lambda>_. True) demo_unpack2 ?is 30000 (Begin_Call ''p.1'' ''rpc.a.b'') calls_init)"
    by (rule call_reachable.step [OF call_reachable.init]) (simp add: calls_init_def)
  have d: "call_step (\<lambda>_. True) demo_unpack2 ?is 30000 (Begin_Call ''p.1'' ''rpc.a.b'') calls_init = demo_call"
    by (simp add: demo_call_def)
  have c: "dget (cc_pending demo_call) ''p.1'' = Some ?p" "dget (cc_status demo_call) ''p.1'' = None"
      "cc_futures demo_call = [Waiting]"
    by code_simp+
  have s: "status_503 ?is ?m" by (simp add: status_503_def)
  show ?thesis
    using no_responders_settles [OF r [unfolded d] _ s prod.collapse [symmetric], of "''p.1''" 9] c by auto
qed

text \<open>
  The entry and the timer are gone before the error of a response is read. A response whose error
  is not a map with code and message (\<open>null\<close>, say, which the message format allows) therefore
  raises with the caller left behind: its future is never settled, and no timer is armed.
\<close>

lemma malformed_error_strands_caller:
  "let c = fst (route_mux_response (PDict [(PStr ''id'', PStr ''p.1''), (PStr ''error'', PNone)]) demo_call)
   in waits c 0 \<and> cc_timers c = [] \<and> cc_pending c = []"
  by code_simp

end
