(* ===== verification/Remote_Call.thy ===== *)
theory Remote_Call
  imports Dispatch Calls_Correct
begin

text \<open>
  A remote call from end to end: the caller's request over the message layer, the server that serves it,
  and the response back through the reply inbox. What msgpack promises of its encoding is the only
  assumption about the wire.
\<close>

section \<open>The promise of msgpack\<close>

text \<open>
  Whatever \<open>packb\<close> encodes, \<open>unpackb\<close> decodes to the same value, with tuples as lists and byte
  buffers as bytes. The encoding is never empty, and no value but a lone integer begins with the byte
  \<open>0x43\<close>, so none begins with the four magic bytes.
\<close>

definition msgpack_ok :: "(pyval \<Rightarrow> exc + bytes) \<Rightarrow> (bytes \<Rightarrow> exc + pyval) \<Rightarrow> bool" where
  "msgpack_ok pack unpack \<longleftrightarrow>
     (\<forall>v p. pack v = Inr p \<longrightarrow> unpack p = Inr (mp_norm v) \<and> p \<noteq> [] \<and> take 4 p \<noteq> MAGIC)"

lemma msgpack_arrives:
  assumes "msgpack_ok pack unpack" "encode_message pack v = Inr w" "phs (mp_norm v) = []"
  shows "arrives unpack pack v = Some (wire_view v)"
proof -
  obtain p where p: "pack (envelope_of v) = Inr p" and l: "binaries v = [] \<or> length p < 2 ^ 32"
  proof (cases "binaries v = []")
    case True
    then have "envelope_of v = v" using extract_segments(1) [of v "[]"] by (simp add: envelope_of_def)
    then show thesis using that assms(2) True by (simp add: encode_message_eq)
  next
    case False
    then show thesis using that assms(2) by (auto simp: encode_message_eq split: sum.splits if_splits)
  qed
  have "unpack p = Inr (mp_norm (envelope_of v))" "take 4 p \<noteq> MAGIC" using assms(1) p by (auto simp: msgpack_ok_def)
  then have "\<exists>w. encode_message pack v = Inr w \<and> decode_message unpack w = Inr (wire_view v)"
    using encode_decode_view [of pack v p unpack] p l assms(3) by blast
  then show ?thesis by auto
qed

lemma msgpack_header: "msgpack_ok pack unpack \<Longrightarrow> header_travels pack unpack"
  by (simp add: msgpack_ok_def header_travels_def chunk_header_def)

lemma call_message_plain:
  "phs (mp_norm (PTuple args)) = [] \<Longrightarrow> phs (mp_norm (call_message rid args False)) = []"
  by (simp add: call_message_def placeholder_of.simps)

lemma call_message_view:
  "wire_view (call_message rid args False) = PDict [(PStr ''id'', PStr rid), (PStr ''method'', PStr ''call''),
     (PStr ''params'', wire_view (PTuple args))]"
  by (simp add: call_message_def as_extractable_segment_def)

section \<open>A call from end to end\<close>

text \<open>
  C1. A remote call returns what the handler returns. The request of a pending call, of any size and in
  as many messages as it takes, reaches the server, which runs the handler on the arguments as they
  arrive and answers once; the answer, again of any size, settles the future of that call with
  the handler's value or with the exception that it raised, removes its entry, and touches no other call.
\<close>

theorem remote_call:
  assumes "msgpack_ok pack unpack" "unmarked args" "phs (mp_norm (PTuple args)) = []" "0 < n" "tid \<noteq> []" "rid \<noteq> []"
    and req: "publish pack (\<lambda>_. None) tid (int n) True subject (call_message rid args False) None (Some (reply_subject rid))
        = (reqs, None)"
    and server: "rx_queue key rx = []" "owned cb_transfer (rx_manager rx)" "tid \<notin> transfers (rx_manager rx)"
      "length ts = length reqs" "timely ts"
      "deliver (message_handler can_alloc unpack key) (zip ts reqs) rx = (rx', out)"
      "s' = fold (handle_message str env methods) (invoked key out) s"
      "\<forall>v. en_publish env v = None" "\<forall>e a. en_call env a = Inl e \<longrightarrow> typed_exc e"
    and resp: "response = snd (last (sv_replies s'))" "phs (mp_norm response) = []" "0 < n'" "tid' \<noteq> []"
      "publish pack (\<lambda>_. None) tid' (int n') True (reply_subject rid) response None None = (msgs, None)"
      "length ts' = length msgs" "timely ts'"
    and caller: "call_reachable client_alloc unpack is_status timeout c" "tid' \<notin> transfers (rx_manager (cc_rx c))"
      "dget (cc_pending c) rid = Some p" "cc_futures c ! pr_future p = Waiting"
  shows "sv_replies s' = sv_replies s @ [(PStr rid, response)] \<and>
    (\<exists>c' out'. deliver (handle_mux_message client_alloc unpack is_status) (zip ts' msgs) c = (c', out') \<and>
      cc_pending c' = dpop rid (cc_pending c) \<and>
      cc_futures c' = (cc_futures c)[pr_future p :=
        (case en_call env (map wire_view args) of
           Inr v \<Rightarrow> Done_Result (wire_view v)
         | Inl e \<Rightarrow> Done_Error (RPC (received_exc str e)))])"
proof -
  have arrives_view: "arrives unpack pack v = Some (wire_view v)"
    if "publish pack (\<lambda>_. None) i k True sub v None r = (ms, None)" "phs (mp_norm v) = []" for v i k sub r ms
  proof (cases "encode_message pack v")
    case (Inl e)
    then show ?thesis using that(1) by (simp add: publish_def)
  next
    case (Inr w)
    then show ?thesis using msgpack_arrives [OF assms(1) _ that(2)] by blast
  qed
  let ?m = "[(PStr ''id'', PStr rid), (PStr ''method'', PStr ''call''), (PStr ''params'', wire_view (PTuple args))]"
  have "arrives unpack pack (call_message rid args False) = Some (PDict ?m)"
    using arrives_view [OF req call_message_plain [OF assms(3)]] by (simp add: call_message_view)
  from sub.publish_deliver [OF req assms(4) _ msgpack_header [OF assms(1)] this server(1-3) assms(5) _ server(4,5),
      of can_alloc]
  have "invoked key out = [PDict ?m]" using server(6) by (simp add: plain_def)
  then have s': "s' = handle_message str env methods (PDict ?m) s" using server(7) by simp
  have "sget ?m ''params'' = Some (wire_view (PTuple args))" by (simp del: wire_view.simps)
  moreover have "\<forall>e a. en_call env a = Inl e \<longrightarrow> typed_exc e" by (rule server(9))
  ultimately obtain d where d: "sv_replies s' = sv_replies s @ [(PStr rid, PDict d)]" "sget d ''id'' = Some (PStr rid)"
    "response_outcome (wire_items d) = (case en_call env (map wire_view args) of
        Inr v \<Rightarrow> Inr (Done_Result (wire_view v)) | Inl e \<Rightarrow> Inr (Done_Error (RPC (received_exc str e))))"
    using plain_call_served [OF server(8), of ?m "PStr rid" args str methods s] assms(2) unfolding s' by auto
  have r: "response = PDict d" using resp(1) d(1) by simp
  have a: "arrives unpack pack response = Some (PDict (wire_items d))"
    using arrives_view [OF resp(5) resp(2)] r by simp
  have i: "sget (wire_items d) ''id'' = Some (PStr rid)" using d(2) by (simp add: wire_items_sget as_extractable_segment_def)
  have ne: "\<forall>v b. pack v = Inr b \<longrightarrow> b \<noteq> []" using assms(1) by (auto simp: msgpack_ok_def)
  let ?x = "case en_call env (map wire_view args) of Inr v \<Rightarrow> Done_Result (wire_view v) | Inl e \<Rightarrow> Done_Error (RPC (received_exc str e))"
  have x: "response_outcome (wire_items d) = Inr ?x" using d(3) by (simp split: sum.splits)
  have ok: "calls_ok c" "owned cb_transfer (rx_manager (cc_rx c))" using reachable_ok [OF caller(1)] by blast+
  show ?thesis
    using response_settles [OF ok caller(3) assms(6) caller(4) resp(5,3) msgpack_header [OF assms(1)] a ne i x resp(4) caller(2)
        resp(6,7), of client_alloc is_status] d(1) r by blast
qed

text \<open>One call with argument 7, its response in two chunks.\<close>

definition demo_request :: pyval where
  "demo_request = call_message ''p.1'' [PInt 7] False"

definition demo_answer :: pyval where
  "demo_answer = PDict [(PStr ''id'', PStr ''p.1''), (PStr ''result'', PInt 7)]"

definition demo_packb :: "pyval \<Rightarrow> exc + bytes" where
  "demo_packb v = (if v = demo_request then Inr [9] else if v = demo_answer then Inr [1, 2, 3]
     else if v = chunk_header ''t'' 2 3 2 then Inr [7, 7] else Inl (Raised TypeError ''unsupported''))"

definition demo_unpackb :: "bytes \<Rightarrow> exc + pyval" where
  "demo_unpackb b = (if b = [9] then Inr (mp_norm demo_request) else if b = [1, 2, 3] then Inr demo_answer
     else if b = [7, 7] then Inr (chunk_header ''t'' 2 3 2) else Inl (Raised ValueError ''invalid''))"

lemma demo_msgpack: "msgpack_ok demo_packb demo_unpackb"
  by (auto simp: msgpack_ok_def demo_packb_def demo_unpackb_def demo_answer_def chunk_header_def MAGIC_def split: if_splits)

theorem remote_call_witness:
  "\<exists>c' out'. deliver (handle_mux_message (\<lambda>_. True) demo_unpackb (\<lambda>_. False))
      (zip [5, 6, 7] (fst (publish demo_packb (\<lambda>_. None) ''t'' 2 True (reply_subject ''p.1'') demo_answer None None)))
      demo_call = (c', out') \<and> cc_futures c' = [Done_Result (PInt 7)]"
proof -
  let ?req = "publish demo_packb (\<lambda>_. None) ''t'' (int 100) True ''rpc.a.b'' (call_message ''p.1'' [PInt 7] False) None
    (Some (reply_subject ''p.1''))"
  let ?msgs = "publish demo_packb (\<lambda>_. None) ''t'' (int 2) True (reply_subject ''p.1'') demo_answer None None"
  let ?d = "deliver (message_handler (\<lambda>_. True) demo_unpackb 1) (zip [3] (fst ?req)) rx_init"
  let ?s = "fold (handle_message (\<lambda>_. ''empty'') demo_env [''b'']) (invoked 1 (snd ?d)) demo_server"
  let ?p = "\<lparr>pr_future = 0, pr_timeout = 0, pr_subject = Some ''rpc.a.b'', pr_cleanup = False\<rparr>"
  have req: "?req = (fst ?req, None)" "length [3] = length (fst ?req)" by code_simp+
  have msgs: "?msgs = (fst ?msgs, None)" "length [5, 6, 7] = length (fst ?msgs)" by code_simp+
  have ans: "demo_answer = snd (last (sv_replies ?s))" by code_simp
  have p: "dget (cc_pending demo_call) ''p.1'' = Some ?p" "cc_futures demo_call ! pr_future ?p = Waiting" by code_simp+
  have t: "''t'' \<notin> transfers (rx_manager (cc_rx demo_call))" by code_simp
  have ok: "call_reachable (\<lambda>_. True) demo_unpackb (\<lambda>_. False) 30000 demo_call"
    using call_reachable.step [OF call_reachable.init, of "\<lambda>_. True" demo_unpackb "\<lambda>_. False" "Begin_Call ''p.1'' ''rpc.a.b''" 30000]
    by (simp add: demo_call_def calls_init_def)
  have env: "\<forall>v. en_publish demo_env v = None" "\<forall>e a. en_call demo_env a = Inl e \<longrightarrow> typed_exc e"
    by (simp_all add: demo_env_def typed_exc_def)
  have args: "unmarked [PInt 7]" "phs (mp_norm (PTuple [PInt 7])) = []" by (simp_all add: unmarked_def)
  have phs: "phs (mp_norm demo_answer) = []" by code_simp
  have times: "timely [3]" "timely [5, 6, 7]" by code_simp+
  have run: "?d = (fst ?d, snd ?d)" by simp
  have call: "en_call demo_env (map wire_view [PInt 7]) = Inr (PInt 7)"
    by (simp add: demo_env_def as_extractable_segment_def)
  have futures: "cc_futures demo_call = [Waiting]" by code_simp
  show ?thesis
    using remote_call [OF demo_msgpack args _ _ _ req(1) _ _ _ req(2) times(1) run refl env ans phs _ _ msgs times(2) ok t p]
    unfolding call futures by (auto simp: as_extractable_segment_def)
qed

end
