(* ===== verification/Retry.thy ===== *)
theory Retry
  imports Calls
begin

text \<open>
  Retrying on missing responders (\<open>client.py\<close>): \<open>_with_no_responder_retry\<close> around a call, the
  native request with its mapping of errors, and the retry loop of \<open>call_stream\<close>. Delays are in
  milliseconds.
\<close>

section \<open>The retry loop\<close>

record retry_options =
  ro_max_retries :: "int option"
  ro_delays :: "int list option"

text \<open>
  \<open>override if override is not None else self.options.get("no_responder_retry", {}) or {}\<close>, with
  the defaults of the two keys.
\<close>

definition retry_config :: "retry_options option \<Rightarrow> retry_options option \<Rightarrow> int \<times> int list" where
  "retry_config override configured =
     (let src = (case override of
                   Some r \<Rightarrow> r
                 | None \<Rightarrow> (case configured of Some r \<Rightarrow> r | None \<Rightarrow> \<lparr>ro_max_retries = None, ro_delays = None\<rparr>))
      in (case ro_max_retries src of None \<Rightarrow> 3 | Some n \<Rightarrow> n,
          case ro_delays src of None \<Rightarrow> [500, 1000, 2000] | Some ds \<Rightarrow> ds))"

fun contains :: "string \<Rightarrow> string \<Rightarrow> bool" where
  "contains p [] \<longleftrightarrow> p = []"
| "contains p (c # s) \<longleftrightarrow> take (length p) (c # s) = p \<or> contains p s"

text \<open>\<open>str\<close> is Python's \<open>str(e)\<close>.\<close>

definition is_no_responder :: "(exc \<Rightarrow> string) \<Rightarrow> exc \<Rightarrow> bool" where
  "is_no_responder str e \<longleftrightarrow>
     (case e of NoResponders _ \<Rightarrow> True | _ \<Rightarrow> False) \<or>
     contains ''no responders'' (lower (str e)) \<or>
     (case e of RPC r \<Rightarrow> exc_code r = PStr ''503'' | _ \<Rightarrow> False)"

text \<open>
  The loop over the attempts that are left. \<open>fn i\<close> is what attempt \<open>i\<close> does, \<open>closed i\<close> the flag
  \<open>_closed\<close> after it; the result is the delays slept and the outcome. \<open>delays[-1]\<close> of an empty list
  raises.
\<close>

fun retry_from :: "(exc \<Rightarrow> string) \<Rightarrow> (nat \<Rightarrow> exc + 'a) \<Rightarrow> (nat \<Rightarrow> bool) \<Rightarrow> int \<Rightarrow> int list \<Rightarrow> nat list
    \<Rightarrow> int list \<times> (exc + 'a)" where
  "retry_from str fn closed max_retries delays [] = ([], Inl (Raised RuntimeError ''Retry loop exhausted''))"
| "retry_from str fn closed max_retries delays (attempt # rest) =
     (case fn attempt of
        Inr v \<Rightarrow> ([], Inr v)
      | Inl e \<Rightarrow>
          if \<not> is_no_responder str e \<or> max_retries \<le> int attempt \<or> closed attempt then ([], Inl e)
          else if delays = [] then ([], Inl (Raised IndexError ''list index out of range''))
          else
            (case retry_from str fn closed max_retries delays rest of
               (slept, r) \<Rightarrow> (delays ! min attempt (length delays - 1) # slept, r)))"

definition with_no_responder_retry :: "(exc \<Rightarrow> string) \<Rightarrow> (nat \<Rightarrow> exc + 'a) \<Rightarrow> (nat \<Rightarrow> bool)
    \<Rightarrow> retry_options option \<Rightarrow> retry_options option \<Rightarrow> int list \<times> (exc + 'a)" where
  "with_no_responder_retry str fn closed override configured =
     (case retry_config override configured of
        (max_retries, delays) \<Rightarrow>
          retry_from str fn closed max_retries delays [0 ..< nat (max_retries + 1)])"

section \<open>Native requests\<close>

text \<open>
  \<open>_request_once\<close> with the reply of \<open>nc.request\<close> (or what it raised) as argument.
  \<open>rq_timeout\<close> is the \<open>timeout\<close> argument.
\<close>

definition request_timeout :: "int option \<Rightarrow> int" where
  "request_timeout t = (case t of None \<Rightarrow> 5000 | Some n \<Rightarrow> if n = 0 then 5000 else n)"

text \<open>A decoded reply that is a map with an \<open>error\<close> key is an error.\<close>

definition reply_result :: "pyval \<Rightarrow> exc + pyval" where
  "reply_result decoded =
     (case decoded of
        PDict d \<Rightarrow>
          (case sget d ''error'' of
             None \<Rightarrow> Inr decoded
           | Some m \<Rightarrow>
               Inl (RPC \<lparr>exc_code = (case sget d ''code'' of None \<Rightarrow> PStr (code_value INTERNAL_ERROR) | Some c \<Rightarrow> c),
                         exc_message = m, exc_data = decoded\<rparr>))
      | _ \<Rightarrow> Inr decoded)"

text \<open>The body of the try block after the reply came: service errors are told by a header.\<close>

definition read_reply :: "(bytes \<Rightarrow> exc + pyval) \<Rightarrow> nats_msg \<Rightarrow> exc + pyval" where
  "read_reply unpack msg =
     (let error_code = (case header_of msg ''Nats-Service-Error-Code'' of None \<Rightarrow> [] | Some code \<Rightarrow> code)
      in if error_code \<noteq> []
         then
           let error_msg = (case header_of msg ''Nats-Service-Error'' of None \<Rightarrow> ''Service error'' | Some m \<Rightarrow> m);
               error_data = (if nm_data msg = [] then PNone
                             else (case decode_message unpack (nm_data msg) of Inl _ \<Rightarrow> PNone | Inr d \<Rightarrow> d))
           in Inl (RPC (create_error (Inr error_code) error_msg error_data))
         else
           (case decode_message unpack (nm_data msg) of
              Inl e \<Rightarrow> Inl e
            | Inr decoded \<Rightarrow> reply_result decoded))"

text \<open>The except branches.\<close>

definition request_error :: "(exc \<Rightarrow> string) \<Rightarrow> string \<Rightarrow> int option \<Rightarrow> exc \<Rightarrow> exc" where
  "request_error str subject timeout e =
     (if (case e of Raised TimeoutError _ \<Rightarrow> True | _ \<Rightarrow> False)
      then RPC (create_error (Inl TIMEOUT)
             (''Request to '' @ [CHR 0x27] @ subject @ [CHR 0x27] @ '' timed out after ''
              @ show_int (request_timeout timeout) @ ''ms'') PNone)
      else if contains ''no responders'' (lower (str e))
      then RPC (create_error (Inl NOT_FOUND) ''No responders available'' PNone)
      else e)"

definition request_once :: "(pyval \<Rightarrow> exc + bytes) \<Rightarrow> (bytes \<Rightarrow> exc + pyval) \<Rightarrow> (exc \<Rightarrow> string)
    \<Rightarrow> bool \<Rightarrow> (bytes \<Rightarrow> exc + nats_msg) \<Rightarrow> string \<Rightarrow> pyval \<Rightarrow> int option \<Rightarrow> exc + pyval" where
  "request_once pack unpack str connected nc_request subject data timeout =
     (if \<not> connected then Inl (Raised RuntimeError ''Not connected'')
      else
        (case encode_message pack data of
           Inl e \<Rightarrow> Inl e
         | Inr encoded \<Rightarrow>
             (case (case nc_request encoded of Inl e \<Rightarrow> Inl e | Inr msg \<Rightarrow> read_reply unpack msg) of
                Inl e \<Rightarrow> Inl (request_error str subject timeout e)
              | Inr v \<Rightarrow> Inr v)))"

text \<open>\<open>request\<close>: attempt \<open>i\<close> finds the connection \<open>connected i\<close> and the reply \<open>nc_request i\<close>.\<close>

definition request :: "(pyval \<Rightarrow> exc + bytes) \<Rightarrow> (bytes \<Rightarrow> exc + pyval) \<Rightarrow> (exc \<Rightarrow> string)
    \<Rightarrow> (nat \<Rightarrow> bool) \<Rightarrow> (nat \<Rightarrow> bytes \<Rightarrow> exc + nats_msg) \<Rightarrow> (nat \<Rightarrow> bool) \<Rightarrow> string \<Rightarrow> pyval \<Rightarrow> int option
    \<Rightarrow> retry_options option \<Rightarrow> retry_options option \<Rightarrow> int list \<times> (exc + pyval)" where
  "request pack unpack str connected nc_request closed subject data timeout override configured =
     with_no_responder_retry str
       (\<lambda>i. request_once pack unpack str (connected i) (nc_request i) subject data timeout)
       closed override configured"

section \<open>Calls\<close>

text \<open>\<open>call\<close>: attempt \<open>i\<close> of \<open>_call_once\<close> returns or raises \<open>call_once i\<close>.\<close>

definition call :: "(exc \<Rightarrow> string) \<Rightarrow> (nat \<Rightarrow> exc + pyval) \<Rightarrow> (nat \<Rightarrow> bool) \<Rightarrow> retry_options option \<Rightarrow> retry_options option
    \<Rightarrow> int list \<times> (exc + pyval)" where
  "call str call_once closed override configured = with_no_responder_retry str call_once closed override configured"

section \<open>Streams\<close>

text \<open>
  The loop of \<open>call_stream\<close>: attempt \<open>i\<close> yields some values and ends or raises. The values go to
  the consumer as they come; the loop can also run out of attempts, which ends the stream.
\<close>

fun stream_from :: "(exc \<Rightarrow> string) \<Rightarrow> (nat \<Rightarrow> pyval list \<times> exc option) \<Rightarrow> (nat \<Rightarrow> bool) \<Rightarrow> int \<Rightarrow> int list \<Rightarrow> nat list
    \<Rightarrow> int list \<times> pyval list \<times> exc option" where
  "stream_from str fn closed max_retries delays [] = ([], [], None)"
| "stream_from str fn closed max_retries delays (attempt # rest) =
     (case fn attempt of
        (vs, None) \<Rightarrow> ([], vs, None)
      | (vs, Some e) \<Rightarrow>
          if \<not> is_no_responder str e \<or> max_retries \<le> int attempt \<or> closed attempt then ([], vs, Some e)
          else if delays = [] then ([], vs, Some (Raised IndexError ''list index out of range''))
          else
            (case stream_from str fn closed max_retries delays rest of
               (slept, ws, r) \<Rightarrow> (delays ! min attempt (length delays - 1) # slept, vs @ ws, r)))"

definition call_stream :: "(exc \<Rightarrow> string) \<Rightarrow> (nat \<Rightarrow> pyval list \<times> exc option) \<Rightarrow> (nat \<Rightarrow> bool)
    \<Rightarrow> retry_options option \<Rightarrow> retry_options option \<Rightarrow> int list \<times> pyval list \<times> exc option" where
  "call_stream str fn closed override configured =
     (case retry_config override configured of
        (max_retries, delays) \<Rightarrow>
          stream_from str fn closed max_retries delays [0 ..< nat (max_retries + 1)])"

section \<open>How the loops end\<close>

text \<open>Attempt \<open>k\<close> is the last: the attempts before it failed for want of responders.\<close>

definition last_attempt :: "(exc \<Rightarrow> string) \<Rightarrow> (nat \<Rightarrow> exc + 'a) \<Rightarrow> (nat \<Rightarrow> bool) \<Rightarrow> nat \<Rightarrow> nat \<Rightarrow> nat \<Rightarrow> bool" where
  "last_attempt str fn closed a m k \<longleftrightarrow> a \<le> k \<and> k \<le> m \<and>
     (\<forall>i. a \<le> i \<and> i < k \<longrightarrow> (\<exists>e. fn i = Inl e \<and> is_no_responder str e) \<and> \<not> closed i) \<and>
     (case fn k of Inr _ \<Rightarrow> True | Inl e \<Rightarrow> \<not> is_no_responder str e \<or> k = m \<or> closed k)"

definition backoff :: "int list \<Rightarrow> nat \<Rightarrow> nat \<Rightarrow> int list" where
  "backoff delays a k = map (\<lambda>i. delays ! min i (length delays - 1)) [a ..< k]"

lemma last_attempt_skip:
  "last_attempt str fn closed (Suc a) m k \<Longrightarrow> fn a = Inl e \<Longrightarrow> is_no_responder str e \<Longrightarrow> \<not> closed a \<Longrightarrow>
   last_attempt str fn closed a m k"
  by (auto simp: last_attempt_def) (metis le_antisym not_less_eq_eq)+

lemma backoff_Suc: "a < k \<Longrightarrow> backoff delays a k = delays ! min a (length delays - 1) # backoff delays (Suc a) k"
  by (simp add: backoff_def upt_conv_Cons)

lemma retry_from_last:
  assumes "delays \<noteq> []" "a \<le> m"
  shows "\<exists>k. last_attempt str fn closed a m k \<and>
    retry_from str fn closed (int m) delays [a ..< Suc m] = (backoff delays a k, fn k)"
  using assms(2)
proof (induction "m - a" arbitrary: a)
  case (Suc d)
  have l: "[a ..< Suc m] = a # [Suc a ..< Suc m]" using Suc.prems by (simp add: upt_conv_Cons del: upt_Suc)
  show ?case
  proof (cases "fn a")
    case (Inr v)
    then show ?thesis by (intro exI [of _ a]) (auto simp: last_attempt_def l backoff_def Suc.prems simp del: upt_Suc)
  next
    case (Inl e)
    show ?thesis
    proof (cases "is_no_responder str e \<and> \<not> closed a")
      case False
      then show ?thesis
        using Inl Suc.prems by (intro exI [of _ a]) (auto simp: last_attempt_def l backoff_def simp del: upt_Suc)
    next
      case True
      have "d = m - Suc a" "Suc a \<le> m" using Suc.hyps(2) by simp_all
      then obtain k where k: "last_attempt str fn closed (Suc a) m k"
        "retry_from str fn closed (int m) delays [Suc a ..< Suc m] = (backoff delays (Suc a) k, fn k)"
        using Suc.hyps(1) by blast
      have "a < k" using k(1) by (simp add: last_attempt_def)
      then show ?thesis
        using last_attempt_skip [OF k(1) Inl] True k(2) Inl assms(1) \<open>Suc a \<le> m\<close>
        by (intro exI [of _ k]) (simp add: l backoff_Suc del: upt_Suc)
    qed
  qed
next
  case 0
  then have "a = m" by simp
  then show ?case
    by (intro exI [of _ m]) (auto simp: last_attempt_def backoff_def split: sum.split)
qed

section \<open>Properties of retrying\<close>

lemma nat_suc: "nat (int m + 1) = Suc m" by simp

text \<open>
  C17. Retrying is bounded and transparent: with \<open>m\<close> retries there are at most \<open>m + 1\<close> attempts; the
  outcome is that of the last one, each attempt before it found no responder while the client was
  open, the delay before each retry is the configured one (the last delay repeats), and an attempt
  that succeeds or fails in another way is never followed by another.
\<close>

theorem retry_outcome:
  assumes "retry_config override configured = (int m, delays)" "delays \<noteq> []"
  shows "\<exists>k \<le> m. last_attempt str fn closed 0 m k \<and>
    with_no_responder_retry str fn closed override configured = (backoff delays 0 k, fn k)"
proof -
  obtain k where "last_attempt str fn closed 0 m k"
    "retry_from str fn closed (int m) delays [0 ..< Suc m] = (backoff delays 0 k, fn k)"
    using retry_from_last [OF assms(2), of 0 m] by blast
  then show ?thesis
    using assms(1) by (auto simp: with_no_responder_retry_def nat_suc last_attempt_def simp del: upt_Suc)
qed

definition demo_attempts :: "nat \<Rightarrow> exc + nat" where
  "demo_attempts i = (if i < 2 then Inl (NoResponders ''s'') else Inr 7)"

theorem retry_outcome_witness:
  "with_no_responder_retry (\<lambda>_. []) demo_attempts (\<lambda>_. False) None None = ([500, 1000], Inr 7)"
proof -
  have c: "retry_config None None = (int 3, [500, 1000, 2000])" by (simp add: retry_config_def)
  have ne: "[500, 1000, 2000] \<noteq> ([] :: int list)" by simp
  obtain k where k: "last_attempt (\<lambda>_. []) demo_attempts (\<lambda>_. False) 0 3 k"
    "with_no_responder_retry (\<lambda>_. []) demo_attempts (\<lambda>_. False) None None = (backoff [500, 1000, 2000] 0 k, demo_attempts k)"
    using retry_outcome [OF c ne, of "\<lambda>_. []" demo_attempts "\<lambda>_. False"] by blast
  have "\<not> k < 2"
    using k(1) by (auto simp: last_attempt_def is_no_responder_def demo_attempts_def)
  moreover have "\<not> 2 < k"
  proof
    assume "2 < k"
    then have "\<exists>e. demo_attempts 2 = Inl e" using k(1) unfolding last_attempt_def by blast
    then show False by (simp add: demo_attempts_def)
  qed
  ultimately have "k = 2" by simp
  then show ?thesis using k(2) by (simp add: backoff_def upt_rec demo_attempts_def)
qed

text \<open>
  C18. Streams are retried like calls: with the same configuration \<open>call_stream\<close> sleeps the same
  delays and ends with the same error as a call whose attempts fail in the same way, and hands on
  the values of all attempts up to the last.
\<close>

theorem call_stream_like_call:
  assumes "retry_config override configured = (int m, delays)" "delays \<noteq> []"
  shows "\<exists>k \<le> m. with_no_responder_retry str (\<lambda>i. case snd (fn i) of None \<Rightarrow> Inr () | Some e \<Rightarrow> Inl e) closed
        override configured = (backoff delays 0 k, case snd (fn k) of None \<Rightarrow> Inr () | Some e \<Rightarrow> Inl e) \<and>
    call_stream str fn closed override configured
      = (backoff delays 0 k, concat (map (\<lambda>i. fst (fn i)) [0 ..< Suc k]), snd (fn k))"
proof -
  let ?g = "\<lambda>i. case snd (fn i) of None \<Rightarrow> Inr () | Some e \<Rightarrow> Inl e"
  have S: "stream_from str fn closed (int m) delays [a ..< Suc m]
      = (backoff delays a k, concat (map (\<lambda>i. fst (fn i)) [a ..< Suc k]), snd (fn k))"
    if "last_attempt str ?g closed a m k" for a k
    using that
  proof (induction "k - a" arbitrary: a)
    case 0
    then have a: "k = a" "a \<le> m" by (auto simp: last_attempt_def)
    then have "[a ..< Suc m] = a # [Suc a ..< Suc m]" by (simp add: upt_conv_Cons del: upt_Suc)
    moreover have "[a ..< Suc a] = [a]" by simp
    ultimately show ?case
      using 0 a by (auto simp: last_attempt_def backoff_def split: option.splits prod.splits simp del: upt_Suc)
  next
    case (Suc d)
    then have a: "a < k" "k \<le> m" by (auto simp: last_attempt_def)
    obtain e where e: "snd (fn a) = Some e" "is_no_responder str e" "\<not> closed a"
      using Suc.prems a(1) by (auto simp: last_attempt_def split: option.splits)
    have "last_attempt str ?g closed (Suc a) m k"
      using Suc.prems a by (auto simp: last_attempt_def)
    with Suc.hyps have IH: "stream_from str fn closed (int m) delays [Suc a ..< Suc m]
        = (backoff delays (Suc a) k, concat (map (\<lambda>i. fst (fn i)) [Suc a ..< Suc k]), snd (fn k))" by simp
    have l: "[a ..< Suc m] = a # [Suc a ..< Suc m]" "[a ..< Suc k] = a # [Suc a ..< Suc k]"
      using a by (simp_all add: upt_conv_Cons del: upt_Suc)
    show ?case
      using e a IH assms(2) by (simp add: l backoff_Suc case_prod_unfold del: upt_Suc)
  qed
  obtain k where k: "last_attempt str ?g closed 0 m k"
    "retry_from str ?g closed (int m) delays [0 ..< Suc m] = (backoff delays 0 k, ?g k)"
    using retry_from_last [OF assms(2), of 0 m] by blast
  show ?thesis
    using k S [OF k(1)] assms(1)
    by (intro exI [of _ k])
       (simp add: with_no_responder_retry_def call_stream_def nat_suc last_attempt_def del: upt_Suc)
qed

theorem call_stream_like_call_witness:
  "\<exists>k \<le> 1. call_stream (\<lambda>_. []) (\<lambda>i. ([PInt (int i)], if i = 0 then Some (NoResponders []) else None)) (\<lambda>_. False)
      (Some \<lparr>ro_max_retries = Some 1, ro_delays = Some [10]\<rparr>) None
    = (backoff [10] 0 k, concat (map (\<lambda>i. [PInt (int i)]) [0 ..< Suc k]), if k = 0 then Some (NoResponders []) else None)"
proof -
  have c: "retry_config (Some \<lparr>ro_max_retries = Some 1, ro_delays = Some [10]\<rparr>) None = (int 1, [10])"
    by (simp add: retry_config_def)
  show ?thesis
    using call_stream_like_call [OF c not_Cons_self2, of "\<lambda>_. []"
        "\<lambda>i. ([PInt (int i)], if i = 0 then Some (NoResponders []) else None)" "\<lambda>_. False"]
    by (simp only: fst_conv snd_conv) blast
qed

text \<open>
  A request that nobody answers is retried to the end although the error has been replaced by
  then: \<open>_request_once\<close> turns a no-responder error into \<open>NOT_FOUND\<close>, whose text the retry loop still
  recognises; the caller gets that error after the last attempt.
\<close>

theorem request_no_responders:
  assumes "retry_config override configured = (int m, delays)" "delays \<noteq> []"
    and "\<forall>i. connected i \<and> \<not> closed i" "encode_message pack data = Inr w"
    and "\<forall>i. nc_request i w = Inl (NoResponders subject)"
    and "contains ''no responders'' (lower (str (NoResponders subject)))"
    and "\<forall>r. str (RPC r) = rpc_str fmt r" "\<forall>t. fmt (PStr t) = t"
  shows "request pack unpack str connected nc_request closed subject data timeout override configured
    = (backoff delays 0 m, Inl (RPC (create_error (Inl NOT_FOUND) ''No responders available'' PNone)))"
proof -
  let ?e = "RPC (create_error (Inl NOT_FOUND) ''No responders available'' PNone)"
  let ?fn = "\<lambda>i. request_once pack unpack str (connected i) (nc_request i) subject data timeout"
  have fn: "?fn i = Inl ?e" for i
    using assms(3-6) by (simp add: request_once_def request_error_def)
  have "contains ''no responders'' (lower ''[NOT_FOUND] No responders available'')" by code_simp
  then have nr: "is_no_responder str ?e"
    using assms(7,8) by (simp add: is_no_responder_def rpc_str_def create_error_def)
  obtain k where k: "k \<le> m" "last_attempt str ?fn closed 0 m k"
    "with_no_responder_retry str ?fn closed override configured = (backoff delays 0 k, ?fn k)"
    using retry_from_last [OF assms(2), of 0 m str ?fn closed] assms(1)
    by (auto simp: with_no_responder_retry_def nat_suc last_attempt_def simp del: upt_Suc)
  have "k = m" using k(2) nr assms(3) unfolding last_attempt_def fn by simp
  then show ?thesis using k(3) by (simp add: request_def fn)
qed

theorem request_no_responders_witness:
  "snd (request (\<lambda>_. Inr [1]) (\<lambda>_. Inr PNone)
      (\<lambda>e. case e of RPC r \<Rightarrow> rpc_str (\<lambda>v. case v of PStr t \<Rightarrow> t | _ \<Rightarrow> []) r | _ \<Rightarrow> ''nats: no responders available'')
      (\<lambda>_. True) (\<lambda>_ _. Inl (NoResponders ''s'')) (\<lambda>_. False) ''s'' PNone None None None)
   = Inl (RPC (create_error (Inl NOT_FOUND) ''No responders available'' PNone))"
proof -
  have c: "retry_config None None = (int 3, [500, 1000, 2000])" by (simp add: retry_config_def)
  have w: "encode_message (\<lambda>_. Inr [1]) PNone = Inr [1]" by code_simp
  have n: "contains ''no responders'' (lower ''nats: no responders available'')" by code_simp
  show ?thesis
    using request_no_responders [where str = "\<lambda>e. case e of RPC r \<Rightarrow> rpc_str (\<lambda>v. case v of PStr t \<Rightarrow> t | _ \<Rightarrow> []) r
        | _ \<Rightarrow> ''nats: no responders available''" and fmt = "\<lambda>v. case v of PStr t \<Rightarrow> t | _ \<Rightarrow> []",
        OF c _ _ w] n by simp
qed

section \<open>Calls and teardown\<close>

text \<open>An error with a code of \<open>ErrorCode\<close> is retried for what it says only, never for its code.\<close>

lemma standard_error_retried:
  "is_no_responder str (RPC (create_error (Inl c) message data)) \<longleftrightarrow>
     contains ''no responders'' (lower (str (RPC (create_error (Inl c) message data))))"
  by (simp add: is_no_responder_def create_error_def code_value_not_503)

text \<open>
  So the error that a teardown settles calls with is no reason to retry: a call that is waiting when the client is
  suspended or disconnected raises it at once. \<open>show\<close> formats strings as themselves.
\<close>

lemma connection_closed_final:
  assumes "\<And>s. show (PStr s) = s"
  shows "\<not> is_no_responder (exc_str show nrs) connection_closed"
proof -
  have "exc_str show nrs connection_closed = ''[CONNECTION_CLOSED] Connection closed''"
    using assms by (simp add: connection_closed_def create_error_def exc_str_def rpc_str_def)
  moreover have "\<not> contains ''no responders'' (lower ''[CONNECTION_CLOSED] Connection closed'')" by code_simp
  ultimately show ?thesis by (simp add: connection_closed_def standard_error_retried)
qed

lemma call_torn_down:
  assumes "\<And>s. show (PStr s) = s" "retry_config override configured = (int m, delays)" "call_once 0 = Inl connection_closed"
  shows "call (exc_str show nrs) call_once closed override configured = ([], Inl connection_closed)"
  using connection_closed_final [OF assms(1)] assms(2,3)
  by (simp add: call_def with_no_responder_retry_def nat_suc upt_conv_Cons del: upt_Suc)

end
