(* ===== verification/Connection.thy ===== *)
theory Connection
  imports Calls_Correct Retry
begin

text \<open>
  The connection of a client: the options and what \<open>connect\<close> hands to nats-py, the subscription entries
  with \<open>subscribe\<close>, \<open>_nats_subscribe\<close>, \<open>_watch_subscription_end\<close> and the reply inbox, and the life cycle
  \<open>connect\<close>, \<open>disconnect\<close>, \<open>suspend\<close>, \<open>reconfigure\<close>. Entries are mutable objects that closures keep, so
  they live in a store and \<open>_subscription_entries\<close> is the list of the keys that are registered.
\<close>

section \<open>Options\<close>

text \<open>TLS is a ready context or a dictionary of files.\<close>

datatype tls_option = Tls_Context string | Tls_Files "(string, string) pydict"

datatype tls_context = Ready_Context string | Default_Context "string list" "(string \<times> string) list"

record rpc_client_options =
  op_servers :: "string list"
  op_name :: string
  op_conn_id :: "string option"
  op_auth :: "(string, string) pydict option"
  op_timeout :: "int option"
  op_reconnect :: "bool option"
  op_max_reconnect_attempts :: "int option"
  op_reconnect_time_wait :: "int option"
  op_connect_timeout :: "int option"
  op_tls :: "tls_option option"
  op_disconnect_timeout :: "int option"
  op_no_responder_retry :: "retry_options option"
  op_error_cb :: "nat option"
  op_reconnected_cb :: "nat option"

text \<open>The values among the arguments of nats-py's \<open>connect\<close>; callbacks are named by numbers.\<close>

datatype conn_value =
    CStr string
  | CServers "string list"
  | CBool bool
  | CInt int
  | CCallback nat
  | CErrorCallback "nat option"
  | CTls tls_context
  | CNone

definition get_or :: "'a option \<Rightarrow> 'a \<Rightarrow> 'a" where
  "get_or x d = (case x of None \<Rightarrow> d | Some v \<Rightarrow> v)"

text \<open>\<open>int(ms / 1000)\<close>: truncation towards zero.\<close>

definition ms_to_seconds :: "int \<Rightarrow> int" where
  "ms_to_seconds ms = (if 0 \<le> ms then ms div 1000 else - ((- ms) div 1000))"

definition make_context :: "tls_option \<Rightarrow> tls_context" where
  "make_context t = (case t of
      Tls_Context c \<Rightarrow> Ready_Context c
    | Tls_Files d \<Rightarrow>
        Default_Context
          (case dget d ''ca'' of None \<Rightarrow> [] | Some ca \<Rightarrow> if ca = [] then [] else [ca])
          (case (dget d ''cert'', dget d ''key'') of
             (Some cert, Some key) \<Rightarrow> if cert = [] \<or> key = [] then [] else [(cert, key)]
           | _ \<Rightarrow> []))"

definition connect_opts :: "rpc_client_options \<Rightarrow> (string, conn_value) pydict" where
  "connect_opts opts =
     [(''servers'', CServers (op_servers opts)), (''name'', CStr (op_name opts)),
      (''allow_reconnect'', CBool (get_or (op_reconnect opts) True)),
      (''max_reconnect_attempts'', CInt (get_or (op_max_reconnect_attempts opts) (- 1))),
      (''reconnect_time_wait'', CInt (ms_to_seconds (get_or (op_reconnect_time_wait opts) 2000))),
      (''connect_timeout'', CInt (ms_to_seconds (get_or (op_connect_timeout opts) 10000))),
      (''pending_size'', CInt (6 * 1024 * 1024)),
      (''error_cb'', CErrorCallback (op_error_cb opts))] @
     (case op_reconnected_cb opts of None \<Rightarrow> [] | Some cb \<Rightarrow> [(''reconnected_cb'', CCallback cb)]) @
     (case op_auth opts of
        None \<Rightarrow> []
      | Some auth \<Rightarrow>
          if auth = [] then []
          else [(''user'', case dget auth ''user'' of None \<Rightarrow> CNone | Some u \<Rightarrow> CStr u),
                (''password'', case dget auth ''password'' of None \<Rightarrow> CNone | Some p \<Rightarrow> CStr p)]) @
     (case op_tls opts of
        None \<Rightarrow> []
      | Some t \<Rightarrow> if t = Tls_Files [] then [] else [(''tls'', CTls (make_context t))])"

text \<open>\<open>_error_cb\<close>: the callback of the user that it awaits, if any.\<close>

definition error_cb :: "bool \<Rightarrow> nat option \<Rightarrow> nat option" where
  "error_cb closed user_cb = (if closed then None else user_cb)"

definition ConnectionOptions :: "(string, conn_value) pydict \<Rightarrow> bool" where
  "ConnectionOptions d \<longleftrightarrow> (case dget d ''servers'' of Some (CServers _) \<Rightarrow> True | Some (CStr _) \<Rightarrow> True | _ \<Rightarrow> False) \<and>
     list_all (\<lambda>(k, v). (case v of
         CServers _ \<Rightarrow> k = ''servers''
       | CStr _ \<Rightarrow> k \<in> {''servers'', ''name'', ''tls_hostname'', ''user'', ''password'', ''token'', ''nkeys_seed'',
            ''nkeys_seed_str'', ''inbox_prefix''}
       | CBool _ \<Rightarrow> k \<in> {''pedantic'', ''verbose'', ''allow_reconnect'', ''dont_randomize'', ''no_echo'', ''tls_handshake_first''}
       | CInt _ \<Rightarrow> k \<in> {''connect_timeout'', ''reconnect_time_wait'', ''max_reconnect_attempts'', ''ping_interval'',
            ''max_outstanding_pings'', ''flusher_queue_size'', ''drain_timeout'', ''pending_size''}
       | CCallback _ \<Rightarrow> k \<in> {''disconnected_cb'', ''closed_cb'', ''discovered_server_cb'', ''reconnected_cb''}
       | CErrorCallback _ \<Rightarrow> k = ''error_cb''
       | CTls _ \<Rightarrow> k = ''tls''
       | CNone \<Rightarrow> k \<in> {''user'', ''password''})) d"

section \<open>State\<close>

datatype handler = Mux_Handler | User_Handler nat

record subscription_entry =
  se_key :: nat
  se_pattern :: string
  se_handler :: handler
  se_handler_is_async :: bool
  se_queue :: string
  se_sub :: "nat option"
  se_raw :: bool

text \<open>
  A subscription object of nats-py: on which connection it was made, whether it was unsubscribed, and
  its \<open>_closed\<close> attribute.
\<close>

record nats_sub =
  ns_pattern :: string
  ns_queue :: string
  ns_transport :: nat
  ns_active :: bool
  ns_closed :: bool

text \<open>What \<open>disconnect\<close> and \<open>suspend\<close> run besides the calls: in this order.\<close>

datatype session_hook =
    End_Stream string
  | Settle_Pull nat
  | Clean_Pull string
  | Clean_Callback string
  | Disconnect_Client nat

text \<open>
  Where the running life-cycle operation is: between two awaits of its loop over the entries (with the
  part of its snapshot that is left), awaiting the unsubscribe of one entry, or awaiting the close.
\<close>

datatype lifecycle =
    Idle
  | Connecting
  | Restoring "nat list"
  | Suspending "nat list"
  | Suspend_Unsub nat "nat list"
  | Suspend_Closing
  | Disconnecting "nat list"
  | Disconnect_Unsub nat "nat list"
  | Disconnect_Closing

record connection =
  cn_options :: rpc_client_options
  cn_reply_prefix :: string
  cn_nc :: "nat option"
  cn_transports :: nat
  cn_service :: "nat option"
  cn_max_payload_size :: int
  cn_seq :: nat
  cn_store :: "nat \<Rightarrow> subscription_entry option"
  cn_entries :: "nat list"
  cn_mux :: "nat option"
  cn_subs :: "nats_sub list"
  cn_closed :: bool
  cn_suspending :: bool
  cn_phase :: lifecycle
  cn_calls :: client_calls
  cn_streams :: "string list"
  cn_settles :: "nat list"
  cn_pull_cleanups :: "string list"
  cn_callback_cleanups :: "string list"
  cn_isolated :: "nat list"
  cn_hooks :: "session_hook list"

text \<open>\<open>__init__\<close>; \<open>rnd\<close> is the random number that \<open>generate_reply_prefix\<close> draws.\<close>

definition new_client :: "rpc_client_options \<Rightarrow> nat \<Rightarrow> connection" where
  "new_client options rnd =
     \<lparr>cn_options = options,
      cn_reply_prefix = (case op_conn_id options of
          Some i \<Rightarrow> if i = [] then generate_reply_prefix rnd else i | None \<Rightarrow> generate_reply_prefix rnd),
      cn_nc = None, cn_transports = 0, cn_service = None, cn_max_payload_size = 1024 * 1024,
      cn_seq = 0, cn_store = Map.empty, cn_entries = [], cn_mux = None, cn_subs = [],
      cn_closed = False, cn_suspending = False, cn_phase = Idle, cn_calls = calls_init,
      cn_streams = [], cn_settles = [], cn_pull_cleanups = [], cn_callback_cleanups = [], cn_isolated = [],
      cn_hooks = []\<rparr>"

section \<open>Subscription entries\<close>

definition not_connected :: exc where
  "not_connected = Raised RuntimeError ''Not connected''"

definition set_sub :: "nat \<Rightarrow> nat option \<Rightarrow> connection \<Rightarrow> connection" where
  "set_sub k v s = s\<lparr>cn_store := (cn_store s)(k := map_option (\<lambda>e. e\<lparr>se_sub := v\<rparr>) (cn_store s k))\<rparr>"

text \<open>\<open>entry.get("sub")\<close>\<close>

definition entry_sub :: "nat \<Rightarrow> connection \<Rightarrow> nat option" where
  "entry_sub k s = (case cn_store s k of None \<Rightarrow> None | Some e \<Rightarrow> se_sub e)"

text \<open>\<open>await sub.unsubscribe()\<close> of nats-py, exceptions suppressed.\<close>

definition sub_unsubscribe :: "nat \<Rightarrow> connection \<Rightarrow> connection" where
  "sub_unsubscribe n s =
     (if n < length (cn_subs s)
      then s\<lparr>cn_subs := (cn_subs s)[n := (cn_subs s ! n)\<lparr>ns_active := False, ns_closed := True\<rparr>]\<rparr> else s)"

text \<open>\<open>_nats_subscribe\<close>; \<open>refuse\<close> is what \<open>nc.subscribe\<close> raises.\<close>

definition nats_subscribe :: "(string \<Rightarrow> exc option) \<Rightarrow> nat \<Rightarrow> connection \<Rightarrow> connection \<times> exc option" where
  "nats_subscribe refuse k s =
     (case cn_nc s of
        None \<Rightarrow> (s, Some not_connected)
      | Some t \<Rightarrow>
          (case cn_store s k of
             None \<Rightarrow> (s, None)
           | Some e \<Rightarrow>
               (case refuse (se_pattern e) of
                  Some x \<Rightarrow> (s, Some x)
                | None \<Rightarrow>
                    (set_sub k (Some (length (cn_subs s)))
                       (s\<lparr>cn_subs := cn_subs s @ [\<lparr>ns_pattern = se_pattern e, ns_queue = se_queue e, ns_transport = t,
                          ns_active = True, ns_closed = False\<rparr>]\<rparr>), None))))"

definition new_entry :: "string \<Rightarrow> handler \<Rightarrow> bool \<Rightarrow> string \<Rightarrow> bool \<Rightarrow> connection \<Rightarrow> connection" where
  "new_entry pattern handler is_async queue raw s =
     (let key = Suc (cn_seq s)
      in s\<lparr>cn_seq := key,
           cn_store := (cn_store s)(key \<mapsto> \<lparr>se_key = key, se_pattern = pattern, se_handler = handler,
             se_handler_is_async = is_async, se_queue = queue, se_sub = None, se_raw = raw\<rparr>),
           cn_entries := cn_entries s @ [key]\<rparr>)"

definition subscribe :: "(string \<Rightarrow> exc option) \<Rightarrow> string \<Rightarrow> nat \<Rightarrow> bool \<Rightarrow> string \<Rightarrow> connection \<Rightarrow> connection \<times> (exc + nat)" where
  "subscribe refuse pattern handler is_async queue s =
     (if cn_nc s = None then (s, Inl not_connected)
      else
        let s = new_entry pattern (User_Handler handler) is_async queue False s
        in case nats_subscribe refuse (cn_seq s) s of
             (s', Some e) \<Rightarrow> (s', Inl e)
           | (s', None) \<Rightarrow> (s', Inr (cn_seq s)))"

text \<open>The \<open>unsubscribe\<close> closure that \<open>subscribe\<close> returned.\<close>

definition unsubscribe :: "nat \<Rightarrow> connection \<Rightarrow> connection" where
  "unsubscribe key s =
     (let sub = entry_sub key s;
          s = set_sub key None (s\<lparr>cn_entries := removeAll key (cn_entries s)\<rparr>)
      in case sub of None \<Rightarrow> s | Some n \<Rightarrow> sub_unsubscribe n s)"

text \<open>\<open>on_finish\<close> of \<open>_watch_subscription_end\<close>, for a message task that ended cleanly.\<close>

definition on_finish :: "nat \<Rightarrow> nat \<Rightarrow> connection \<Rightarrow> connection" where
  "on_finish key n s =
     (if cn_suspending s \<or> entry_sub key s \<noteq> Some n then s
      else
        sub_unsubscribe n
          ((set_sub key None s)\<lparr>cn_entries := removeAll key (cn_entries s),
             cn_mux := (if cn_mux s = Some key then None else cn_mux s)\<rparr>))"

definition register_mux_entry :: "connection \<Rightarrow> connection" where
  "register_mux_entry s =
     (case cn_mux s of
        Some _ \<Rightarrow> s
      | None \<Rightarrow>
          let s = new_entry (mux_pattern (cn_reply_prefix s)) Mux_Handler False [] True s
          in s\<lparr>cn_mux := Some (cn_seq s)\<rparr>)"

text \<open>\<open>sub is None or sub._closed\<close>\<close>

definition sub_missing :: "nat \<Rightarrow> connection \<Rightarrow> bool" where
  "sub_missing key s = (case entry_sub key s of None \<Rightarrow> True | Some n \<Rightarrow> ns_closed (cn_subs s ! n))"

definition ensure_mux_subscription :: "(string \<Rightarrow> exc option) \<Rightarrow> connection \<Rightarrow> connection \<times> exc option" where
  "ensure_mux_subscription refuse s =
     (let s = register_mux_entry s
      in case cn_mux s of
           None \<Rightarrow> (s, None)
         | Some k \<Rightarrow> if cn_nc s \<noteq> None \<and> sub_missing k s then nats_subscribe refuse k s else (s, None))"

section \<open>Life cycle\<close>

text \<open>\<open>connect()\<close>: return at once, join the running connection task, or start one.\<close>

datatype connect_choice = Already_Connected | Join_Task | Start_Task

definition connect_choice_of :: "(nat \<Rightarrow> bool) \<Rightarrow> connection \<Rightarrow> connect_choice" where
  "connect_choice_of is_connected s =
     (if (case cn_nc s of None \<Rightarrow> False | Some t \<Rightarrow> is_connected t) then Already_Connected
      else (case cn_phase s of Connecting \<Rightarrow> Join_Task | Restoring _ \<Rightarrow> Join_Task | _ \<Rightarrow> Start_Task))"

text \<open>\<open>_connect\<close> from the moment that nats-py delivers the connection up to the restore loop.\<close>

definition on_connected :: "int \<Rightarrow> connection \<Rightarrow> connection" where
  "on_connected max_payload s =
     (let t = cn_transports s;
          s = register_mux_entry (s\<lparr>cn_nc := Some t, cn_transports := Suc t, cn_closed := False, cn_service := Some t,
                cn_max_payload_size := max_payload - 8192\<rparr>)
      in s\<lparr>cn_phase := Restoring (cn_entries s)\<rparr>)"

text \<open>One round of the restore loop; an exception ends the connection task.\<close>

definition restore_next :: "(string \<Rightarrow> exc option) \<Rightarrow> connection \<Rightarrow> connection \<times> exc option" where
  "restore_next refuse s =
     (case cn_phase s of
        Restoring (k # ks) \<Rightarrow>
          if sub_missing k s
          then (case nats_subscribe refuse k s of
                  (s', None) \<Rightarrow> (s'\<lparr>cn_phase := Restoring ks\<rparr>, None)
                | (s', Some e) \<Rightarrow> (s'\<lparr>cn_phase := Idle\<rparr>, Some e))
          else (s\<lparr>cn_phase := Restoring ks\<rparr>, None)
      | Restoring [] \<Rightarrow> (s\<lparr>cn_phase := Idle\<rparr>, None)
      | _ \<Rightarrow> (s, None))"

text \<open>\<open>_cleanup_pending_requests\<close>, the sessions and \<open>_settle_pull_iterators\<close>: the first part of both teardowns.\<close>

definition settle_pull_iterators :: "connection \<Rightarrow> connection" where
  "settle_pull_iterators s = s\<lparr>cn_hooks := cn_hooks s @ map Settle_Pull (cn_settles s), cn_settles := []\<rparr>"

definition teardown_sessions :: "connection \<Rightarrow> connection" where
  "teardown_sessions s =
     (let s = s\<lparr>cn_calls := (cleanup_pending_requests (cn_calls s))\<lparr>cc_status := []\<rparr>\<rparr>;
          s = s\<lparr>cn_hooks := cn_hooks s @ map End_Stream (cn_streams s), cn_streams := []\<rparr>;
          s = settle_pull_iterators s;
          s = s\<lparr>cn_hooks := cn_hooks s @ map Clean_Pull (cn_pull_cleanups s), cn_pull_cleanups := []\<rparr>
      in s\<lparr>cn_hooks := cn_hooks s @ map Clean_Callback (cn_callback_cleanups s), cn_callback_cleanups := []\<rparr>)"

definition new_chunking :: "connection \<Rightarrow> connection" where
  "new_chunking s = s\<lparr>cn_calls := (cn_calls s)\<lparr>cc_rx := (cc_rx (cn_calls s))\<lparr>rx_manager := new_manager\<rparr>\<rparr>\<rparr>"

definition disconnect_isolated :: "connection \<Rightarrow> connection" where
  "disconnect_isolated s = s\<lparr>cn_hooks := cn_hooks s @ map Disconnect_Client (cn_isolated s)\<rparr>"

definition suspend_begin :: "connection \<Rightarrow> connection" where
  "suspend_begin s =
     (let s = teardown_sessions (s\<lparr>cn_suspending := True\<rparr>) in s\<lparr>cn_phase := Suspending (cn_entries s)\<rparr>)"

text \<open>A round of the loop: issue the unsubscribe; then, once it returned, forget the subscription.\<close>

definition suspend_next :: "connection \<Rightarrow> connection" where
  "suspend_next s =
     (case cn_phase s of
        Suspending (k # ks) \<Rightarrow>
          (case entry_sub k s of
             Some n \<Rightarrow> (sub_unsubscribe n s)\<lparr>cn_phase := Suspend_Unsub k ks\<rparr>
           | None \<Rightarrow> s\<lparr>cn_phase := Suspending ks\<rparr>)
      | Suspend_Unsub k ks \<Rightarrow> (set_sub k None s)\<lparr>cn_phase := Suspending ks\<rparr>
      | Suspending [] \<Rightarrow> (disconnect_isolated (new_chunking s))\<lparr>cn_phase := Suspend_Closing\<rparr>
      | Suspend_Closing \<Rightarrow> s\<lparr>cn_nc := None, cn_suspending := False, cn_phase := Idle\<rparr>
      | _ \<Rightarrow> s)"

definition disconnect_begin :: "connection \<Rightarrow> connection" where
  "disconnect_begin s =
     (let s = teardown_sessions (s\<lparr>cn_closed := True\<rparr>) in s\<lparr>cn_phase := Disconnecting (cn_entries s)\<rparr>)"

definition disconnect_next :: "connection \<Rightarrow> connection" where
  "disconnect_next s =
     (case cn_phase s of
        Disconnecting (k # ks) \<Rightarrow>
          (case entry_sub k s of
             Some n \<Rightarrow> (sub_unsubscribe n s)\<lparr>cn_phase := Disconnect_Unsub k ks\<rparr>
           | None \<Rightarrow> s\<lparr>cn_phase := Disconnecting ks\<rparr>)
      | Disconnect_Unsub k ks \<Rightarrow> (set_sub k None s)\<lparr>cn_phase := Disconnecting ks\<rparr>
      | Disconnecting [] \<Rightarrow>
          (disconnect_isolated (new_chunking (s\<lparr>cn_entries := [], cn_mux := None\<rparr>)))\<lparr>cn_isolated := [],
             cn_phase := Disconnect_Closing\<rparr>
      | Disconnect_Closing \<Rightarrow> s\<lparr>cn_nc := None, cn_phase := Idle\<rparr>
      | _ \<Rightarrow> s)"

section \<open>Reconfiguring a tree of clients\<close>

text \<open>A client with its options, whether it is connected, and its isolated clients.\<close>

datatype client_tree = Client (tree_options: rpc_client_options) (tree_connected: bool) (tree_children: "client_tree list")

definition new_options :: "string list option \<Rightarrow> (string, string) pydict option \<Rightarrow> rpc_client_options \<Rightarrow> rpc_client_options" where
  "new_options servers auth opts =
     (let opts = (case servers of None \<Rightarrow> opts | Some x \<Rightarrow> opts\<lparr>op_servers := x\<rparr>)
      in case auth of None \<Rightarrow> opts | Some x \<Rightarrow> opts\<lparr>op_auth := Some x\<rparr>)"

text \<open>\<open>reconfigure\<close>: an exception of a child leaves those before it changed.\<close>

fun reconfigure :: "string list option \<Rightarrow> (string, string) pydict option \<Rightarrow> client_tree \<Rightarrow> client_tree \<times> exc option"
  and reconfigure_all :: "string list option \<Rightarrow> (string, string) pydict option \<Rightarrow> client_tree list \<Rightarrow> client_tree list \<times> exc option"
where
  "reconfigure servers auth (Client opts connected children) =
     (if connected
      then (Client opts connected children,
            Some (Raised RuntimeError ''Cannot reconfigure while connected. Call suspend() first.''))
      else (case reconfigure_all servers auth children of
              (children', e) \<Rightarrow> (Client (new_options servers auth opts) connected children', e)))"
| "reconfigure_all servers auth [] = ([], None)"
| "reconfigure_all servers auth (c # cs) =
     (case reconfigure servers auth c of
        (c', Some e) \<Rightarrow> (c' # cs, Some e)
      | (c', None) \<Rightarrow> (case reconfigure_all servers auth cs of (cs', e) \<Rightarrow> (c' # cs', e)))"


section \<open>Runs\<close>

text \<open>
  What happens to a connection: one life-cycle operation at a time, with everything else interleaved at
  its awaits. \<open>Finish key n\<close> is the clean end of the message task of subscription \<open>n\<close>.
\<close>

datatype conn_event =
    Connect_Start
  | Connected int
  | Connect_Failed
  | Restore_Next
  | Suspend_Start
  | Suspend_Next
  | Disconnect_Start
  | Disconnect_Next
  | Subscribe string nat bool string
  | Unsubscribe nat
  | Finish nat nat

fun conn_step :: "conn_event \<Rightarrow> connection \<Rightarrow> connection" where
  "conn_step Connect_Start s = (if cn_phase s = Idle then s\<lparr>cn_phase := Connecting\<rparr> else s)"
| "conn_step (Connected max_payload) s = (if cn_phase s = Connecting then on_connected max_payload s else s)"
| "conn_step Connect_Failed s = (if cn_phase s = Connecting then s\<lparr>cn_phase := Idle\<rparr> else s)"
| "conn_step Restore_Next s = fst (restore_next (\<lambda>_. None) s)"
| "conn_step Suspend_Start s = (if cn_phase s = Idle then suspend_begin s else s)"
| "conn_step Suspend_Next s = suspend_next s"
| "conn_step Disconnect_Start s = (if cn_phase s = Idle then disconnect_begin s else s)"
| "conn_step Disconnect_Next s = disconnect_next s"
| "conn_step (Subscribe pattern handler is_async queue) s = fst (subscribe (\<lambda>_. None) pattern handler is_async queue s)"
| "conn_step (Unsubscribe key) s = unsubscribe key s"
| "conn_step (Finish key n) s = on_finish key n s"

text \<open>
  The runs that the theorem is about. Message tasks end cleanly only after their subscription was
  unsubscribed or its connection replaced, which is nats-py's promise; \<open>unsubscribe\<close> closures exist for entries of
  \<open>subscribe\<close> only; \<open>connect\<close> is called on a client without connection; \<open>subscribe\<close> is not called while the
  client is being suspended or disconnected.
\<close>

definition served_sub :: "nat \<Rightarrow> connection \<Rightarrow> bool" where
  "served_sub n s \<longleftrightarrow> n < length (cn_subs s) \<and> ns_active (cn_subs s ! n) \<and> cn_nc s = Some (ns_transport (cn_subs s ! n))"

definition calm :: "conn_event \<Rightarrow> connection \<Rightarrow> bool" where
  "calm ev s = (case ev of
      Connect_Start \<Rightarrow> cn_nc s = None
    | Subscribe _ _ _ _ \<Rightarrow> (case cn_phase s of Idle \<Rightarrow> True | Restoring _ \<Rightarrow> True | _ \<Rightarrow> False)
    | Unsubscribe k \<Rightarrow> cn_mux s \<noteq> Some k
    | Finish k n \<Rightarrow> \<not> served_sub n s
    | _ \<Rightarrow> True)"

inductive calm_run :: "rpc_client_options \<Rightarrow> nat \<Rightarrow> conn_event list \<Rightarrow> connection \<Rightarrow> bool" for options rnd where
  calm_new: "calm_run options rnd [] (new_client options rnd)"
| calm_next: "calm_run options rnd evs s \<Longrightarrow> calm ev s \<Longrightarrow> calm_run options rnd (evs @ [ev]) (conn_step ev s)"

section \<open>The registry that a client promises\<close>

text \<open>
  The abstract client: a counter, the subscriptions that are registered, and the key of the reply
  inbox. Connecting registers the inbox if need be, subscribing and unsubscribing add and remove, a
  disconnect forgets everything, and suspending, resuming and the ends of message tasks change nothing.
\<close>

record registry =
  rg_next :: nat
  rg_subs :: "nat \<Rightarrow> (string \<times> handler \<times> string) option"
  rg_mux :: "nat option"

datatype registry_op = Reg_Add string handler string | Reg_Remove nat | Reg_Inbox string | Reg_Clear | Reg_Skip

fun registry_step :: "registry_op \<Rightarrow> registry \<Rightarrow> registry" where
  "registry_step (Reg_Add pattern handler queue) r =
     r\<lparr>rg_next := Suc (rg_next r), rg_subs := (rg_subs r)(Suc (rg_next r) \<mapsto> (pattern, handler, queue))\<rparr>"
| "registry_step (Reg_Remove k) r = r\<lparr>rg_subs := (rg_subs r)(k := None)\<rparr>"
| "registry_step (Reg_Inbox reply_prefix) r =
     (case rg_mux r of
        Some _ \<Rightarrow> r
      | None \<Rightarrow> r\<lparr>rg_next := Suc (rg_next r), rg_mux := Some (Suc (rg_next r)),
                 rg_subs := (rg_subs r)(Suc (rg_next r) \<mapsto> (mux_pattern reply_prefix, Mux_Handler, []))\<rparr>)"
| "registry_step Reg_Clear r = r\<lparr>rg_subs := Map.empty, rg_mux := None\<rparr>"
| "registry_step Reg_Skip r = r"

text \<open>The abstract operation that an event of the connection stands for.\<close>

definition registry_op_of :: "conn_event \<Rightarrow> connection \<Rightarrow> registry_op" where
  "registry_op_of ev s = (case ev of
      Subscribe pattern handler _ queue \<Rightarrow> if cn_nc s = None then Reg_Skip else Reg_Add pattern (User_Handler handler) queue
    | Unsubscribe k \<Rightarrow> Reg_Remove k
    | Connected _ \<Rightarrow> if cn_phase s = Connecting then Reg_Inbox (cn_reply_prefix s) else Reg_Skip
    | Disconnect_Start \<Rightarrow> if cn_phase s = Idle then Reg_Clear else Reg_Skip
    | _ \<Rightarrow> Reg_Skip)"

fun disconnecting :: "lifecycle \<Rightarrow> bool" where
  "disconnecting (Disconnecting _) = True"
| "disconnecting (Disconnect_Unsub _ _) = True"
| "disconnecting Disconnect_Closing = True"
| "disconnecting _ = False"

definition registered :: "connection \<Rightarrow> nat \<Rightarrow> (string \<times> handler \<times> string) option" where
  "registered s k = (if k \<in> set (cn_entries s)
     then map_option (\<lambda>e. (se_pattern e, se_handler e, se_queue e)) (cn_store s k) else None)"

definition registry_of :: "connection \<Rightarrow> registry" where
  "registry_of s =
     (if disconnecting (cn_phase s) then \<lparr>rg_next = cn_seq s, rg_subs = Map.empty, rg_mux = None\<rparr>
      else \<lparr>rg_next = cn_seq s, rg_subs = registered s, rg_mux = cn_mux s\<rparr>)"

text \<open>A registered entry that the server delivers to, on the current connection.\<close>

definition live :: "connection \<Rightarrow> nat \<Rightarrow> bool" where
  "live s k = (case (cn_store s k, cn_nc s) of
      (Some e, Some t) \<Rightarrow>
        (case se_sub e of
           Some n \<Rightarrow> n < length (cn_subs s) \<and>
             cn_subs s ! n = \<lparr>ns_pattern = se_pattern e, ns_queue = se_queue e, ns_transport = t, ns_active = True, ns_closed = False\<rparr>
         | None \<Rightarrow> False)
    | _ \<Rightarrow> False)"

section \<open>Invariant\<close>

definition store_ok :: "connection \<Rightarrow> bool" where
  "store_ok s \<longleftrightarrow> distinct (cn_entries s) \<and> (\<forall>k \<in> set (cn_entries s). cn_store s k \<noteq> None) \<and>
     (\<forall>k. cn_store s k \<noteq> None \<longrightarrow> k \<le> cn_seq s) \<and>
     (\<forall>k n. entry_sub k s = Some n \<longrightarrow> n < length (cn_subs s)) \<and>
     (\<forall>k k' n. entry_sub k s = Some n \<longrightarrow> entry_sub k' s = Some n \<longrightarrow> k = k')"

definition idle_or_live :: "connection \<Rightarrow> nat \<Rightarrow> bool" where
  "idle_or_live s k \<longleftrightarrow> entry_sub k s = None \<or> live s k"

fun sub_ok :: "lifecycle \<Rightarrow> connection \<Rightarrow> nat \<Rightarrow> bool" where
  "sub_ok Idle s k \<longleftrightarrow> (if cn_nc s = None then entry_sub k s = None else live s k)"
| "sub_ok Connecting s k \<longleftrightarrow> entry_sub k s = None"
| "sub_ok (Restoring ks) s k \<longleftrightarrow> (if k \<in> set ks then idle_or_live s k else live s k)"
| "sub_ok (Suspending ks) s k \<longleftrightarrow> (if k \<in> set ks then idle_or_live s k else entry_sub k s = None)"
| "sub_ok (Suspend_Unsub j ks) s k \<longleftrightarrow> k = j \<or> (if k \<in> set ks then idle_or_live s k else entry_sub k s = None)"
| "sub_ok Suspend_Closing s k \<longleftrightarrow> entry_sub k s = None"
| "sub_ok _ s k \<longleftrightarrow> True"

fun suspending :: "lifecycle \<Rightarrow> bool" where
  "suspending (Suspending _) = True"
| "suspending (Suspend_Unsub _ _) = True"
| "suspending Suspend_Closing = True"
| "suspending _ = False"

definition phase_ok :: "connection \<Rightarrow> bool" where
  "phase_ok s \<longleftrightarrow> cn_suspending s = suspending (cn_phase s) \<and> (\<forall>k \<in> set (cn_entries s). sub_ok (cn_phase s) s k) \<and>
     (cn_phase s = Connecting \<longrightarrow> cn_nc s = None) \<and> (\<forall>ks. cn_phase s = Restoring ks \<longrightarrow> cn_nc s \<noteq> None)"

definition mux_ok :: "connection \<Rightarrow> bool" where
  "mux_ok s \<longleftrightarrow> (cn_phase s = Disconnect_Closing \<longrightarrow> cn_entries s = [] \<and> cn_mux s = None) \<and>
    (disconnecting (cn_phase s) \<or>
     (case cn_mux s of
        Some k \<Rightarrow> registered s k = Some (mux_pattern (cn_reply_prefix s), Mux_Handler, [])
      | None \<Rightarrow> cn_nc s = None \<or> suspending (cn_phase s)))"

lemma mux_ok_keeps:
  assumes "mux_ok s" "registered s' = registered s" "cn_mux s' = cn_mux s" "cn_reply_prefix s' = cn_reply_prefix s"
    and "cn_entries s' = cn_entries s" "disconnecting (cn_phase s) \<Longrightarrow> disconnecting (cn_phase s')"
    and "cn_nc s = None \<or> suspending (cn_phase s) \<Longrightarrow> cn_nc s' = None \<or> suspending (cn_phase s')"
    and "cn_phase s' = Disconnect_Closing \<Longrightarrow> cn_phase s = Disconnect_Closing"
  shows "mux_ok s'"
  using assms by (auto simp: mux_ok_def split: option.splits)

section \<open>The pieces\<close>

lemma entry_sub_simps [simp]:
  "entry_sub k (set_sub j v s) = (if k = j \<and> cn_store s k \<noteq> None then v else entry_sub k s)"
  "entry_sub k (sub_unsubscribe n s) = entry_sub k s"
  by (auto simp: entry_sub_def set_sub_def sub_unsubscribe_def split: option.splits)

lemma entry_sub_cong: "cn_store s' = cn_store s \<Longrightarrow> entry_sub k s' = entry_sub k s"
  by (simp add: entry_sub_def)

lemma live_iff:
  "live s k \<longleftrightarrow> (\<exists>e t n. cn_store s k = Some e \<and> cn_nc s = Some t \<and> se_sub e = Some n \<and> n < length (cn_subs s) \<and>
     cn_subs s ! n = \<lparr>ns_pattern = se_pattern e, ns_queue = se_queue e, ns_transport = t, ns_active = True, ns_closed = False\<rparr>)"
  by (auto simp: live_def split: option.splits)

lemma live_cong: "cn_store s' k = cn_store s k \<Longrightarrow> cn_nc s' = cn_nc s \<Longrightarrow> cn_subs s' = cn_subs s \<Longrightarrow> live s' k = live s k"
  by (simp add: live_iff)

lemma live_fields [simp]:
  "live (s\<lparr>cn_phase := p\<rparr>) k = live s k"
  "live (s\<lparr>cn_entries := ks\<rparr>) k = live s k"
  "live (s\<lparr>cn_mux := m\<rparr>) k = live s k"
  "live (s\<lparr>cn_suspending := b\<rparr>) k = live s k"
  by (rule live_cong; simp)+

lemma entry_sub_fields [simp]:
  "entry_sub k (s\<lparr>cn_phase := p\<rparr>) = entry_sub k s"
  "entry_sub k (s\<lparr>cn_entries := ks\<rparr>) = entry_sub k s"
  "entry_sub k (s\<lparr>cn_mux := m\<rparr>) = entry_sub k s"
  "entry_sub k (s\<lparr>cn_suspending := b\<rparr>) = entry_sub k s"
  "entry_sub k (s\<lparr>cn_nc := nc\<rparr>) = entry_sub k s"
  by (rule entry_sub_cong; simp)+

lemma live_served: "live s k \<Longrightarrow> entry_sub k s = Some n \<Longrightarrow> served_sub n s"
  by (auto simp: live_iff entry_sub_def served_sub_def)

lemma live_set_sub: "k \<noteq> j \<Longrightarrow> live (set_sub j v s) k = live s k"
  by (rule live_cong) (simp_all add: set_sub_def)

lemma live_unsub: "live s k \<Longrightarrow> entry_sub k s \<noteq> Some n \<Longrightarrow> live (sub_unsubscribe n s) k"
  by (auto simp: live_iff entry_sub_def sub_unsubscribe_def)

lemma live_append: "live s k \<Longrightarrow> live (s\<lparr>cn_subs := cn_subs s @ xs\<rparr>) k"
  by (auto simp: live_iff nth_append)

lemma set_sub_fields [simp]:
  "cn_nc (set_sub k v s) = cn_nc s" "cn_entries (set_sub k v s) = cn_entries s" "cn_subs (set_sub k v s) = cn_subs s"
  "cn_seq (set_sub k v s) = cn_seq s" "cn_phase (set_sub k v s) = cn_phase s" "cn_mux (set_sub k v s) = cn_mux s"
  "cn_suspending (set_sub k v s) = cn_suspending s" "cn_reply_prefix (set_sub k v s) = cn_reply_prefix s"
  "cn_store (set_sub k v s) j = None \<longleftrightarrow> cn_store s j = None"
  by (simp_all add: set_sub_def)

lemma sub_unsubscribe_fields [simp]:
  "cn_nc (sub_unsubscribe n s) = cn_nc s" "cn_entries (sub_unsubscribe n s) = cn_entries s"
  "length (cn_subs (sub_unsubscribe n s)) = length (cn_subs s)" "cn_seq (sub_unsubscribe n s) = cn_seq s"
  "cn_phase (sub_unsubscribe n s) = cn_phase s" "cn_mux (sub_unsubscribe n s) = cn_mux s"
  "cn_suspending (sub_unsubscribe n s) = cn_suspending s" "cn_reply_prefix (sub_unsubscribe n s) = cn_reply_prefix s"
  "cn_store (sub_unsubscribe n s) = cn_store s"
  by (simp_all add: sub_unsubscribe_def)

lemma registered_set_sub [simp]: "registered (set_sub j v s) = registered s"
  by (rule ext) (simp add: registered_def set_sub_def option.map_comp comp_def)

lemma registered_unsub [simp]: "registered (sub_unsubscribe n s) = registered s"
  by (rule ext) (simp add: registered_def)

lemma registered_cong: "cn_store s' = cn_store s \<Longrightarrow> cn_entries s' = cn_entries s \<Longrightarrow> registered s' = registered s"
  by (rule ext) (simp add: registered_def)

lemma store_ok_set_sub: "store_ok s \<Longrightarrow> store_ok (set_sub k None s)"
  by (auto simp: store_ok_def split: if_splits)

lemma store_ok_unsub: "store_ok s \<Longrightarrow> store_ok (sub_unsubscribe n s)"
  by (simp add: store_ok_def)

lemma store_ok_cong:
  "cn_store s' = cn_store s \<Longrightarrow> cn_entries s' = cn_entries s \<Longrightarrow> cn_subs s' = cn_subs s \<Longrightarrow> cn_seq s' = cn_seq s
    \<Longrightarrow> store_ok s \<Longrightarrow> store_ok s'"
  by (simp add: store_ok_def entry_sub_def)

lemma store_ok_fewer: "store_ok s \<Longrightarrow> store_ok (s\<lparr>cn_entries := removeAll k (cn_entries s)\<rparr>)"
  by (auto simp: store_ok_def distinct_removeAll)

text \<open>Subscribing an entry on the current connection.\<close>

lemma nats_subscribe_Some:
  assumes "cn_nc s = Some t" "cn_store s k = Some e"
  shows "nats_subscribe (\<lambda>_. None) k s = (set_sub k (Some (length (cn_subs s)))
     (s\<lparr>cn_subs := cn_subs s @ [\<lparr>ns_pattern = se_pattern e, ns_queue = se_queue e, ns_transport = t,
        ns_active = True, ns_closed = False\<rparr>]\<rparr>), None)"
  using assms by (simp add: nats_subscribe_def)

lemma nats_subscribe_ok:
  assumes "cn_nc s \<noteq> None" "cn_store s k \<noteq> None" "store_ok s"
  shows "snd (nats_subscribe (\<lambda>_. None) k s) = None" "store_ok (fst (nats_subscribe (\<lambda>_. None) k s))"
    "live (fst (nats_subscribe (\<lambda>_. None) k s)) k"
    "j \<noteq> k \<Longrightarrow> entry_sub j (fst (nats_subscribe (\<lambda>_. None) k s)) = entry_sub j s"
    "j \<noteq> k \<Longrightarrow> live s j \<Longrightarrow> live (fst (nats_subscribe (\<lambda>_. None) k s)) j"
    "registered (fst (nats_subscribe (\<lambda>_. None) k s)) = registered s"
proof -
  obtain t e where te: "cn_nc s = Some t" "cn_store s k = Some e" using assms by blast
  let ?s = "s\<lparr>cn_subs := cn_subs s @ [\<lparr>ns_pattern = se_pattern e, ns_queue = se_queue e, ns_transport = t,
        ns_active = True, ns_closed = False\<rparr>]\<rparr>"
  have r: "nats_subscribe (\<lambda>_. None) k s = (set_sub k (Some (length (cn_subs s))) ?s, None)"
    using nats_subscribe_Some [OF te] .
  have es: "entry_sub j ?s = entry_sub j s" for j by (simp add: entry_sub_def)
  show "snd (nats_subscribe (\<lambda>_. None) k s) = None" by (simp add: r)
  show "store_ok (fst (nats_subscribe (\<lambda>_. None) k s))"
    using assms(3) unfolding r fst_conv store_ok_def
    by (auto simp: es less_SucI split: if_splits)
  show "live (fst (nats_subscribe (\<lambda>_. None) k s)) k" by (simp add: r live_def set_sub_def te)
  show "j \<noteq> k \<Longrightarrow> entry_sub j (fst (nats_subscribe (\<lambda>_. None) k s)) = entry_sub j s" by (simp add: r es)
  show "j \<noteq> k \<Longrightarrow> live s j \<Longrightarrow> live (fst (nats_subscribe (\<lambda>_. None) k s)) j"
    by (simp add: r live_set_sub live_append)
  show "registered (fst (nats_subscribe (\<lambda>_. None) k s)) = registered s" by (simp add: r) (rule ext, simp add: registered_def)
qed

lemma sub_ok_frame:
  assumes "sub_ok p s k" "entry_sub k s' = entry_sub k s" "live s k \<Longrightarrow> live s' k" "cn_nc s' = cn_nc s"
  shows "sub_ok p s' k"
  using assms by (cases p) (auto simp: idle_or_live_def split: if_splits)

lemma phase_ok_frame:
  assumes "phase_ok s" "cn_phase s' = cn_phase s" "cn_nc s' = cn_nc s" "cn_suspending s' = cn_suspending s"
    and "\<And>k. k \<in> set (cn_entries s') \<Longrightarrow> sub_ok (cn_phase s) s k \<Longrightarrow> k \<in> set (cn_entries s) \<Longrightarrow> sub_ok (cn_phase s) s' k"
    and "\<And>k. k \<in> set (cn_entries s') \<Longrightarrow> k \<notin> set (cn_entries s) \<Longrightarrow> sub_ok (cn_phase s) s' k"
  shows "phase_ok s'"
  using assms unfolding phase_ok_def by metis

lemma new_entry_fields [simp]:
  "cn_nc (new_entry p h a q r s) = cn_nc s" "cn_subs (new_entry p h a q r s) = cn_subs s"
  "cn_phase (new_entry p h a q r s) = cn_phase s" "cn_mux (new_entry p h a q r s) = cn_mux s"
  "cn_suspending (new_entry p h a q r s) = cn_suspending s" "cn_reply_prefix (new_entry p h a q r s) = cn_reply_prefix s"
  "cn_seq (new_entry p h a q r s) = Suc (cn_seq s)" "cn_entries (new_entry p h a q r s) = cn_entries s @ [Suc (cn_seq s)]"
  by (simp_all add: new_entry_def Let_def)

lemma new_key_fresh:
  assumes "store_ok s"
  shows "cn_store s (Suc (cn_seq s)) = None" "Suc (cn_seq s) \<notin> set (cn_entries s)"
  using assms unfolding store_ok_def by (metis not_less_eq_eq order_refl)+

lemma new_entry_ok:
  assumes "store_ok s"
  shows "store_ok (new_entry p h a q r s)" "entry_sub k (new_entry p h a q r s) = entry_sub k s"
    "k \<noteq> Suc (cn_seq s) \<Longrightarrow> live (new_entry p h a q r s) k = live s k"
    "registered (new_entry p h a q r s) = (registered s)(Suc (cn_seq s) \<mapsto> (p, h, q))"
    "cn_store (new_entry p h a q r s) (Suc (cn_seq s)) \<noteq> None"
proof -
  note fresh = new_key_fresh(1) [OF assms] and new = new_key_fresh(2) [OF assms]
  show es: "entry_sub k (new_entry p h a q r s) = entry_sub k s" for k
    using fresh by (simp add: entry_sub_def new_entry_def)
  show "store_ok (new_entry p h a q r s)"
    using assms new unfolding store_ok_def es by (auto simp: new_entry_def le_SucI)
  show "k \<noteq> Suc (cn_seq s) \<Longrightarrow> live (new_entry p h a q r s) k = live s k"
    by (rule live_cong) (simp_all add: new_entry_def)
  show "registered (new_entry p h a q r s) = (registered s)(Suc (cn_seq s) \<mapsto> (p, h, q))"
    by (rule ext) (simp add: registered_def new_entry_def)
  show "cn_store (new_entry p h a q r s) (Suc (cn_seq s)) \<noteq> None" by (simp add: new_entry_def)
qed

section \<open>Every operation keeps it and refines the registry\<close>

definition conn_inv :: "connection \<Rightarrow> bool" where
  "conn_inv s \<longleftrightarrow> store_ok s \<and> phase_ok s \<and> mux_ok s"

lemma nats_subscribe_fields [simp]:
  "cn_phase (fst (nats_subscribe r k s)) = cn_phase s" "cn_nc (fst (nats_subscribe r k s)) = cn_nc s"
  "cn_suspending (fst (nats_subscribe r k s)) = cn_suspending s" "cn_entries (fst (nats_subscribe r k s)) = cn_entries s"
  "cn_mux (fst (nats_subscribe r k s)) = cn_mux s" "cn_reply_prefix (fst (nats_subscribe r k s)) = cn_reply_prefix s"
  "cn_seq (fst (nats_subscribe r k s)) = cn_seq s"
  by (auto simp: nats_subscribe_def split: option.split)

lemma subscribe_ok:
  assumes "conn_inv s" "calm (Subscribe p h a q) s"
  shows "conn_inv (conn_step (Subscribe p h a q) s) \<and>
    registry_of (conn_step (Subscribe p h a q) s) = registry_step (registry_op_of (Subscribe p h a q) s) (registry_of s)"
proof (cases "cn_nc s = None")
  case True
  then show ?thesis using assms(1) by (simp add: subscribe_def registry_op_of_def)
next
  case False
  let ?s = "new_entry p (User_Handler h) a q False s" and ?k = "Suc (cn_seq s)"
  let ?t = "fst (nats_subscribe (\<lambda>_. None) ?k ?s)"
  have ok: "store_ok s" "phase_ok s" "mux_ok s" using assms(1) by (simp_all add: conn_inv_def)
  note e = new_entry_ok [OF ok(1), where p = p and h = "User_Handler h" and a = a and q = q and r = False]
  have nc: "cn_nc ?s \<noteq> None" using False by simp
  note n = nats_subscribe_ok [OF nc e(5) e(1)]
  have step: "conn_step (Subscribe p h a q) s = ?t"
    using False n(1) by (cases "nats_subscribe (\<lambda>_. None) ?k ?s") (auto simp: subscribe_def Let_def)
  have reg: "registered ?t = (registered s)(?k \<mapsto> (p, User_Handler h, q))" using n(6) e(4) by simp
  have idle: "\<not> disconnecting (cn_phase s)" using assms(2) by (auto simp: calm_def split: lifecycle.splits)
  have "phase_ok ?t"
  proof (rule phase_ok_frame [OF ok(2)])
    fix k assume "k \<in> set (cn_entries ?t)" "sub_ok (cn_phase s) s k" "k \<in> set (cn_entries s)"
    moreover from this have "k \<noteq> ?k" using new_key_fresh(2) [OF ok(1)] by blast
    ultimately show "sub_ok (cn_phase s) ?t k"
      using n(4,5) [OF \<open>k \<noteq> ?k\<close>] e(2) e(3) [OF \<open>k \<noteq> ?k\<close>] by (intro sub_ok_frame [where s = s and s' = ?t]) simp_all
  next
    fix k assume "k \<in> set (cn_entries ?t)" "k \<notin> set (cn_entries s)"
    then have "live ?t k" using n(3) by auto
    then show "sub_ok (cn_phase s) ?t k"
      using assms(2) False by (auto simp: calm_def idle_or_live_def split: lifecycle.splits)
  qed auto
  moreover have "mux_ok ?t"
    using ok(3) idle new_key_fresh(2) [OF ok(1)] by (auto simp: mux_ok_def reg registered_def split: option.splits)
  ultimately show ?thesis
    using n(2) step reg False idle by (simp add: conn_inv_def registry_of_def registry_op_of_def)
qed

lemma entry_unsubscribe_ok:
  assumes "conn_inv s" "calm (Unsubscribe k) s"
  shows "conn_inv (conn_step (Unsubscribe k) s) \<and>
    registry_of (conn_step (Unsubscribe k) s) = registry_step (registry_op_of (Unsubscribe k) s) (registry_of s)"
proof -
  let ?s = "set_sub k None (s\<lparr>cn_entries := removeAll k (cn_entries s)\<rparr>)"
  let ?t = "case entry_sub k s of None \<Rightarrow> ?s | Some n \<Rightarrow> sub_unsubscribe n ?s"
  have step: "conn_step (Unsubscribe k) s = ?t" by (simp add: unsubscribe_def Let_def)
  have ok: "store_ok s" "phase_ok s" "mux_ok s" using assms(1) by (simp_all add: conn_inv_def)
  have f: "cn_phase ?t = cn_phase s" "cn_nc ?t = cn_nc s" "cn_suspending ?t = cn_suspending s" "cn_mux ?t = cn_mux s"
    "cn_entries ?t = removeAll k (cn_entries s)" "cn_reply_prefix ?t = cn_reply_prefix s" "cn_seq ?t = cn_seq s"
    by (simp_all split: option.split)
  have reg: "registered ?t = (registered s)(k := None)"
    by (rule ext) (auto simp: registered_def set_sub_def split: option.split)
  have "store_ok ?t"
    using ok(1) by (auto intro!: store_ok_unsub store_ok_set_sub store_ok_fewer split: option.split)
  moreover have "phase_ok ?t"
  proof (rule phase_ok_frame [OF ok(2) f(1-3)])
    fix j assume j: "j \<in> set (cn_entries ?t)" "sub_ok (cn_phase s) s j"
    then have "j \<noteq> k" using f(5) by auto
    moreover have "live ?t j" if "live s j"
    proof (cases "entry_sub k s")
      case (Some n)
      then have "entry_sub j s \<noteq> Some n" using ok(1) \<open>j \<noteq> k\<close> unfolding store_ok_def by metis
      then show ?thesis using that \<open>j \<noteq> k\<close> Some by (auto simp: live_set_sub intro!: live_unsub)
    qed (use that \<open>j \<noteq> k\<close> in \<open>simp add: live_set_sub\<close>)
    ultimately show "sub_ok (cn_phase s) ?t j"
      by (intro sub_ok_frame [OF j(2)]) (auto split: option.split)
  qed (use f(5) in auto)
  moreover have "mux_ok ?t" using ok(3) assms(2) by (auto simp: mux_ok_def f reg calm_def split: option.splits)
  ultimately show ?thesis
    unfolding step by (simp add: conn_inv_def registry_of_def registry_op_of_def f reg fun_upd_idem)
qed

lemma finish_ok:
  assumes "conn_inv s" "calm (Finish k n) s"
  shows "conn_inv (conn_step (Finish k n) s) \<and> registry_of (conn_step (Finish k n) s) = registry_of s"
proof (cases "cn_suspending s \<or> entry_sub k s \<noteq> Some n")
  case True
  then show ?thesis using assms by (simp add: on_finish_def)
next
  case False
  let ?t = "on_finish k n s"
  have ok: "store_ok s" "phase_ok s" "mux_ok s" using assms(1) by (simp_all add: conn_inv_def)
  have n: "entry_sub k s = Some n" "\<not> served_sub n s" "\<not> cn_suspending s" using False assms(2) by (auto simp: calm_def)
  have step: "?t = sub_unsubscribe n ((set_sub k None s)\<lparr>cn_entries := removeAll k (cn_entries s),
             cn_mux := (if cn_mux s = Some k then None else cn_mux s)\<rparr>)"
    using False by (simp add: on_finish_def)
  have "\<not> live s k" using n live_served by blast
  have st: "store_ok ?t"
    unfolding step using store_ok_fewer [OF store_ok_set_sub [OF ok(1)], of k k]
    by (intro store_ok_unsub) (auto elim!: store_ok_cong [rotated -1])
  have "conn_inv ?t \<and> registry_of ?t = registry_of s"
  proof (cases "disconnecting (cn_phase s)")
    case True
    then have "phase_ok ?t" using ok(2) by (cases "cn_phase s") (auto simp: phase_ok_def step)
    moreover have "cn_entries s = [] \<and> cn_mux s = None" if "cn_phase s = Disconnect_Closing"
      using ok(3) that by (simp add: mux_ok_def)
    ultimately show ?thesis using True st by (auto simp: conn_inv_def mux_ok_def registry_of_def step)
  next
    case dis: False
    have "k \<notin> set (cn_entries s)"
    proof
      assume "k \<in> set (cn_entries s)"
      then have "sub_ok (cn_phase s) s k" "cn_suspending s = suspending (cn_phase s)" using ok(2) by (auto simp: phase_ok_def)
      then show False using n dis \<open>\<not> live s k\<close> by (cases "cn_phase s") (auto simp: idle_or_live_def split: if_splits)
    qed
    then have f: "cn_entries ?t = cn_entries s" "cn_mux ?t = cn_mux s"
      using ok(3) dis by (auto simp: step mux_ok_def registered_def removeAll_id split: option.splits if_splits)
    have reg: "registered ?t = registered s"
      using f(1) by (intro ext) (auto simp: step registered_def set_sub_def option.map_comp comp_def)
    have "phase_ok ?t"
    proof (rule phase_ok_frame [OF ok(2)])
      fix j assume j: "j \<in> set (cn_entries ?t)" "sub_ok (cn_phase s) s j" "j \<in> set (cn_entries s)"
      then have "j \<noteq> k" using \<open>k \<notin> set (cn_entries s)\<close> by blast
      moreover have "entry_sub j s \<noteq> Some n" using n(1) ok(1) \<open>j \<noteq> k\<close> unfolding store_ok_def by metis
      ultimately show "sub_ok (cn_phase s) ?t j"
        by (intro sub_ok_frame [OF j(2)]) (auto simp: step live_set_sub intro!: live_unsub)
    qed (simp_all add: step f(1) [unfolded step])
    moreover have g: "cn_phase ?t = cn_phase s" "cn_nc ?t = cn_nc s" "cn_reply_prefix ?t = cn_reply_prefix s"
      "cn_seq ?t = cn_seq s" by (simp_all add: step)
    moreover have "mux_ok ?t" using ok(3) unfolding mux_ok_def g f reg .
    ultimately show ?thesis using st by (simp add: conn_inv_def registry_of_def f reg)
  qed
  then show ?thesis by simp
qed

text \<open>Steps that only move the phase or end sessions.\<close>

lemma same_registry:
  assumes "cn_store s' = cn_store s" "cn_entries s' = cn_entries s" "cn_mux s' = cn_mux s" "cn_seq s' = cn_seq s"
    and "disconnecting (cn_phase s') = disconnecting (cn_phase s)"
  shows "registry_of s' = registry_of s"
  using assms registered_cong [of s' s] by (simp add: registry_of_def)

lemma teardown_fields [simp]:
  "cn_store (teardown_sessions s) = cn_store s" "cn_entries (teardown_sessions s) = cn_entries s"
  "cn_mux (teardown_sessions s) = cn_mux s" "cn_seq (teardown_sessions s) = cn_seq s" "cn_nc (teardown_sessions s) = cn_nc s"
  "cn_subs (teardown_sessions s) = cn_subs s" "cn_phase (teardown_sessions s) = cn_phase s"
  "cn_suspending (teardown_sessions s) = cn_suspending s" "cn_reply_prefix (teardown_sessions s) = cn_reply_prefix s"
  by (simp_all add: teardown_sessions_def settle_pull_iterators_def Let_def)

lemma closing_fields [simp]:
  "cn_store (disconnect_isolated (new_chunking s)) = cn_store s" "cn_entries (disconnect_isolated (new_chunking s)) = cn_entries s"
  "cn_mux (disconnect_isolated (new_chunking s)) = cn_mux s" "cn_seq (disconnect_isolated (new_chunking s)) = cn_seq s"
  "cn_nc (disconnect_isolated (new_chunking s)) = cn_nc s" "cn_subs (disconnect_isolated (new_chunking s)) = cn_subs s"
  "cn_suspending (disconnect_isolated (new_chunking s)) = cn_suspending s"
  "cn_reply_prefix (disconnect_isolated (new_chunking s)) = cn_reply_prefix s"
  by (simp_all add: disconnect_isolated_def new_chunking_def)

text \<open>A step that leaves entries, subscriptions and connection alone keeps the invariant if the phases agree.\<close>

lemma conn_inv_phase:
  assumes "conn_inv s" "cn_store s' = cn_store s" "cn_entries s' = cn_entries s" "cn_mux s' = cn_mux s" "cn_seq s' = cn_seq s"
    "cn_subs s' = cn_subs s" "cn_nc s' = cn_nc s" "cn_reply_prefix s' = cn_reply_prefix s"
    and susp: "cn_suspending s' = suspending (cn_phase s')"
    and phases: "\<And>k. k \<in> set (cn_entries s) \<Longrightarrow> sub_ok (cn_phase s) s k \<Longrightarrow> sub_ok (cn_phase s') s k"
    and conn: "cn_phase s' = Connecting \<Longrightarrow> cn_nc s = None" "\<And>ks. cn_phase s' = Restoring ks \<Longrightarrow> cn_nc s \<noteq> None"
    and dis: "disconnecting (cn_phase s) \<Longrightarrow> disconnecting (cn_phase s')"
    and "suspending (cn_phase s) \<Longrightarrow> suspending (cn_phase s')" "cn_phase s' = Disconnect_Closing \<Longrightarrow> cn_phase s = Disconnect_Closing"
  shows "conn_inv s'"
proof -
  have live: "live s' k = live s k" for k using assms by (intro live_cong) auto
  have es: "entry_sub k s' = entry_sub k s" for k using assms by (intro entry_sub_cong) auto
  have "sub_ok (cn_phase s') s' k" if "k \<in> set (cn_entries s)" for k
    using assms that by (intro sub_ok_frame [OF phases [OF that]]) (auto simp: live es conn_inv_def phase_ok_def)
  then have "phase_ok s'" using assms by (auto simp: phase_ok_def)
  moreover have "mux_ok s'"
    using assms registered_cong [of s' s] by (intro mux_ok_keeps [of s s']) (auto simp: conn_inv_def)
  ultimately show ?thesis using assms(1) store_ok_cong [of s' s] assms by (simp add: conn_inv_def)
qed

lemma connect_ok:
  assumes "conn_inv s" "calm ev s" "ev \<in> {Connect_Start, Connect_Failed, Suspend_Start, Disconnect_Start}"
  shows "conn_inv (conn_step ev s)"
proof -
  have "cn_suspending s = suspending (cn_phase s)" using assms(1) by (simp add: conn_inv_def phase_ok_def)
  then consider "conn_step ev s = s" | "cn_phase s = Idle" "ev = Connect_Start" | "cn_phase s = Connecting" "ev = Connect_Failed"
    | "cn_phase s = Idle" "ev = Suspend_Start" | "cn_phase s = Idle" "ev = Disconnect_Start"
    using assms(3) by fastforce
  then show ?thesis
  proof cases
    case 1
    then show ?thesis using assms(1) by simp
  next
    case 2
    then show ?thesis using assms(1,2) \<open>cn_suspending s = _\<close>
      by (intro conn_inv_phase [OF assms(1)]) (auto simp: calm_def)
  next
    case 3
    then have "cn_nc s = None" using assms(1) by (simp add: conn_inv_def phase_ok_def)
    then show ?thesis using 3 assms(1) \<open>cn_suspending s = _\<close> by (intro conn_inv_phase [OF assms(1)]) auto
  next
    case 4
    then show ?thesis
      by (intro conn_inv_phase [OF assms(1)]) (auto simp: suspend_begin_def Let_def idle_or_live_def split: if_splits)
  next
    case 5
    then show ?thesis using \<open>cn_suspending s = _\<close>
      by (intro conn_inv_phase [OF assms(1)]) (auto simp: disconnect_begin_def Let_def)
  qed
qed

lemma on_connected_ok:
  assumes "conn_inv s" "cn_phase s = Connecting"
  shows "conn_inv (on_connected mp s) \<and>
    registry_of (on_connected mp s) = registry_step (Reg_Inbox (cn_reply_prefix s)) (registry_of s)"
proof -
  let ?t = "cn_transports s"
  let ?s = "s\<lparr>cn_nc := Some ?t, cn_transports := Suc ?t, cn_closed := False, cn_service := Some ?t,
                cn_max_payload_size := mp - 8192\<rparr>"
  let ?u = "register_mux_entry ?s"
  have ok: "store_ok s" "phase_ok s" "mux_ok s" using assms(1) by (simp_all add: conn_inv_def)
  have st: "store_ok ?s" by (rule store_ok_cong [OF _ _ _ _ ok(1)]) simp_all
  have reg: "registered ?s = registered s" by (rule registered_cong) simp_all
  have u: "on_connected mp s = ?u\<lparr>cn_phase := Restoring (cn_entries ?u)\<rparr>" by (simp add: on_connected_def Let_def)
  have nc: "cn_nc ?u = Some ?t" "cn_suspending ?u = cn_suspending s" "cn_reply_prefix ?u = cn_reply_prefix s"
    by (simp_all add: register_mux_entry_def Let_def split: option.split)
  have es0: "entry_sub k ?s = entry_sub k s" for k by (rule entry_sub_cong) simp
  have es: "entry_sub k ?u = entry_sub k s" for k
    using new_entry_ok(2) [OF st] by (simp add: register_mux_entry_def Let_def es0 split: option.split)
  have "\<forall>k \<in> set (cn_entries s). entry_sub k s = None" using ok(2) assms(2) by (simp add: phase_ok_def)
  moreover have "entry_sub (Suc (cn_seq s)) s = None" using new_key_fresh(1) [OF ok(1)] by (simp add: entry_sub_def)
  moreover have "set (cn_entries ?u) \<subseteq> insert (Suc (cn_seq s)) (set (cn_entries s))"
    by (auto simp: register_mux_entry_def Let_def split: option.split)
  ultimately have none: "\<forall>k \<in> set (cn_entries ?u). entry_sub k ?u = None" by (auto simp: es)
  have stu: "store_ok ?u"
    using st new_entry_ok(1) [OF st] by (auto simp: register_mux_entry_def Let_def split: option.split intro: store_ok_cong)
  have mux: "mux_ok (?u\<lparr>cn_phase := Restoring (cn_entries ?u)\<rparr>) \<and>
      registry_of (?u\<lparr>cn_phase := Restoring (cn_entries ?u)\<rparr>) = registry_step (Reg_Inbox (cn_reply_prefix s)) (registry_of s)"
  proof (cases "cn_mux s")
    case (Some k)
    then have "?u = ?s" by (simp add: register_mux_entry_def)
    moreover have "registered (?s\<lparr>cn_phase := p\<rparr>) = registered s" for p by (rule registered_cong) simp_all
    ultimately show ?thesis using Some ok(3) assms(2) by (simp add: mux_ok_def registry_of_def)
  next
    case None
    let ?v = "(new_entry (mux_pattern (cn_reply_prefix s)) Mux_Handler False [] True ?s)"
    have uv: "?u = ?v\<lparr>cn_mux := Some (Suc (cn_seq s))\<rparr>" using None by (simp add: register_mux_entry_def Let_def)
    have "registered (?u\<lparr>cn_phase := p\<rparr>) = (registered s)(Suc (cn_seq s) \<mapsto> (mux_pattern (cn_reply_prefix s), Mux_Handler, []))" for p
      using new_entry_ok(4) [OF st] reg registered_cong [of "?u\<lparr>cn_phase := p\<rparr>" ?v] by (simp add: uv)
    then show ?thesis using None assms(2) by (simp add: mux_ok_def registry_of_def uv)
  qed
  have "phase_ok (?u\<lparr>cn_phase := Restoring (cn_entries ?u)\<rparr>)"
    using ok(2) assms(2) nc none by (auto simp: phase_ok_def idle_or_live_def)
  then show ?thesis using mux stu unfolding u by (auto simp: conn_inv_def elim: store_ok_cong [rotated -1])
qed

lemma restore_ok:
  assumes "conn_inv s"
  shows "conn_inv (conn_step Restore_Next s) \<and> registry_of (conn_step Restore_Next s) = registry_of s"
proof (cases "\<exists>ks. cn_phase s = Restoring ks")
  case True
  then obtain ks where ph: "cn_phase s = Restoring ks" by blast
  have ok: "store_ok s" "phase_ok s" "mux_ok s" using assms by (simp_all add: conn_inv_def)
  have nc: "cn_nc s \<noteq> None" and su: "\<not> cn_suspending s" using ok(2) ph by (auto simp: phase_ok_def)
  show ?thesis
  proof (cases ks)
    case Nil
    have "conn_inv (s\<lparr>cn_phase := Idle\<rparr>)" using nc su ph Nil by (intro conn_inv_phase [OF assms]) auto
    moreover have "registry_of (s\<lparr>cn_phase := Idle\<rparr>) = registry_of s" using ph by (intro same_registry) auto
    ultimately show ?thesis using ph Nil by (simp add: restore_next_def)
  next
    case (Cons k ks')
    show ?thesis
    proof (cases "sub_missing k s \<and> cn_store s k \<noteq> None")
      case False
      have "live s k" if "k \<in> set (cn_entries s)"
      proof -
        have "cn_store s k \<noteq> None" using that ok(1) by (auto simp: store_ok_def)
        then have "\<not> sub_missing k s" using False by blast
        moreover have "idle_or_live s k" using that ok(2) ph Cons by (auto simp: phase_ok_def)
        ultimately show ?thesis by (auto simp: idle_or_live_def sub_missing_def)
      qed
      then have "conn_inv (s\<lparr>cn_phase := Restoring ks'\<rparr>)"
        using nc su ph Cons by (intro conn_inv_phase [OF assms]) (auto split: if_splits)
      moreover have "registry_of (s\<lparr>cn_phase := Restoring ks'\<rparr>) = registry_of s" using ph by (intro same_registry) auto
      moreover have "conn_step Restore_Next s = s\<lparr>cn_phase := Restoring ks'\<rparr>"
        using False ph Cons nc by (auto simp: restore_next_def nats_subscribe_def)
      ultimately show ?thesis by simp
    next
      case sub: True
      note n = nats_subscribe_ok [OF nc conjunct2 [OF sub] ok(1)]
      let ?t = "fst (nats_subscribe (\<lambda>_. None) k s)"
      have step: "conn_step Restore_Next s = ?t\<lparr>cn_phase := Restoring ks'\<rparr>"
        using n(1) sub ph Cons by (cases "nats_subscribe (\<lambda>_. None) k s") (simp add: restore_next_def)
      have reg: "registered (?t\<lparr>cn_phase := p\<rparr>) = registered s" for p
        using n(6) registered_cong [of "?t\<lparr>cn_phase := p\<rparr>" ?t] by simp
      have "sub_ok (Restoring ks') (?t\<lparr>cn_phase := Restoring ks'\<rparr>) j" if "j \<in> set (cn_entries s)" for j
      proof (cases "j = k")
        case True
        then show ?thesis using n(3) by (simp add: idle_or_live_def)
      next
        case False
        have "sub_ok (Restoring ks) s j" using ok(2) ph that by (auto simp: phase_ok_def)
        then show ?thesis using n(4,5) [OF False] False Cons by (auto simp: idle_or_live_def)
      qed
      then have "phase_ok (?t\<lparr>cn_phase := Restoring ks'\<rparr>)" using nc su
        by (auto simp: phase_ok_def simp del: sub_ok.simps)
      moreover have "mux_ok (?t\<lparr>cn_phase := Restoring ks'\<rparr>)"
        by (rule mux_ok_keeps [OF ok(3)]) (simp_all add: reg ph nc)
      moreover have "store_ok (?t\<lparr>cn_phase := Restoring ks'\<rparr>)" by (rule store_ok_cong [OF _ _ _ _ n(2)]) simp_all
      ultimately show ?thesis using ph unfolding step by (simp add: conn_inv_def registry_of_def reg)
    qed
  qed
next
  case False
  then show ?thesis using assms by (auto simp: restore_next_def split: lifecycle.split)
qed

text \<open>The loop of a suspend: unsubscribing one entry, forgetting its subscription, closing.\<close>

lemma suspend_unsub_ok:
  assumes "conn_inv s" "cn_phase s = Suspending (k # ks)" "entry_sub k s = Some n"
  shows "conn_inv ((sub_unsubscribe n s)\<lparr>cn_phase := Suspend_Unsub k ks\<rparr>)"
proof -
  let ?t = "(sub_unsubscribe n s)\<lparr>cn_phase := Suspend_Unsub k ks\<rparr>"
  have ok: "store_ok s" "phase_ok s" "mux_ok s" using assms by (simp_all add: conn_inv_def)
  have "sub_ok (Suspend_Unsub k ks) ?t j" if "j \<in> set (cn_entries s)" for j
  proof (cases "j = k")
    case False
    then have "entry_sub j s \<noteq> Some n" using assms(3) ok(1) unfolding store_ok_def by metis
    moreover have "sub_ok (Suspending (k # ks)) s j" using ok(2) that assms(2) by (auto simp: phase_ok_def)
    ultimately show ?thesis using False by (auto simp: idle_or_live_def intro: live_unsub split: if_splits)
  qed simp
  then have "phase_ok ?t" using ok(2) assms(2) by (simp add: phase_ok_def)
  moreover have "mux_ok ?t"
    using registered_cong [of ?t s] by (intro mux_ok_keeps [OF ok(3)]) (simp_all add: assms(2))
  moreover have "store_ok ?t" by (rule store_ok_cong [OF _ _ _ _ store_ok_unsub [OF ok(1)]]) simp_all
  ultimately show ?thesis by (simp add: conn_inv_def)
qed

lemma suspend_forget_ok:
  assumes "conn_inv s" "cn_phase s = Suspend_Unsub k ks"
  shows "conn_inv ((set_sub k None s)\<lparr>cn_phase := Suspending ks\<rparr>)"
proof -
  let ?t = "(set_sub k None s)\<lparr>cn_phase := Suspending ks\<rparr>"
  have ok: "store_ok s" "phase_ok s" "mux_ok s" using assms by (simp_all add: conn_inv_def)
  have "sub_ok (Suspending ks) ?t j" if "j \<in> set (cn_entries s)" for j
  proof (cases "j = k")
    case True
    then show ?thesis using that ok(1) by (auto simp: store_ok_def idle_or_live_def)
  next
    case False
    moreover have "sub_ok (Suspend_Unsub k ks) s j" using ok(2) that assms(2) by (auto simp: phase_ok_def)
    ultimately show ?thesis by (auto simp: idle_or_live_def live_set_sub)
  qed
  then have "phase_ok ?t" using ok(2) assms(2) by (auto simp: phase_ok_def simp del: sub_ok.simps)
  moreover have "registered ?t = registered s" by (rule ext) (simp add: registered_def set_sub_def option.map_comp comp_def)
  then have "mux_ok ?t" by (intro mux_ok_keeps [OF ok(3)]) (simp_all add: assms(2))
  moreover have "store_ok ?t" by (rule store_ok_cong [OF _ _ _ _ store_ok_set_sub [OF ok(1)]]) simp_all
  ultimately show ?thesis by (simp add: conn_inv_def)
qed

lemma suspend_closed_ok:
  assumes "conn_inv s" "cn_phase s = Suspend_Closing"
  shows "conn_inv (s\<lparr>cn_nc := None, cn_suspending := False, cn_phase := Idle\<rparr>)"
proof -
  let ?t = "s\<lparr>cn_nc := None, cn_suspending := False, cn_phase := Idle\<rparr>"
  have "entry_sub k ?t = entry_sub k s" for k by (rule entry_sub_cong) simp
  moreover have "registered ?t = registered s" by (rule registered_cong) simp_all
  ultimately show ?thesis
    using assms store_ok_cong [of ?t s] by (auto simp: conn_inv_def phase_ok_def mux_ok_def split: option.splits)
qed

lemma suspend_ok:
  assumes "conn_inv s"
  shows "conn_inv (suspend_next s) \<and> registry_of (suspend_next s) = registry_of s"
proof (cases "cn_phase s")
  case (Suspending ks)
  have susp: "cn_suspending s" using assms Suspending by (simp add: conn_inv_def phase_ok_def)
  show ?thesis
  proof (cases ks)
    case Nil
    then have "conn_inv (suspend_next s)" using Suspending susp
      by (intro conn_inv_phase [OF assms]) (auto simp: suspend_next_def)
    then show ?thesis using Suspending Nil by (auto simp: suspend_next_def intro!: same_registry)
  next
    case (Cons k ks')
    show ?thesis
    proof (cases "entry_sub k s")
      case None
      then have "conn_inv (suspend_next s)" using Suspending susp Cons
        by (intro conn_inv_phase [OF assms]) (auto simp: suspend_next_def idle_or_live_def split: if_splits)
      then show ?thesis using None Suspending Cons by (auto simp: suspend_next_def intro!: same_registry)
    next
      case (Some n)
      then show ?thesis
        using suspend_unsub_ok [OF assms Suspending [unfolded Cons] Some] Suspending Cons
        by (auto simp: suspend_next_def intro!: same_registry)
    qed
  qed
next
  case (Suspend_Unsub k ks)
  then show ?thesis
    using suspend_forget_ok [OF assms Suspend_Unsub] registered_set_sub [of k None s]
      registered_cong [of "(set_sub k None s)\<lparr>cn_phase := Suspending ks\<rparr>" "set_sub k None s"]
    by (simp add: suspend_next_def registry_of_def)
next
  case Suspend_Closing
  then show ?thesis using suspend_closed_ok [OF assms Suspend_Closing] by (auto simp: suspend_next_def intro!: same_registry)
qed (use assms in \<open>simp_all add: suspend_next_def\<close>)

lemma conn_inv_disconnecting:
  "disconnecting (cn_phase s) \<Longrightarrow> store_ok s \<Longrightarrow> \<not> cn_suspending s \<Longrightarrow>
    (cn_phase s = Disconnect_Closing \<Longrightarrow> cn_entries s = [] \<and> cn_mux s = None) \<Longrightarrow> conn_inv s"
  by (cases "cn_phase s") (auto simp: conn_inv_def phase_ok_def mux_ok_def)

lemma disconnect_ok:
  assumes "conn_inv s"
  shows "conn_inv (disconnect_next s) \<and> registry_of (disconnect_next s) = registry_of s"
proof (cases "disconnecting (cn_phase s)")
  case True
  have ok: "store_ok s" "\<not> cn_suspending s"
    using assms True by (cases "cn_phase s"; simp add: conn_inv_def phase_ok_def)+
  have reg: "registry_of s' = registry_of s" if "disconnecting (cn_phase s')" "cn_seq s' = cn_seq s" for s'
    using that True by (simp add: registry_of_def)
  have still: "conn_inv s' \<and> registry_of s' = registry_of s"
    if "disconnecting (cn_phase s')" "cn_seq s' = cn_seq s" "store_ok s'" "cn_suspending s' = cn_suspending s"
      "cn_phase s' = Disconnect_Closing \<Longrightarrow> cn_entries s' = [] \<and> cn_mux s' = None" for s'
    using conn_inv_disconnecting [of s'] reg [of s'] that ok(2) by simp
  consider "cn_phase s = Disconnecting []" | k ks where "cn_phase s = Disconnecting (k # ks)"
    | k ks where "cn_phase s = Disconnect_Unsub k ks" | "cn_phase s = Disconnect_Closing"
    using True by (cases "cn_phase s") (auto intro: list.exhaust)
  then show ?thesis
  proof cases
    case 1
    have "store_ok (s\<lparr>cn_entries := []\<rparr>)" using ok(1) by (simp add: store_ok_def)
    then have "store_ok (disconnect_next s)" by (rule store_ok_cong [rotated -1]) (simp_all add: disconnect_next_def 1)
    then show ?thesis by (intro still) (simp_all add: disconnect_next_def 1)
  next
    case (2 k ks)
    have "store_ok (disconnect_next s)"
      using 2 store_ok_cong [OF _ _ _ _ ok(1)] store_ok_cong [OF _ _ _ _ store_ok_unsub [OF ok(1)]]
      by (auto simp: disconnect_next_def split: option.split)
    then show ?thesis by (intro still) (simp_all add: disconnect_next_def 2 split: option.splits)
  next
    case (3 k ks)
    have "store_ok (disconnect_next s)"
      using 3 store_ok_cong [OF _ _ _ _ store_ok_set_sub [OF ok(1)]] by (auto simp: disconnect_next_def)
    then show ?thesis by (intro still) (simp_all add: disconnect_next_def 3)
  next
    case 4
    then have e: "cn_entries s = []" "cn_mux s = None" using assms by (simp_all add: conn_inv_def mux_ok_def)
    have "store_ok (disconnect_next s)" using 4 store_ok_cong [OF _ _ _ _ ok(1)] by (auto simp: disconnect_next_def)
    then show ?thesis using 4 e ok(2)
      by (auto simp: disconnect_next_def conn_inv_def phase_ok_def mux_ok_def registry_of_def registered_def [abs_def])
  qed
next
  case False
  then show ?thesis using assms by (auto simp: disconnect_next_def split: lifecycle.split)
qed

lemma conn_step_refines:
  assumes "conn_inv s" "calm ev s"
  shows "conn_inv (conn_step ev s) \<and> registry_of (conn_step ev s) = registry_step (registry_op_of ev s) (registry_of s)"
proof (cases ev)
  case (Connected mp)
  then show ?thesis using on_connected_ok [OF assms(1)] assms(1) by (simp add: registry_op_of_def)
next
  case Disconnect_Start
  have "registry_of (conn_step Disconnect_Start s) = registry_step (registry_op_of Disconnect_Start s) (registry_of s)"
    by (simp add: registry_op_of_def registry_of_def disconnect_begin_def Let_def)
  then show ?thesis using connect_ok [OF assms] Disconnect_Start by simp
next
  case Connect_Start
  then show ?thesis using connect_ok [OF assms] by (auto simp: registry_op_of_def intro!: same_registry)
next
  case Connect_Failed
  then show ?thesis using connect_ok [OF assms] by (auto simp: registry_op_of_def intro!: same_registry)
next
  case Suspend_Start
  then show ?thesis using connect_ok [OF assms]
    by (auto simp: registry_op_of_def suspend_begin_def Let_def intro!: same_registry)
next
  case (Subscribe p h a q)
  then show ?thesis using subscribe_ok [OF assms(1)] assms(2) by blast
next
  case (Unsubscribe k)
  then show ?thesis using entry_unsubscribe_ok [OF assms(1)] assms(2) by blast
next
  case (Finish k n)
  then show ?thesis using finish_ok [OF assms(1)] assms(2) by (simp add: registry_op_of_def del: conn_step.simps)
qed (use assms restore_ok suspend_ok disconnect_ok in \<open>simp_all add: registry_op_of_def del: conn_step.simps(4)\<close>)

lemma calm_run_inv: "calm_run options rnd evs s \<Longrightarrow> conn_inv s"
proof (induction rule: calm_run.induct)
  case calm_new
  then show ?case by (simp add: conn_inv_def store_ok_def phase_ok_def mux_ok_def new_client_def entry_sub_def)
qed (use conn_step_refines in blast)


fun calm_all :: "conn_event list \<Rightarrow> connection \<Rightarrow> bool" where
  "calm_all [] s \<longleftrightarrow> True"
| "calm_all (ev # evs) s \<longleftrightarrow> calm ev s \<and> calm_all evs (conn_step ev s)"

lemma calm_run_fold:
  "calm_run options rnd evs s \<Longrightarrow> calm_all evs' s \<Longrightarrow> calm_run options rnd (evs @ evs') (fold conn_step evs' s)"
proof (induction evs' arbitrary: evs s)
  case (Cons ev evs')
  then show ?case using calm_next [of options rnd evs s ev] Cons.IH [of "evs @ [ev]" "conn_step ev s"] by simp
qed simp

text \<open>A client that subscribes, is suspended and resumes; the old message task ends late.\<close>

definition demo_options :: rpc_client_options where
  "demo_options = \<lparr>op_servers = [''nats''], op_name = ''n'', op_conn_id = Some ''c'', op_auth = None, op_timeout = None,
     op_reconnect = None, op_max_reconnect_attempts = None, op_reconnect_time_wait = Some 500, op_connect_timeout = None,
     op_tls = None, op_disconnect_timeout = None, op_no_responder_retry = None, op_error_cb = None, op_reconnected_cb = None\<rparr>"

definition demo_start :: "conn_event list" where
  "demo_start = [Connect_Start, Connected 1048576, Restore_Next, Restore_Next, Subscribe ''a'' 7 True []]"

definition demo_resume :: "conn_event list" where
  "demo_resume = [Suspend_Start, Suspend_Next, Finish 1 0, Suspend_Next, Suspend_Next, Suspend_Next, Suspend_Next, Suspend_Next,
     Connect_Start, Connected 1048576, Restore_Next, Restore_Next, Finish 2 1, Restore_Next]"

definition demo_resumed :: connection where
  "demo_resumed = fold conn_step (demo_start @ demo_resume) (new_client demo_options 0)"

lemmas conn_eval = demo_start_def demo_resume_def demo_options_def new_client_def calm_def on_connected_def
  register_mux_entry_def new_entry_def restore_next_def sub_missing_def nats_subscribe_def entry_sub_def set_sub_def
  subscribe_def suspend_begin_def teardown_sessions_def settle_pull_iterators_def suspend_next_def sub_unsubscribe_def
  disconnect_isolated_def new_chunking_def on_finish_def served_sub_def

lemma demo_calm: "calm_all (demo_start @ demo_resume) (new_client demo_options 0)"
  by (simp add: conn_eval eval_nat_numeral)

lemma demo_resumed_state:
  "cn_phase demo_resumed = Idle \<and> cn_nc demo_resumed = Some 1 \<and> registered demo_resumed 2 = Some (''a'', User_Handler 7, [])"
  by (simp add: demo_resumed_def conn_eval registered_def eval_nat_numeral)


section \<open>Where calm matters\<close>

text \<open>
  A subscription made while the suspended connection is closing is kept as an entry but never
  restored: its subscription object is neither missing nor closed.
\<close>

definition demo_lost :: connection where
  "demo_lost = fold conn_step (demo_start @ [Suspend_Start, Suspend_Next, Suspend_Next, Suspend_Next, Suspend_Next, Suspend_Next,
     Subscribe ''b'' 8 True [], Suspend_Next, Connect_Start, Connected 1048576, Restore_Next, Restore_Next, Restore_Next, Restore_Next])
     (new_client demo_options 0)"

lemma subscribe_while_suspending_lost:
  "cn_phase demo_lost = Idle \<and> cn_nc demo_lost = Some 1 \<and> registered demo_lost 3 = Some (''b'', User_Handler 8, []) \<and> \<not> live demo_lost 3"
  by (simp add: demo_lost_def conn_eval registered_def live_def eval_nat_numeral)

text \<open>
  An entry that is unsubscribed while it waits in the restore loop is subscribed all the same, and
  no closure or registry knows it any more.
\<close>

definition demo_zombie :: connection where
  "demo_zombie = fold conn_step (demo_start @ [Suspend_Start, Suspend_Next, Suspend_Next, Suspend_Next, Suspend_Next, Suspend_Next,
     Suspend_Next, Connect_Start, Connected 1048576, Restore_Next, Unsubscribe 2, Restore_Next, Restore_Next])
     (new_client demo_options 0)"

lemma unsubscribe_while_restoring_survives:
  "cn_phase demo_zombie = Idle \<and> registered demo_zombie 2 = None \<and> live demo_zombie 2"
  by (simp add: demo_zombie_def conn_eval unsubscribe_def registered_def live_def eval_nat_numeral)

section \<open>Options and hooks\<close>

lemma connect_opts_typed: "ConnectionOptions (connect_opts options)"
  by (auto simp: ConnectionOptions_def connect_opts_def split: option.split)

text \<open>Waits below a second are cut to zero.\<close>

lemma short_waits_vanish: "0 \<le> ms \<Longrightarrow> ms < 1000 \<Longrightarrow> ms_to_seconds ms = 0"
  by (simp add: ms_to_seconds_def)

text \<open>Both teardowns run every hook that is registered once, in the order of the code, and forget it.\<close>

lemma teardown_hooks:
  "cn_hooks (teardown_sessions s) = cn_hooks s @ map End_Stream (cn_streams s) @ map Settle_Pull (cn_settles s) @
     map Clean_Pull (cn_pull_cleanups s) @ map Clean_Callback (cn_callback_cleanups s)"
  "cn_streams (teardown_sessions s) = []" "cn_settles (teardown_sessions s) = []"
  "cn_pull_cleanups (teardown_sessions s) = []" "cn_callback_cleanups (teardown_sessions s) = []"
  "cc_pending (cn_calls (teardown_sessions s)) = []"
  by (simp_all add: teardown_sessions_def settle_pull_iterators_def Let_def cleanup_pending_requests_def)

section \<open>Reconfiguring\<close>

fun tree_all :: "(client_tree \<Rightarrow> bool) \<Rightarrow> client_tree \<Rightarrow> bool" where
  "tree_all P (Client opts c ts) \<longleftrightarrow> P (Client opts c ts) \<and> (\<forall>t \<in> set ts. tree_all P t)"

fun map_tree :: "(rpc_client_options \<Rightarrow> rpc_client_options) \<Rightarrow> client_tree \<Rightarrow> client_tree" where
  "map_tree f (Client opts c ts) = Client (f opts) c (map (map_tree f) ts)"

text \<open>
  With no client of the tree connected, every client gets the new servers and credentials; a connected
  client makes the whole operation fail.
\<close>

lemma reconfigure_spec:
  "tree_all (\<lambda>t. \<not> tree_connected t) c \<Longrightarrow> reconfigure servers auth c = (map_tree (new_options servers auth) c, None)"
  "\<forall>t \<in> set cs. tree_all (\<lambda>t. \<not> tree_connected t) t \<Longrightarrow>
     reconfigure_all servers auth cs = (map (map_tree (new_options servers auth)) cs, None)"
  by (induction servers auth c and servers auth cs rule: reconfigure_reconfigure_all.induct) auto

lemma reconfigure_connected:
  "\<not> tree_all (\<lambda>t. \<not> tree_connected t) c \<Longrightarrow> snd (reconfigure servers auth c) \<noteq> None"
  "\<not> (\<forall>t \<in> set cs. tree_all (\<lambda>t. \<not> tree_connected t) t) \<Longrightarrow> snd (reconfigure_all servers auth cs) \<noteq> None"
  by (induction servers auth c and servers auth cs rule: reconfigure_reconfigure_all.induct)
    (fastforce split: prod.splits option.splits)+

end
