(* ===== verification/Decorators.thy ===== *)
theory Decorators
  imports Errors
begin

text \<open>
  \<open>decorators.py\<close>: the marks that expose methods, \<open>RPCProperty\<close>, and the two functions that walk over an
  object and collect the handlers under their dotted names. Objects live on a heap and are named by
  their identity, which is what the set \<open>visited\<close> holds.
\<close>

section \<open>Marks\<close>

text \<open>What the program looks at in an attribute of a class.\<close>

record class_attr =
  ca_exposed :: bool
  ca_nested :: bool
  ca_property :: bool
  ca_fget_nested :: bool
  ca_static :: bool
  ca_truthy :: bool

record pyclassdef =
  cl_expose_all :: bool
  cl_attrs :: "(string, class_attr) pydict"
  cl_rpc_methods :: "string list option"

definition RPCMethod :: "class_attr \<Rightarrow> class_attr" where
  "RPCMethod f = f\<lparr>ca_exposed := True\<rparr>"

definition RPCNested :: "class_attr \<Rightarrow> class_attr" where
  "RPCNested f = f\<lparr>ca_nested := True\<rparr>"

definition RPCClass :: "pyclassdef \<Rightarrow> pyclassdef" where
  "RPCClass c = c\<lparr>cl_expose_all := True\<rparr>"

section \<open>RPCProperty\<close>

definition upper_char :: "char \<Rightarrow> char" where
  "upper_char c = (let n = of_char c :: nat in if 97 \<le> n \<and> n \<le> 122 then char_of (n - 32) else c)"

definition setter_name :: "string \<Rightarrow> string" where
  "setter_name name = (case name of [] \<Rightarrow> ''set'' | c # cs \<Rightarrow> ''set'' @ upper_char c # cs)"

definition private_name :: "string \<Rightarrow> string" where
  "private_name name = CHR 0x5F # name"

text \<open>\<open>__set_name__\<close>: the property and its setter are listed as RPC methods, and the class gets the setter.\<close>

definition set_name :: "string \<Rightarrow> pyclassdef \<Rightarrow> pyclassdef" where
  "set_name name owner =
     owner\<lparr>cl_rpc_methods := Some ((case cl_rpc_methods owner of None \<Rightarrow> [] | Some ms \<Rightarrow> ms) @ [name, setter_name name]),
           cl_attrs := dset (setter_name name)
             \<lparr>ca_exposed = False, ca_nested = False, ca_property = False, ca_fget_nested = False, ca_static = False,
              ca_truthy = True\<rparr> (cl_attrs owner)\<rparr>"

text \<open>The dictionary of an instance; the setter method and \<open>__set__\<close> write the same entry that \<open>__get__\<close> reads.\<close>

definition property_get :: "string \<Rightarrow> (string, pyval) pydict \<Rightarrow> pyval" where
  "property_get name instance = (case dget instance (private_name name) of None \<Rightarrow> PNone | Some v \<Rightarrow> v)"

definition property_set :: "string \<Rightarrow> pyval \<Rightarrow> (string, pyval) pydict \<Rightarrow> (string, pyval) pydict" where
  "property_set name v instance = dset (private_name name) v instance"

definition property_setter :: "string \<Rightarrow> pyval \<Rightarrow> (string, pyval) pydict \<Rightarrow> (string, pyval) pydict" where
  "property_setter name v instance = dset (private_name name) v instance"

section \<open>Objects\<close>

text \<open>
  What the walk sees of an object: its class, its items if it is a dictionary, the
  type tests, what calling it returns (none when that raises), \<open>dir(obj)\<close> with the value of each attribute (none when \<open>getattr\<close> raises), the names in its
  \<open>__dict__\<close>, and \<open>__rpc_nested_attrs__\<close>.
\<close>

record pyobject =
  ob_class :: pyclassdef
  ob_items :: "(string \<times> nat) list option"
  ob_none :: bool
  ob_callable :: bool
  ob_type :: bool
  ob_plain_dict :: bool
  ob_call_result :: "nat option"
  ob_has_dict :: bool
  ob_scalar :: bool
  ob_dir :: "(string \<times> nat option) list"
  ob_dict_names :: "string list"
  ob_nested_attrs :: "string list"

type_synonym heap = "pyobject list"

text \<open>The handlers that are registered: a callable object, or one of the two getters that the code makes.\<close>

datatype exposed = Callable nat | Value_Getter nat | Property_Getter nat string

type_synonym handlers = "(string, exposed) pydict"

definition is_private :: "string \<Rightarrow> bool" where
  "is_private name = (case name of c # _ \<Rightarrow> c = CHR 0x5F | [] \<Rightarrow> False)"

section \<open>Without decorators\<close>

definition static_attr :: "pyobject \<Rightarrow> string \<Rightarrow> bool" where
  "static_attr obj name = (case dget (cl_attrs (ob_class obj)) name of None \<Rightarrow> False | Some a \<Rightarrow> ca_static a)"

fun plain_items :: "heap \<Rightarrow> string list \<Rightarrow> (string \<times> nat) list \<Rightarrow> handlers \<Rightarrow> handlers" where
  "plain_items heap path [] hs = hs"
| "plain_items heap path ((key, value) # items) hs =
     plain_items heap path items
       (if \<not> is_private key \<and> ob_callable (heap ! value) \<and> \<not> ob_type (heap ! value)
        then dset (dots (path @ [key])) (Callable value) hs else hs)"

fun plain_attrs :: "heap \<Rightarrow> pyobject \<Rightarrow> string list \<Rightarrow> (string \<times> nat option) list \<Rightarrow> handlers \<Rightarrow> handlers" where
  "plain_attrs heap obj path [] hs = hs"
| "plain_attrs heap obj path ((name, value) # attrs) hs =
     plain_attrs heap obj path attrs
       (case value of
          None \<Rightarrow> hs
        | Some v \<Rightarrow>
            if \<not> is_private name \<and> \<not> static_attr obj name \<and> \<not> ob_type (heap ! v) \<and> ob_callable (heap ! v)
            then dset (dots (path @ [name])) (Callable v) hs else hs)"

definition extract_nested_methods_without_decorators :: "heap \<Rightarrow> nat \<Rightarrow> string list \<Rightarrow> handlers \<times> nat list \<Rightarrow> handlers \<times> nat list" where
  "extract_nested_methods_without_decorators heap obj path st =
     (case st of (hs, visited) \<Rightarrow>
        if ob_none (heap ! obj) \<or> obj \<in> set visited then (hs, visited)
        else
          (case ob_items (heap ! obj) of
             Some items \<Rightarrow> (plain_items heap path items hs, obj # visited)
           | None \<Rightarrow> (plain_attrs heap (heap ! obj) path (ob_dir (heap ! obj)) hs, obj # visited)))"

section \<open>With decorators\<close>

definition class_attr_where :: "(class_attr \<Rightarrow> bool) \<Rightarrow> pyobject \<Rightarrow> string list" where
  "class_attr_where P obj = map fst (filter (\<lambda>(name, a). \<not> is_private name \<and> P a) (cl_attrs (ob_class obj)))"

definition has_decorators :: "pyobject \<Rightarrow> bool" where
  "has_decorators obj \<longleftrightarrow> cl_expose_all (ob_class obj) \<or> class_attr_where ca_exposed obj \<noteq> [] \<or>
     class_attr_where ca_nested obj \<noteq> []"

definition rpc_methods :: "pyobject \<Rightarrow> string list" where
  "rpc_methods obj =
     (let ms = class_attr_where ca_exposed obj
      in ms @ (case cl_rpc_methods (ob_class obj) of None \<Rightarrow> [] | Some xs \<Rightarrow> filter (\<lambda>m. m \<notin> set ms) xs))"

definition rpc_nested :: "pyobject \<Rightarrow> string list" where
  "rpc_nested obj =
     (let marked = class_attr_where (\<lambda>a. ca_nested a \<or> ca_property a \<and> ca_fget_nested a) obj;
          dynamic = filter (\<lambda>n. \<not> is_private n \<and>
            (case dget (cl_attrs (ob_class obj)) n of None \<Rightarrow> False | Some a \<Rightarrow> ca_truthy a \<and> ca_nested a)) (ob_dict_names obj)
      in marked @ dynamic @ ob_nested_attrs obj)"

definition recursible :: "pyobject \<Rightarrow> bool" where
  "recursible v \<longleftrightarrow> ob_items v \<noteq> None \<or> ob_has_dict v \<and> \<not> ob_scalar v"

text \<open>A class that sits behind a marked property is called to get the object.\<close>

definition nested_object :: "heap \<Rightarrow> pyobject \<Rightarrow> string \<Rightarrow> nat \<Rightarrow> nat" where
  "nested_object heap obj name v =
     (if ob_callable (heap ! v) \<and> (case dget (cl_attrs (ob_class obj)) name of None \<Rightarrow> False | Some a \<Rightarrow> ca_property a)
      then (case ob_call_result (heap ! v) of Some r \<Rightarrow> r | None \<Rightarrow> v) else v)"

text \<open>What the loops do with one entry: nothing, expose it, or descend into it.\<close>

datatype entry_action = Skip | Expose exposed | Descend nat

definition item_action :: "heap \<Rightarrow> string \<Rightarrow> nat \<Rightarrow> entry_action" where
  "item_action heap key value =
     (if is_private key then Skip
      else if ob_callable (heap ! value) then Expose (Callable value)
      else if recursible (heap ! value) then Descend value
      else Expose (Value_Getter value))"

definition attr_action :: "heap \<Rightarrow> nat \<Rightarrow> string \<Rightarrow> nat option \<Rightarrow> entry_action" where
  "attr_action heap obj name value =
     (case value of
        None \<Rightarrow> Skip
      | Some v \<Rightarrow>
          if is_private name \<or> name = ''constructor'' then Skip
          else if ob_callable (heap ! v) \<and> \<not> ob_type (heap ! v)
          then (if cl_expose_all (ob_class (heap ! obj)) \<or> name \<in> set (rpc_methods (heap ! obj)) then Expose (Callable v) else Skip)
          else if name \<in> set (rpc_methods (heap ! obj)) \<and> \<not> ob_callable (heap ! v) then Expose (Property_Getter obj name)
          else if name \<in> set (rpc_nested (heap ! obj)) \<and> \<not> ob_none (heap ! nested_object heap (heap ! obj) name v)
          then Descend (nested_object heap (heap ! obj) name v)
          else Skip)"

text \<open>
  The walk. Both modes are one loop over the entries of the object. The fuel bounds the nesting of calls;
  \<open>None\<close> is running out of it. The loop passes on the dictionaries that the recursive calls share.
\<close>

definition entries_of :: "heap \<Rightarrow> nat \<Rightarrow> (string \<times> entry_action) list" where
  "entries_of heap obj =
     (if ob_plain_dict (heap ! obj) \<and> \<not> has_decorators (heap ! obj)
      then map (\<lambda>(k, v). (k, item_action heap k v)) (case ob_items (heap ! obj) of None \<Rightarrow> [] | Some items \<Rightarrow> items)
      else map (\<lambda>(n, v). (n, attr_action heap obj n v)) (ob_dir (heap ! obj)))"

fun run_entries :: "(nat \<Rightarrow> string list \<Rightarrow> handlers \<times> nat list \<Rightarrow> (handlers \<times> nat list) option) \<Rightarrow> string list
    \<Rightarrow> (string \<times> entry_action) list \<Rightarrow> handlers \<times> nat list \<Rightarrow> (handlers \<times> nat list) option" where
  "run_entries descend path [] st = Some st"
| "run_entries descend path ((name, Skip) # es) st = run_entries descend path es st"
| "run_entries descend path ((name, Expose h) # es) st =
     run_entries descend path es (dset (dots (path @ [name])) h (fst st), snd st)"
| "run_entries descend path ((name, Descend v) # es) st =
     (case descend v (path @ [name]) st of
        None \<Rightarrow> None
      | Some st' \<Rightarrow> run_entries descend path es st')"

primrec extract_object :: "nat \<Rightarrow> heap \<Rightarrow> nat \<Rightarrow> string list \<Rightarrow> handlers \<times> nat list \<Rightarrow> (handlers \<times> nat list) option" where
  "extract_object 0 heap obj path st = None"
| "extract_object (Suc fuel) heap obj path st =
     (if obj \<in> set (snd st) then Some st
      else run_entries (extract_object fuel heap) path (entries_of heap obj) (fst st, obj # snd st))"

definition extract_nested_methods_with_decorators :: "heap \<Rightarrow> nat \<Rightarrow> handlers option" where
  "extract_nested_methods_with_decorators heap obj =
     map_option fst (extract_object (Suc (length heap)) heap obj [] ([], []))"


section \<open>The walk ends\<close>

definition heap_ok :: "heap \<Rightarrow> bool" where
  "heap_ok heap \<longleftrightarrow> (\<forall>ob \<in> set heap.
     (\<forall>items. ob_items ob = Some items \<longrightarrow> (\<forall>(k, v) \<in> set items. v < length heap)) \<and>
     (\<forall>(n, v) \<in> set (ob_dir ob). \<forall>r. v = Some r \<longrightarrow> r < length heap) \<and>
     (\<forall>r. ob_call_result ob = Some r \<longrightarrow> r < length heap))"

definition unvisited :: "heap \<Rightarrow> nat list \<Rightarrow> nat" where
  "unvisited heap visited = card ({..<length heap} - set visited)"

lemma unvisited_mono: "set visited \<subseteq> set visited' \<Longrightarrow> unvisited heap visited' \<le> unvisited heap visited"
  unfolding unvisited_def by (intro card_mono) auto

lemma unvisited_step: "obj < length heap \<Longrightarrow> obj \<notin> set visited \<Longrightarrow> unvisited heap (obj # visited) < unvisited heap visited"
  unfolding unvisited_def by (intro psubset_card_mono) auto

lemma run_entries_visited:
  assumes "\<And>v p st st'. descend v p st = Some st' \<Longrightarrow> set (snd st) \<subseteq> set (snd st')"
  shows "run_entries descend path es st = Some st' \<Longrightarrow> set (snd st) \<subseteq> set (snd st')"
  using assms by (induction descend path es st rule: run_entries.induct) (force split: option.splits)+

lemma extract_visited: "extract_object fuel heap obj path st = Some st' \<Longrightarrow> set (snd st) \<subseteq> set (snd st')"
proof (induction fuel arbitrary: obj path st st')
  case (Suc fuel)
  show ?case
  proof (cases "obj \<in> set (snd st)")
    case True
    then show ?thesis using Suc.prems by simp
  next
    case False
    then have "run_entries (extract_object fuel heap) path (entries_of heap obj) (fst st, obj # snd st) = Some st'"
      using Suc.prems by simp
    from run_entries_visited [OF Suc.IH this] show ?thesis by auto
  qed
qed simp

lemma extract_unvisited:
  "extract_object fuel heap obj path st = Some st' \<Longrightarrow> unvisited heap' (snd st') \<le> unvisited heap' (snd st)"
  using extract_visited unvisited_mono by blast

lemma entries_inside:
  assumes "heap_ok heap" "obj < length heap" "(name, Descend v) \<in> set (entries_of heap obj)"
  shows "v < length heap"
proof -
  have ok: "heap ! i \<in> set heap" if "i < length heap" for i using that by simp
  show ?thesis
  proof (cases "ob_plain_dict (heap ! obj) \<and> \<not> has_decorators (heap ! obj)")
    case True
    then obtain items x where x: "ob_items (heap ! obj) = Some items" "(name, x) \<in> set items" "item_action heap name x = Descend v"
      using assms(3) by (cases "ob_items (heap ! obj)") (auto simp: entries_of_def)
    then have "v = x" by (auto simp: item_action_def split: if_splits)
    then show ?thesis using assms(1) ok [OF assms(2)] x(1,2) unfolding heap_ok_def by blast
  next
    case False
    then obtain x where x: "(name, x) \<in> set (ob_dir (heap ! obj))" "attr_action heap obj name x = Descend v"
      using assms(3) by (auto simp: entries_of_def split: if_splits)
    then obtain r where r: "x = Some r" "v = nested_object heap (heap ! obj) name r"
      by (auto simp: attr_action_def split: option.splits if_splits)
    have "r < length heap" using assms(1) ok [OF assms(2)] x(1) r(1) unfolding heap_ok_def by fastforce
    then show ?thesis
      using r(2) assms(1) ok [of r] by (auto simp: nested_object_def heap_ok_def split: option.splits if_splits)
  qed
qed

lemma run_entries_ends:
  assumes "\<And>v p st. v < n \<Longrightarrow> P (snd st) \<Longrightarrow> \<exists>st'. descend v p st = Some st'"
    and "\<And>v p st st'. descend v p st = Some st' \<Longrightarrow> P (snd st) \<Longrightarrow> P (snd st')"
    and "\<And>name v. (name, Descend v) \<in> set es \<Longrightarrow> v < n" "P (snd st)"
  shows "\<exists>st'. run_entries descend path es st = Some st'"
  using assms(3,4)
proof (induction es arbitrary: st)
  case (Cons e es)
  show ?case
  proof (cases e)
    case (Pair name a)
    show ?thesis
    proof (cases a)
      case (Descend v)
      then obtain st' where "descend v (path @ [name]) st = Some st'" "P (snd st')"
        using assms(1,2) Cons.prems Pair by (metis list.set_intros(1))
      then show ?thesis using Cons.IH [of st'] Cons.prems Pair Descend by auto
    qed (use Cons Pair in auto)
  qed
qed simp

lemma extract_ends:
  assumes "heap_ok heap" "obj < length heap" "unvisited heap (snd st) < fuel"
  shows "\<exists>st'. extract_object fuel heap obj path st = Some st'"
  using assms(2,3)
proof (induction fuel arbitrary: obj path st)
  case (Suc fuel)
  show ?case
  proof (cases "obj \<in> set (snd st)")
    case False
    then have "unvisited heap (obj # snd st) < fuel" using unvisited_step [OF Suc.prems(1) False] Suc.prems(2) by simp
    then have "\<exists>st'. run_entries (extract_object fuel heap) path (entries_of heap obj) (fst st, obj # snd st) = Some st'"
      by (intro run_entries_ends [where n = "length heap" and P = "\<lambda>vs. unvisited heap vs < fuel"])
        (use Suc.IH entries_inside [OF assms(1) Suc.prems(1)] in \<open>auto dest!: extract_unvisited [where heap' = heap]\<close>)
    then show ?thesis using False by simp
  qed simp
qed simp



section \<open>What is exposed\<close>

text \<open>The names that a walk adds are paths of public names.\<close>

definition public_path :: "string list \<Rightarrow> string \<Rightarrow> bool" where
  "public_path path key \<longleftrightarrow> (\<exists>segs. segs \<noteq> [] \<and> list_all (\<lambda>n. \<not> is_private n) segs \<and> key = dots (path @ segs))"

lemma public_path_one: "\<not> is_private n \<Longrightarrow> public_path path (dots (path @ [n]))"
  unfolding public_path_def by (rule exI [of _ "[n]"]) simp

lemma public_path_deeper: "\<not> is_private n \<Longrightarrow> public_path (path @ [n]) key \<Longrightarrow> public_path path key"
  unfolding public_path_def by (auto intro: exI [of _ "n # segs" for segs])

definition adds_public :: "string list \<Rightarrow> handlers \<Rightarrow> handlers \<Rightarrow> bool" where
  "adds_public path hs hs' \<longleftrightarrow> (\<forall>key \<in> fst ` set hs'. key \<in> fst ` set hs \<or> public_path path key)"

lemma keys_dset: "fst ` set (dset k v d) = insert k (fst ` set d)"
  by (induction d) auto

lemma entries_public: "(name, a) \<in> set (entries_of heap obj) \<Longrightarrow> a \<noteq> Skip \<Longrightarrow> \<not> is_private name"
  by (auto simp: entries_of_def item_action_def attr_action_def split: if_splits option.splits)

lemma run_entries_public:
  assumes "\<And>v name p st st'. descend v p st = Some st' \<Longrightarrow> adds_public p (fst st) (fst st')"
    and "\<And>name a. (name, a) \<in> set es \<Longrightarrow> a \<noteq> Skip \<Longrightarrow> \<not> is_private name"
  shows "run_entries descend path es st = Some st' \<Longrightarrow> adds_public path (fst st) (fst st')"
  using assms(2)
proof (induction es arbitrary: st)
  case Nil
  then show ?case by (auto simp: adds_public_def)
next
  case (Cons e es)
  obtain name a where e: "e = (name, a)" by fastforce
  have rest: "run_entries descend path es st1 = Some st' \<Longrightarrow> adds_public path (fst st1) (fst st')" for st1
    by (rule Cons.IH) (use Cons.prems(2) in auto)
  show ?case
  proof (cases a)
    case Skip
    then show ?thesis using rest [of st] Cons.prems(1) e by simp
  next
    case (Expose h)
    then have "\<not> is_private name" using Cons.prems(2) [of name a] e by simp
    then show ?thesis using rest [of "(dset (dots (path @ [name])) h (fst st), snd st)"] Cons.prems(1) e Expose public_path_one
      by (auto simp: adds_public_def keys_dset)
  next
    case (Descend v)
    then have "\<not> is_private name" using Cons.prems(2) [of name a] e by simp
    moreover obtain st1 where "descend v (path @ [name]) st = Some st1" and st1: "run_entries descend path es st1 = Some st'"
      using Cons.prems(1) e Descend by (auto split: option.splits)
    then have "adds_public (path @ [name]) (fst st) (fst st1)" using assms(1) by blast
    ultimately have "adds_public path (fst st) (fst st1)" using public_path_deeper unfolding adds_public_def by blast
    then show ?thesis using rest [OF st1] unfolding adds_public_def by blast
  qed
qed

lemma extract_public: "extract_object fuel heap obj path st = Some st' \<Longrightarrow> adds_public path (fst st) (fst st')"
proof (induction fuel arbitrary: obj path st st')
  case (Suc fuel)
  show ?case
  proof (cases "obj \<in> set (snd st)")
    case True
    then show ?thesis using Suc.prems by (auto simp: adds_public_def)
  next
    case False
    then have "run_entries (extract_object fuel heap) path (entries_of heap obj) (fst st, obj # snd st) = Some st'"
      using Suc.prems by simp
    from run_entries_public [OF Suc.IH entries_public this] show ?thesis by simp
  qed
qed simp


text \<open>Two objects that refer to each other, and one that is reachable under two names.\<close>

definition demo_class :: pyclassdef where
  "demo_class = \<lparr>cl_expose_all = False, cl_attrs = [], cl_rpc_methods = None\<rparr>"

definition demo_dict :: "(string \<times> nat) list \<Rightarrow> pyobject" where
  "demo_dict items = \<lparr>ob_class = demo_class, ob_items = Some items, ob_none = False, ob_callable = False, ob_type = False,
     ob_plain_dict = True, ob_call_result = None, ob_has_dict = False, ob_scalar = False, ob_dir = [], ob_dict_names = [],
     ob_nested_attrs = []\<rparr>"

definition demo_function :: pyobject where
  "demo_function = (demo_dict [])\<lparr>ob_items := None, ob_callable := True, ob_plain_dict := False\<rparr>"

definition demo_heap :: heap where
  "demo_heap = [demo_dict [(''a'', 1), (''b'', 1), (''run'', 2), (''_x'', 2)], demo_dict [(''up'', 0), (''go'', 2)], demo_function]"

lemmas decorators_eval = demo_heap_def demo_function_def demo_dict_def demo_class_def
  extract_nested_methods_with_decorators_def entries_of_def item_action_def recursible_def is_private_def has_decorators_def
  class_attr_where_def eval_nat_numeral

text \<open>A shared object is registered under the first of its names only.\<close>

lemma shared_object_exposed_once:
  "extract_nested_methods_with_decorators demo_heap 0 = Some [(''a.go'', Callable 2), (''run'', Callable 2)]"
  by (simp add: decorators_eval)



section \<open>Without decorators and properties\<close>

lemma plain_items_public:
  "key \<in> fst ` set (plain_items heap path items hs) \<Longrightarrow> key \<in> fst ` set hs \<or> public_path path key"
proof (induction heap path items hs rule: plain_items.induct)
  case (2 heap path k v items hs)
  then show ?case using public_path_one [of k path] by (auto simp: keys_dset split: if_splits)
qed simp

lemma plain_attrs_public:
  "key \<in> fst ` set (plain_attrs heap obj path attrs hs) \<Longrightarrow> key \<in> fst ` set hs \<or> public_path path key"
proof (induction heap obj path attrs hs rule: plain_attrs.induct)
  case (2 heap obj path n v attrs hs)
  then show ?case using public_path_one [of n path] by (auto simp: keys_dset split: if_splits option.splits)
qed simp

lemma undecorated_public:
  "key \<in> fst ` set (fst (extract_nested_methods_without_decorators heap obj path ([], []))) \<Longrightarrow> public_path path key"
  using plain_items_public plain_attrs_public
  by (fastforce simp: extract_nested_methods_without_decorators_def split: if_splits option.splits)

text \<open>The setter method that \<open>RPCProperty\<close> adds is exposed and writes what the property reads.\<close>

lemma property_set_get:
  "property_get name (property_setter name v instance) = v"
  "property_get name (property_set name v instance) = v"
  "name \<noteq> name' \<Longrightarrow> property_get name' (property_setter name v instance) = property_get name' instance"
  by (simp_all add: property_get_def property_setter_def property_set_def private_name_def)

lemma property_exposed: "{name, setter_name name} \<subseteq> set (rpc_methods (obj\<lparr>ob_class := set_name name c\<rparr>))"
  by (auto simp: rpc_methods_def set_name_def Let_def class_attr_where_def)

end
