(* ===== verification/Proxies.thy ===== *)
theory Proxies
  imports Retry Decorators
begin

text \<open>
  The proxies of \<open>utils.py\<close>: how an attribute access and a call become one of the client's calls, method
  discovery, the resolution of service endpoints; and \<open>create_proxy\<close>, \<open>create_service_proxy\<close> and
  \<open>ProxyWithClose\<close> of \<open>client.py\<close>.
\<close>

section \<open>Arguments\<close>

text \<open>Keyword arguments of \<open>rpc_callbacks\<close>: callables, a list of names, or something else.\<close>

datatype kwarg = Kw_Callable nat | Kw_Names "string list" | Kw_None | Kw_Other

record RPCCallbacks =
  cb_methods :: "(string, nat) pydict"
  cb_oneway :: "string list"

definition rpc_callbacks :: "(string, kwarg) pydict \<Rightarrow> exc + RPCCallbacks" where
  "rpc_callbacks kwargs =
     (let oneway = (case dget kwargs ''oneway'' of None \<Rightarrow> Kw_None | Some v \<Rightarrow> v);
          methods = map (\<lambda>(name, v). (name, case v of Kw_Callable f \<Rightarrow> f | _ \<Rightarrow> 0))
            (filter (\<lambda>(name, v). case v of Kw_Callable _ \<Rightarrow> True | _ \<Rightarrow> False) (dpop ''oneway'' kwargs))
      in case oneway of
           Kw_None \<Rightarrow> Inr \<lparr>cb_methods = methods, cb_oneway = map fst methods\<rparr>
         | Kw_Names names \<Rightarrow> Inr \<lparr>cb_methods = methods, cb_oneway = names\<rparr>
         | _ \<Rightarrow> Inl (Raised TypeError ''not iterable''))"

text \<open>
  The arguments of a call on a proxy: a bundle of callbacks, a callable that is no class, or a value.
\<close>

datatype proxy_arg = Arg pyval | Arg_Callbacks RPCCallbacks | Arg_Callable nat

fun is_rpc_callbacks :: "proxy_arg \<Rightarrow> bool" where
  "is_rpc_callbacks (Arg_Callbacks _) = True"
| "is_rpc_callbacks _ = False"

fun is_callback :: "proxy_arg \<Rightarrow> bool" where
  "is_callback (Arg_Callable _) = True"
| "is_callback _ = False"

text \<open>\<open>next((i for i, a in enumerate(args) if P(a)), -1)\<close>\<close>

fun index_of :: "('a \<Rightarrow> bool) \<Rightarrow> 'a list \<Rightarrow> nat option" where
  "index_of P [] = None"
| "index_of P (x # xs) = (if P x then Some 0 else map_option Suc (index_of P xs))"

definition without_index :: "nat \<Rightarrow> 'a list \<Rightarrow> 'a list" where
  "without_index i xs = take i xs @ drop (Suc i) xs"

section \<open>Calls\<close>

datatype client_call =
    Call_Pull_Callback string RPCCallbacks "proxy_arg list"
  | Call_With_Callback string "proxy_arg list" nat
  | Call_Stream string "proxy_arg list"
  | Call_Pull string "proxy_arg list"
  | Call_Plain string "proxy_arg list" bool

text \<open>\<open>CallableProxy.__call__\<close>: \<open>name\<close> is the last name of the path, \<open>discover\<close> whether the cache is empty.\<close>

definition proxy_call :: "string \<Rightarrow> string \<Rightarrow> bool \<Rightarrow> proxy_arg list \<Rightarrow> client_call" where
  "proxy_call subject name discover args =
     (case index_of is_rpc_callbacks args of
        Some i \<Rightarrow>
          (case args ! i of Arg_Callbacks cbs \<Rightarrow> Call_Pull_Callback subject cbs (without_index i args)
           | _ \<Rightarrow> Call_Plain subject args discover)
      | None \<Rightarrow>
          (case index_of is_callback args of
             Some i \<Rightarrow>
               (case args ! i of Arg_Callable f \<Rightarrow> Call_With_Callback subject (without_index i args) f
                | _ \<Rightarrow> Call_Plain subject args discover)
           | None \<Rightarrow>
               if contains ''generate'' (lower name) then Call_Stream subject args
               else if contains ''pull'' (lower name) then Call_Pull subject args
               else Call_Plain subject args discover))"

section \<open>Attributes and discovery\<close>

text \<open>A proxy object: its namespace, its path and the method cache, which is a set.\<close>

record rpc_proxy =
  px_namespace :: string
  px_path :: "string list"
  px_cache :: "string list option"

text \<open>\<open>RPCProxy.__getattr__\<close>: nothing for a name that discovery did not report, else the path of a callable.\<close>

definition proxy_getattr :: "rpc_proxy \<Rightarrow> string \<Rightarrow> string list option" where
  "proxy_getattr p name =
     (if px_path p = [] \<and> (case px_cache p of None \<Rightarrow> False | Some ms \<Rightarrow> name \<notin> set ms) then None
      else Some (px_path p @ [name]))"

definition proxy_subject :: "rpc_proxy \<Rightarrow> string list \<Rightarrow> string" where
  "proxy_subject p full_path = ''rpc.'' @ px_namespace p @ ''.'' @ dots full_path"

text \<open>
  \<open>CallableProxy.__getattr__\<close>: \<open>__getattribute__\<close> of the fresh proxy finds what its class defines, and
  nothing else; \<open>object_attrs\<close> are the attributes that every Python object has.
\<close>

definition callable_getattr :: "string list \<Rightarrow> string \<Rightarrow> exc + string" where
  "callable_getattr object_attrs nested_name =
     (if nested_name \<in> set (object_attrs @ [''__getattr__'', ''__repr__'']) then Inr nested_name
      else Inl (Raised AttributeError nested_name))"

fun name_list :: "pyval list \<Rightarrow> string list option" where
  "name_list [] = Some []"
| "name_list (PStr s # vs) = map_option (Cons s) (name_list vs)"
| "name_list (_ # vs) = None"

text \<open>\<open>strip_methods\<close> with \<open>update_cache\<close>; only lists of strings arrive from the servers of this program.\<close>

definition update_cache :: "pyval \<Rightarrow> string list option \<Rightarrow> exc + string list option" where
  "update_cache methods cache =
     (case cache of
        Some _ \<Rightarrow> Inr cache
      | None \<Rightarrow>
          (case methods of
             PList vs \<Rightarrow> (case name_list vs of Some ms \<Rightarrow> Inr (Some ms) | None \<Rightarrow> Inl (Raised TypeError ''unhashable''))
           | _ \<Rightarrow> Inl (Raised TypeError ''not iterable'')))"

definition strip_methods :: "pyval \<Rightarrow> string list option \<Rightarrow> exc + pyval \<times> string list option" where
  "strip_methods result cache =
     (case result of
        PDict d \<Rightarrow>
          (case sget d ''__methods'' of
             None \<Rightarrow> Inr (result, cache)
           | Some ms \<Rightarrow> (case update_cache ms cache of Inl e \<Rightarrow> Inl e | Inr c \<Rightarrow> Inr (PDict (dpop (PStr ''__methods'') d), c)))
      | _ \<Rightarrow> Inr (result, cache))"

section \<open>Service proxies\<close>

datatype service_attr = Endpoint string | Nested_Proxy "string list"

text \<open>The loop over the endpoints of the service, given by their subjects.\<close>

fun find_endpoint :: "string list \<Rightarrow> string \<Rightarrow> string list \<Rightarrow> string option" where
  "find_endpoint path name [] = None"
| "find_endpoint path name (ep # eps) =
     (if ep = dots (path @ [name]) then Some ep
      else
        let parts = split_on (CHR 0x2E) ep
        in if last parts = name \<and> dots (butlast parts) = dots path then Some ep
           else find_endpoint path name eps)"

fun starts_with :: "string \<Rightarrow> string \<Rightarrow> bool" where
  "starts_with [] s = True"
| "starts_with (c # cs) s = (case s of [] \<Rightarrow> False | d # ds \<Rightarrow> c = d \<and> starts_with cs ds)"

definition service_getattr :: "string list \<Rightarrow> string list \<Rightarrow> string \<Rightarrow> exc + service_attr" where
  "service_getattr endpoints path name =
     (case find_endpoint path name endpoints of
        Some ep \<Rightarrow> Inr (Endpoint ep)
      | None \<Rightarrow>
          if \<exists>ep \<in> set endpoints. starts_with (dots (path @ [name]) @ ''.'') ep then Inr (Nested_Proxy (path @ [name]))
          else Inl (Raised AttributeError name))"

text \<open>Calling an endpoint: as on a proxy, without discovery.\<close>

definition service_call :: "string \<Rightarrow> string \<Rightarrow> proxy_arg list \<Rightarrow> client_call" where
  "service_call subject name args = proxy_call subject name False args"

text \<open>Resolving a chain of attributes down to an endpoint.\<close>

fun resolve :: "string list \<Rightarrow> string list \<Rightarrow> string list \<Rightarrow> exc + string" where
  "resolve endpoints path [] = Inl (Raised TypeError ''not callable'')"
| "resolve endpoints path (name # names) =
     (case service_getattr endpoints path name of
        Inl e \<Rightarrow> Inl e
      | Inr (Endpoint ep) \<Rightarrow> (if names = [] then Inr ep else Inl (Raised AttributeError (hd names)))
      | Inr (Nested_Proxy p) \<Rightarrow> resolve endpoints p names)"

section \<open>Creating proxies\<close>

text \<open>The isolated clients that a client keeps, those that were disconnected, and the next identity.\<close>

record isolated_clients =
  ic_tracked :: "nat list"
  ic_disconnected :: "nat list"
  ic_next :: nat

definition open_isolated :: "isolated_clients \<Rightarrow> nat \<times> isolated_clients" where
  "open_isolated s = (ic_next s, s\<lparr>ic_tracked := ic_tracked s @ [ic_next s], ic_next := Suc (ic_next s)\<rparr>)"

text \<open>\<open>disconnect()\<close> of the isolated client, and its removal from the list of the parent if it is there.\<close>

definition close_isolated :: "nat \<Rightarrow> isolated_clients \<Rightarrow> isolated_clients" where
  "close_isolated c s = s\<lparr>ic_disconnected := ic_disconnected s @ [c], ic_tracked := remove1 c (ic_tracked s)\<rparr>"

definition create_proxy :: "string \<Rightarrow> bool \<Rightarrow> isolated_clients \<Rightarrow> (rpc_proxy \<times> nat option) \<times> isolated_clients" where
  "create_proxy namespace isolated s =
     (let proxy = \<lparr>px_namespace = namespace, px_path = [], px_cache = None\<rparr>
      in if isolated then (case open_isolated s of (c, s') \<Rightarrow> ((proxy, Some c), s')) else ((proxy, None), s))"

text \<open>\<open>ProxyWithClose.close\<close>\<close>

definition proxy_close :: "nat option \<Rightarrow> isolated_clients \<Rightarrow> isolated_clients" where
  "proxy_close c s = (case c of None \<Rightarrow> s | Some c \<Rightarrow> close_isolated c s)"

record service_info =
  si_name :: string
  si_id :: string
  si_endpoints :: "string list"

definition select_service :: "string option \<Rightarrow> service_info list \<Rightarrow> service_info" where
  "select_service preferred_id services =
     (case preferred_id of
        Some i \<Rightarrow> if i = [] then hd services
                   else (case find (\<lambda>s. si_id s = i) services of Some s \<Rightarrow> s | None \<Rightarrow> hd services)
      | None \<Rightarrow> hd services)"

text \<open>\<open>discovered\<close> is what the monitor found for the name.\<close>

definition create_service_proxy :: "string \<Rightarrow> bool \<Rightarrow> string option \<Rightarrow> service_info list \<Rightarrow> isolated_clients
    \<Rightarrow> (exc + service_info \<times> nat option) \<times> isolated_clients" where
  "create_service_proxy service_name isolated preferred_id discovered s =
     (let (c, s) = (if isolated then (case open_isolated s of (c, s') \<Rightarrow> (Some c, s')) else (None, s))
      in if discovered = []
         then (Inl (Raised RuntimeError (''No services found with name: '' @ service_name)), proxy_close c s)
         else (Inr (select_service preferred_id discovered, c), s))"


section \<open>Endpoint resolution\<close>

lemma join_split: "join_with [c] (split_on c s) = s"
proof (induction s)
  case (Cons x xs)
  obtain p ps where "split_on c xs = p # ps" by (cases "split_on c xs") auto
  then show ?case using Cons.IH by (cases ps) auto
qed simp

lemma join_snoc: "ps \<noteq> [] \<Longrightarrow> join_with sep (ps @ [p]) = join_with sep ps @ sep @ p"
proof (induction ps rule: induct_list012)
  case (3 s t ss)
  then show ?case by simp
qed simp_all

definition segment :: "string \<Rightarrow> bool" where
  "segment s \<longleftrightarrow> s \<noteq> [] \<and> CHR 0x2E \<notin> set s"

lemma dots_nonempty: "ps \<noteq> [] \<Longrightarrow> list_all segment ps \<Longrightarrow> dots ps \<noteq> []"
  by (induction ps rule: induct_list012) (auto simp: segment_def)

text \<open>The second test of the loop accepts nothing that the first does not.\<close>

lemma second_test:
  assumes "list_all segment path" "starts_with ''.'' ep \<Longrightarrow> False"
    and "last (split_on (CHR 0x2E) ep) = name" "dots (butlast (split_on (CHR 0x2E) ep)) = dots path"
  shows "ep = dots (path @ [name])"
proof -
  let ?ps = "split_on (CHR 0x2E) ep"
  have ep: "ep = dots (butlast ?ps @ [name])"
    using join_split [of "CHR 0x2E" ep] assms(3) append_butlast_last_id [of ?ps] by simp
  show ?thesis
  proof (cases "butlast ?ps = []")
    case True
    then have "path = []" using assms(1,4) dots_nonempty [of path] by (cases path) auto
    then show ?thesis using ep True by simp
  next
    case False
    show ?thesis
    proof (cases path)
      case Nil
      then have "ep = ''.'' @ name" using ep join_snoc [OF False] assms(4) by simp
      then show ?thesis using assms(2) by simp
    next
      case (Cons a as)
      then show ?thesis using ep join_snoc [OF False] join_snoc [of path "''.''" name] assms(4) by simp
    qed
  qed
qed

lemma find_endpoint_spec:
  assumes "list_all segment path" "list_all (\<lambda>ep. \<not> starts_with ''.'' ep) eps"
  shows "find_endpoint path name eps = find (\<lambda>ep. ep = dots (path @ [name])) eps"
  using assms(2)
proof (induction eps)
  case (Cons ep eps)
  then show ?case using second_test [OF assms(1), of ep name] by (auto simp: Let_def)
qed simp

text \<open>
  A service proxy resolves names by their subject: the loop over the endpoints with its two tests is
  equivalent to looking up the dotted path, an attribute is a nested proxy exactly if some endpoint lies below
  the path, and everything else is an \<open>AttributeError\<close>.
\<close>

theorem service_lookup:
  assumes "list_all segment path" "list_all (\<lambda>ep. \<not> starts_with ''.'' ep) endpoints"
  shows "service_getattr endpoints path name =
    (if dots (path @ [name]) \<in> set endpoints then Inr (Endpoint (dots (path @ [name])))
     else if \<exists>ep \<in> set endpoints. starts_with (dots (path @ [name]) @ ''.'') ep then Inr (Nested_Proxy (path @ [name]))
     else Inl (Raised AttributeError name))"
proof -
  have "find (\<lambda>ep. ep = x) eps = (if x \<in> set eps then Some x else None)" for x :: string and eps
    by (induction eps) auto
  then show ?thesis by (simp add: service_getattr_def find_endpoint_spec [OF assms])
qed

theorem service_lookup_witness:
  "service_getattr [''math.add'', ''ping''] [''math''] ''add'' = Inr (Endpoint ''math.add'')"
  using service_lookup [of "[''math'']" "[''math.add'', ''ping'']" "''add''"] by (simp add: segment_def)

section \<open>Discovery\<close>

text \<open>Every path below a callable fails: the name is looked up without \<open>__getattr__\<close>.\<close>

lemma nested_access_fails:
  "name \<notin> set object_attrs \<Longrightarrow> take 2 name \<noteq> ''__'' \<Longrightarrow> callable_getattr object_attrs name = Inl (Raised AttributeError name)"
  by (auto simp: callable_getattr_def)

text \<open>After discovery the root of a nested name is no attribute any more, unless it is a method itself.\<close>

lemma nested_root_hidden:
  "px_path p = [] \<Longrightarrow> px_cache p = Some ms \<Longrightarrow> name \<notin> set ms \<Longrightarrow> proxy_getattr p name = None"
  by (simp add: proxy_getattr_def)

lemma name_list_map: "name_list (map PStr ms) = Some ms"
  by (induction ms) auto

text \<open>
  Discovery is invisible to the caller: the method list that the client adds to a result is taken out again by the
  proxy, which returns the result of the handler and knows the methods from then on; a result that is no dictionary carries no
  list and leaves the cache as it is.
\<close>

theorem discovery_transparent:
  assumes "\<forall>d. v = PDict d \<longrightarrow> sget d ''__methods'' = None"
    and "sget response ''__methods'' = Some (PList (map PStr methods))"
  shows "strip_methods (attach_methods response v) cache =
    Inr (v, if (\<exists>d. v = PDict d) \<and> cache = None then Some methods else cache)"
proof (cases "\<exists>d. v = PDict d")
  case True
  then obtain d where d: "v = PDict d" "sget d ''__methods'' = None" using assms(1) by blast
  have "dpop (PStr ''__methods'') (dset (PStr ''__methods'') x d) = d" for x
    using d(2) by (induction d) (auto simp: sget_def AList.delete_eq split: if_splits)
  then show ?thesis
    using d assms(2) by (cases cache) (auto simp: strip_methods_def attach_methods_def sget_def update_cache_def name_list_map)
next
  case False
  then show ?thesis using assms(2) by (cases v) (auto simp: strip_methods_def attach_methods_def)
qed

theorem discovery_transparent_witness:
  "strip_methods (attach_methods [(PStr ''__methods'', PList [PStr ''m''])] (PDict [(PStr ''x'', PInt 1)])) None
     = Inr (PDict [(PStr ''x'', PInt 1)], Some [''m''])"
  using discovery_transparent [of "PDict [(PStr ''x'', PInt 1)]" "[(PStr ''__methods'', PList [PStr ''m''])]" "[''m'']" None]
  by simp

section \<open>Which call a proxy makes\<close>

lemma index_of_Some: "index_of P xs = Some i \<Longrightarrow> i < length xs \<and> P (xs ! i) \<and> (\<forall>j < i. \<not> P (xs ! j))"
proof (induction xs arbitrary: i)
  case (Cons x xs)
  then show ?case by (cases i) (auto simp: less_Suc_eq_0_disj split: if_splits)
qed simp

lemma index_of_None: "index_of P xs = None \<longleftrightarrow> (\<forall>x \<in> set xs. \<not> P x)"
  by (induction xs) auto

text \<open>The first bundle decides, then the first callable, then the name; only values reach the wire.\<close>

lemma proxy_call_values:
  assumes "\<forall>a \<in> set args. \<not> is_rpc_callbacks a \<and> \<not> is_callback a"
  shows "proxy_call subject name discover args =
    (if contains ''generate'' (lower name) then Call_Stream subject args
     else if contains ''pull'' (lower name) then Call_Pull subject args
     else Call_Plain subject args discover)"
  using assms index_of_None [of is_rpc_callbacks args] index_of_None [of is_callback args] by (simp add: proxy_call_def)

lemma proxy_call_bundle:
  assumes "index_of is_rpc_callbacks args = Some i"
  shows "\<exists>cbs. args ! i = Arg_Callbacks cbs \<and> proxy_call subject name discover args = Call_Pull_Callback subject cbs (without_index i args)"
  using index_of_Some [OF assms] assms by (cases "args ! i") (auto simp: proxy_call_def)

text \<open>Closing an isolated proxy disconnects its client and leaves the others.\<close>

lemma proxy_close_own:
  assumes "create_proxy ns True s = ((p, c), s')" "ic_next s \<notin> set (ic_tracked s)"
  shows "ic_tracked (proxy_close c s') = ic_tracked s \<and> ic_disconnected (proxy_close c s') = ic_disconnected s @ [ic_next s]"
proof -
  have "c = Some (ic_next s)" "s' = s\<lparr>ic_tracked := ic_tracked s @ [ic_next s], ic_next := Suc (ic_next s)\<rparr>"
    using assms(1) by (auto simp: create_proxy_def open_isolated_def)
  then show ?thesis using assms(2) by (simp add: proxy_close_def close_isolated_def remove1_append remove1_idem)
qed

text \<open>No service: the error names it, and the isolated client is not left behind.\<close>

lemma no_service_found:
  assumes "ic_next s \<notin> set (ic_tracked s)"
  shows "\<exists>s'. create_service_proxy n isolated pref [] s = (Inl (Raised RuntimeError (''No services found with name: '' @ n)), s') \<and>
    ic_tracked s' = ic_tracked s"
  using assms by (auto simp: create_service_proxy_def open_isolated_def proxy_close_def close_isolated_def remove1_append remove1_idem)

end
