(* ===== verification/Registration.thy ===== *)
theory Registration
  imports Dispatch Connection Proxies
begin

text \<open>
  Registering handlers (\<open>register_handler\<close> of \<open>client.py\<close>): the handlers that are extracted from an object,
  a subscription for each, and the function that takes them back. What arrives at the subscriptions is
  served by \<open>handle_message\<close>.
\<close>

definition handlers_map :: "bool \<Rightarrow> heap \<Rightarrow> nat \<Rightarrow> handlers option" where
  "handlers_map without_decorators heap obj =
     (if without_decorators then Some (fst (extract_nested_methods_without_decorators heap obj [] ([], [])))
      else extract_nested_methods_with_decorators heap obj)"

text \<open>
  The loop over the handlers: handler number \<open>i\<close> is subscribed on the subject of its name. A subscription
  that the broker refuses ends the loop, and the ones before it stay.
\<close>

fun subscribe_handlers :: "(string \<Rightarrow> exc option) \<Rightarrow> string \<Rightarrow> string \<Rightarrow> (nat \<times> string) list \<Rightarrow> connection
    \<Rightarrow> connection \<times> (exc + nat list)" where
  "subscribe_handlers refuse ns queue [] s = (s, Inr [])"
| "subscribe_handlers refuse ns queue ((i, name) # ms) s =
     (case subscribe refuse (handler_subject ns name) i True queue s of
        (s, Inl e) \<Rightarrow> (s, Inl e)
      | (s, Inr k) \<Rightarrow>
          (case subscribe_handlers refuse ns queue ms s of
             (s, Inl e) \<Rightarrow> (s, Inl e)
           | (s, Inr ks) \<Rightarrow> (s, Inr (k # ks))))"

definition register_handler :: "(string \<Rightarrow> exc option) \<Rightarrow> string \<Rightarrow> string \<Rightarrow> bool \<Rightarrow> heap \<Rightarrow> nat \<Rightarrow> connection
    \<Rightarrow> (connection \<times> (exc + nat list)) option" where
  "register_handler refuse ns queue without_decorators heap obj s =
     (if cn_nc s = None then Some (s, Inl not_connected)
      else map_option (\<lambda>hs. subscribe_handlers refuse ns queue (List.enumerate 0 (map fst hs)) s)
             (handlers_map without_decorators heap obj))"

text \<open>The subscriptions that the combined unsubscribe function ends; \<open>unregister\<close> is the rest of it.\<close>

definition unsubscribe_handlers :: "nat list \<Rightarrow> connection \<Rightarrow> connection" where
  "unsubscribe_handlers keys s = fold unsubscribe keys s"

section \<open>Handlers are reachable\<close>

lemma map_upds_nth:
  "distinct xs \<Longrightarrow> length xs = length ys \<Longrightarrow> j < length xs \<Longrightarrow> (m(xs [\<mapsto>] ys)) (xs ! j) = Some (ys ! j)"
  by (induction xs ys arbitrary: m j rule: list_induct2') (auto simp: nth_Cons split: nat.split)

lemma subscribe_connected:
  assumes "cn_nc s \<noteq> None"
  shows "subscribe (\<lambda>_. None) p h a q s = (conn_step (Subscribe p h a q) s, Inr (Suc (cn_seq s)))"
  using assms by (auto simp: subscribe_def Let_def nats_subscribe_def new_entry_def split: option.split)

lemma subscribe_run:
  assumes "calm_run options rnd evs s" "cn_phase s = Idle" "cn_nc s \<noteq> None"
  shows "calm_run options rnd (evs @ [Subscribe p h a q]) (conn_step (Subscribe p h a q) s) \<and>
    cn_phase (conn_step (Subscribe p h a q) s) = Idle \<and> cn_nc (conn_step (Subscribe p h a q) s) \<noteq> None \<and>
    cn_seq (conn_step (Subscribe p h a q) s) = Suc (cn_seq s) \<and>
    registered (conn_step (Subscribe p h a q) s) = (registered s)(Suc (cn_seq s) \<mapsto> (p, User_Handler h, q))"
proof -
  let ?t = "conn_step (Subscribe p h a q) s"
  have c: "calm (Subscribe p h a q) s" using assms(2) by (simp add: calm_def)
  have f: "cn_phase ?t = cn_phase s" "cn_nc ?t = cn_nc s"
    using assms(3) by (auto simp: subscribe_def Let_def nats_subscribe_def new_entry_def set_sub_def split: option.split)
  have "registry_of ?t = registry_step (registry_op_of (Subscribe p h a q) s) (registry_of s)"
    using subscribe_ok [OF calm_run_inv [OF assms(1)] c] by blast
  then show ?thesis
    using f assms calm_next [OF assms(1) c] by (simp add: registry_of_def registry_op_of_def del: conn_step.simps)
qed

lemma subscribe_handlers_run:
  assumes "calm_run options rnd evs s" "cn_phase s = Idle" "cn_nc s \<noteq> None"
  shows "\<exists>s' evs'. subscribe_handlers (\<lambda>_. None) ns queue ms s = (s', Inr [Suc (cn_seq s)..<Suc (cn_seq s + length ms)]) \<and>
    calm_run options rnd evs' s' \<and> cn_phase s' = Idle \<and> cn_nc s' \<noteq> None \<and>
    registered s' = (registered s)([Suc (cn_seq s)..<Suc (cn_seq s + length ms)] [\<mapsto>]
      map (\<lambda>(i, name). (handler_subject ns name, User_Handler i, queue)) ms)"
  using assms
proof (induction ms arbitrary: s evs)
  case (Cons m ms)
  obtain i name where m: "m = (i, name)" by fastforce
  let ?t = "conn_step (Subscribe (handler_subject ns name) i True queue) s"
  note r = subscribe_run [OF Cons.prems, of "handler_subject ns name" i True queue]
  obtain s' evs' where s': "subscribe_handlers (\<lambda>_. None) ns queue ms ?t = (s', Inr [Suc (cn_seq ?t)..<Suc (cn_seq ?t + length ms)])"
    "calm_run options rnd evs' s'" "cn_phase s' = Idle" "cn_nc s' \<noteq> None"
    "registered s' = (registered ?t)([Suc (cn_seq ?t)..<Suc (cn_seq ?t + length ms)] [\<mapsto>]
      map (\<lambda>(i, name). (handler_subject ns name, User_Handler i, queue)) ms)"
    using Cons.IH [of _ ?t] r by blast
  have seq: "cn_seq ?t = Suc (cn_seq s)" using r by blast
  have keys: "[Suc (cn_seq s)..<Suc (cn_seq s + length (m # ms))]
      = Suc (cn_seq s) # [Suc (Suc (cn_seq s))..<Suc (Suc (cn_seq s) + length ms)]"
    by (simp add: upt_rec)
  have "subscribe_handlers (\<lambda>_. None) ns queue (m # ms) s
      = (s', Inr (Suc (cn_seq s) # [Suc (Suc (cn_seq s))..<Suc (Suc (cn_seq s) + length ms)]))"
    using s'(1) by (simp add: m subscribe_connected [OF Cons.prems(3)] seq del: conn_step.simps upt_Suc)
  moreover have "registered s' = (registered s)(Suc (cn_seq s) # [Suc (Suc (cn_seq s))..<Suc (Suc (cn_seq s) + length ms)] [\<mapsto>]
      map (\<lambda>(i, name). (handler_subject ns name, User_Handler i, queue)) (m # ms))"
    using s'(5) r by (simp add: m seq del: conn_step.simps upt_Suc)
  ultimately show ?case using s'(2-4) unfolding keys by blast
qed auto

lemma registered_unsubscribe: "registered (unsubscribe k s) = (registered s)(k := None)"
  by (rule ext) (auto simp: unsubscribe_def Let_def registered_def set_sub_def sub_unsubscribe_def split: option.split)

lemma registered_unsubscribe_handlers:
  "registered (unsubscribe_handlers keys s) = (\<lambda>k. if k \<in> set keys then None else registered s k)"
  by (induction keys arbitrary: s) (auto simp: unsubscribe_handlers_def registered_unsubscribe)

lemma proxy_subject_handler:
  "proxy_subject \<lparr>px_namespace = ns, px_path = path, px_cache = cache\<rparr> (split_on (CHR 0x2E) name) = handler_subject ns name"
  by (simp add: proxy_subject_def handler_subject_def join_split)

text \<open>The loop over the handlers of an object: each is live on the subject that a proxy calls.\<close>

lemma subscribe_handlers_live:
  assumes "calm_run options rnd evs s" "cn_phase s = Idle" "cn_nc s \<noteq> None"
  shows "\<exists>s' keys. subscribe_handlers (\<lambda>_. None) ns queue (List.enumerate 0 (map fst hs)) s = (s', Inr keys) \<and>
    length keys = length hs \<and> cn_phase s' = Idle \<and>
    (\<forall>j < length hs. live s' (keys ! j) \<and> registered s' (keys ! j) =
       Some (proxy_subject \<lparr>px_namespace = ns, px_path = [], px_cache = None\<rparr> (split_on (CHR 0x2E) (fst (hs ! j))), User_Handler j, queue)) \<and>
    registered (unsubscribe_handlers keys s') = registered s"
proof -
  let ?ms = "List.enumerate 0 (map fst hs)" and ?keys = "[Suc (cn_seq s)..<Suc (cn_seq s + length hs)]"
  obtain s' evs' where s': "subscribe_handlers (\<lambda>_. None) ns queue ?ms s = (s', Inr ?keys)"
    "calm_run options rnd evs' s'" "cn_phase s' = Idle" "cn_nc s' \<noteq> None"
    "registered s' = (registered s)(?keys [\<mapsto>] map (\<lambda>(i, name). (handler_subject ns name, User_Handler i, queue)) ?ms)"
    using subscribe_handlers_run [OF assms(1-3), of ns queue ?ms] by auto
  have reg: "registered s' (?keys ! j) = Some (handler_subject ns (fst (hs ! j)), User_Handler j, queue)" if "j < length hs" for j
    unfolding s'(5) using that by (subst map_upds_nth) (simp_all add: nth_enumerate_eq)
  have inv: "conn_inv s'" using calm_run_inv [OF s'(2)] .
  have "live s' (?keys ! j)" if "j < length hs" for j
    using inv s'(3,4) reg [OF that] by (auto simp: conn_inv_def phase_ok_def registered_def split: if_splits)
  moreover have "registered s k = None" if "k \<in> set ?keys" for k
    using calm_run_inv [OF assms(1)] that by (auto simp: conn_inv_def store_ok_def registered_def)
  then have "registered (unsubscribe_handlers ?keys s') = registered s"
    by (auto simp: registered_unsubscribe_handlers s'(5) intro!: ext)
  moreover have "length ?keys = length hs" by (simp del: upt_Suc)
  ultimately show ?thesis using reg s'(1,3) unfolding proxy_subject_handler by blast
qed



section \<open>Native responders\<close>

text \<open>
  \<open>on_request\<close> subscribes on the connection itself, without an entry of the client; the result is the
  subscription that its unsubscribe function ends.
\<close>

definition on_request :: "(string \<Rightarrow> exc option) \<Rightarrow> string \<Rightarrow> connection \<Rightarrow> connection \<times> (exc + nat)" where
  "on_request refuse pattern s =
     (case cn_nc s of
        None \<Rightarrow> (s, Inl not_connected)
      | Some t \<Rightarrow>
          (case refuse pattern of
             Some e \<Rightarrow> (s, Inl e)
           | None \<Rightarrow>
               (s\<lparr>cn_subs := cn_subs s @ [\<lparr>ns_pattern = pattern, ns_queue = [], ns_transport = t, ns_active = True, ns_closed = False\<rparr>]\<rparr>,
                Inr (length (cn_subs s)))))"

text \<open>
  So a responder, unlike a subscription, is not there any more after a suspend and a reconnect: the subscription of the
  application is, on the new connection, and none on the subject of the responder.
\<close>

lemma responder_not_restored:
  defines "s \<equiv> fold conn_step demo_resume (fst (on_request (\<lambda>_. None) ''q'' (fold conn_step demo_start (new_client demo_options 0))))"
  shows "cn_nc s = Some 1 \<and> live s 2 \<and> list_all (\<lambda>b. ns_pattern b = ''q'' \<longrightarrow> ns_transport b = 0) (cn_subs s)"
  unfolding s_def by (simp add: conn_eval on_request_def live_def mux_pattern_def eval_nat_numeral)

end
