(* ===== verification/Isolated.thy ===== *)
theory Isolated
  imports Registration
begin

text \<open>
  Isolated connections (\<open>create_isolated_client\<close> and its uses in \<open>client.py\<close>): a client together with the
  clients that it opened for single namespaces, channels, proxies and services. What the
  hooks of its teardown name is carried out on those clients here.
\<close>

section \<open>Whole operations of one client\<close>

text \<open>
  \<open>await connect()\<close> from beginning to end; \<open>server\<close> is what nats-py's \<open>connect\<close> raises, or the payload limit of the server.
\<close>

definition connect_whole :: "exc + int \<Rightarrow> connection \<Rightarrow> connection \<times> exc option" where
  "connect_whole server s =
     (if cn_nc s \<noteq> None then (s, None)
      else
        let s = conn_step Connect_Start s
        in case server of
             Inl e \<Rightarrow> (conn_step Connect_Failed s, Some e)
           | Inr max_payload \<Rightarrow>
               (let s = conn_step (Connected max_payload) s
                in ((conn_step Restore_Next ^^ Suc (length (cn_entries s))) s, None)))"

text \<open>Each round of the loop over the entries takes at most two steps, and two more close the connection.\<close>

definition disconnect_whole :: "connection \<Rightarrow> connection" where
  "disconnect_whole s = (conn_step Disconnect_Next ^^ (2 * length (cn_entries s) + 2)) (conn_step Disconnect_Start s)"

definition suspend_whole :: "connection \<Rightarrow> connection" where
  "suspend_whole s = (conn_step Suspend_Next ^^ (2 * length (cn_entries s) + 2)) (conn_step Suspend_Start s)"

section \<open>A client and its isolated clients\<close>

record client_family =
  cf_parent :: connection
  cf_clients :: "nat \<Rightarrow> connection option"
  cf_next :: nat

datatype isolated_use =
    For_Handlers string
  | For_Channel string
  | For_Private string
  | For_Proxy string
  | For_Service string

text \<open>The options of the parent under another name.\<close>

definition isolated_options :: "isolated_use \<Rightarrow> rpc_client_options \<Rightarrow> rpc_client_options" where
  "isolated_options use opts = opts\<lparr>op_name := op_name opts @
     (case use of
        For_Handlers namespace \<Rightarrow> ''-handler-'' @ namespace
      | For_Channel channel_id \<Rightarrow> ''-channel-'' @ channel_id
      | For_Private channel_id \<Rightarrow> ''-private-'' @ channel_id
      | For_Proxy namespace \<Rightarrow> ''-proxy-'' @ namespace
      | For_Service service_name \<Rightarrow> ''-service-'' @ service_name)\<rparr>"

definition create_isolated_client :: "rpc_client_options \<Rightarrow> nat \<Rightarrow> client_family \<Rightarrow> nat \<times> client_family" where
  "create_isolated_client options rnd f =
     (cf_next f, f\<lparr>cf_clients := (cf_clients f)(cf_next f \<mapsto> new_client options rnd), cf_next := Suc (cf_next f)\<rparr>)"

text \<open>\<open>self.isolated_clients.append(client)\<close>\<close>

definition track :: "nat \<Rightarrow> client_family \<Rightarrow> client_family" where
  "track k f = f\<lparr>cf_parent := (cf_parent f)\<lparr>cn_isolated := cn_isolated (cf_parent f) @ [k]\<rparr>\<rparr>"

definition on_client :: "nat \<Rightarrow> (connection \<Rightarrow> connection) \<Rightarrow> client_family \<Rightarrow> client_family" where
  "on_client k g f = f\<lparr>cf_clients := (cf_clients f)(k := map_option g (cf_clients f k))\<rparr>"

definition connect_client :: "exc + int \<Rightarrow> nat \<Rightarrow> client_family \<Rightarrow> client_family \<times> exc option" where
  "connect_client server k f =
     (case cf_clients f k of
        None \<Rightarrow> (f, None)
      | Some c \<Rightarrow> (on_client k (\<lambda>_. fst (connect_whole server c)) f, snd (connect_whole server c)))"

text \<open>
  The order of creating, tracking and connecting: \<open>register_handler\<close> tracks the client once it is connected, so one
  that cannot connect is dropped; channels and services track it first; a proxy leaves connecting to its first call.
\<close>

definition open_isolated_client :: "isolated_use \<Rightarrow> nat \<Rightarrow> exc + int \<Rightarrow> client_family \<Rightarrow> client_family \<times> (exc + nat)" where
  "open_isolated_client use rnd server f =
     (case create_isolated_client (isolated_options use (cn_options (cf_parent f))) rnd f of (k, f') \<Rightarrow>
        (case use of
           For_Proxy _ \<Rightarrow> (track k f', Inr k)
         | For_Handlers _ \<Rightarrow>
             (case connect_client server k f' of
                (f'', Some e) \<Rightarrow> (f''\<lparr>cf_clients := (cf_clients f'')(k := None)\<rparr>, Inl e)
              | (f'', None) \<Rightarrow> (track k f'', Inr k))
         | _ \<Rightarrow>
             (case connect_client server k (track k f') of
                (f'', Some e) \<Rightarrow> (f'', Inl e)
              | (f'', None) \<Rightarrow> (f'', Inr k))))"

text \<open>
  \<open>ProxyWithClose.close\<close>, the end of the cleanup of \<open>register_handler\<close>, and a service proxy that finds no service:
  disconnect the client and take it from the list if it is still there.
\<close>

definition close_isolated_client :: "nat \<Rightarrow> client_family \<Rightarrow> client_family" where
  "close_isolated_client k f =
     (let f = on_client k disconnect_whole f
      in f\<lparr>cf_parent := (cf_parent f)\<lparr>cn_isolated := remove1 k (cn_isolated (cf_parent f))\<rparr>\<rparr>)"

text \<open>\<open>connect\<close> at the start of every request: a client that was disconnected stays so.\<close>

definition auto_connect :: "exc + int \<Rightarrow> connection \<Rightarrow> connection \<times> exc option" where
  "auto_connect server s = (if cn_nc s = None \<and> \<not> cn_closed s then connect_whole server s else (s, None))"

text \<open>The clients that the hooks of a teardown disconnect, in their order.\<close>

definition disconnected_by :: "connection \<Rightarrow> connection \<Rightarrow> nat list" where
  "disconnected_by s s' = [k. Disconnect_Client k \<leftarrow> drop (length (cn_hooks s)) (cn_hooks s')]"

definition teardown_family :: "(connection \<Rightarrow> connection) \<Rightarrow> client_family \<Rightarrow> client_family" where
  "teardown_family teardown f =
     (let p = teardown (cf_parent f)
      in fold (\<lambda>k. on_client k disconnect_whole) (disconnected_by (cf_parent f) p) (f\<lparr>cf_parent := p\<rparr>))"

section \<open>Handlers on a connection of their own\<close>

text \<open>
  \<open>register_handler\<close> with \<open>isolated_connection\<close>, and the function that it returns. An exception after the client was
  opened leaves the client open and tracked.
\<close>

definition register_isolated :: "(string \<Rightarrow> exc option) \<Rightarrow> string \<Rightarrow> string \<Rightarrow> bool \<Rightarrow> heap \<Rightarrow> nat \<Rightarrow> nat \<Rightarrow> exc + int
    \<Rightarrow> client_family \<Rightarrow> (client_family \<times> (exc + nat \<times> nat list)) option" where
  "register_isolated refuse namespace queue without_decorators heap obj rnd server f =
     (if cn_nc (cf_parent f) = None then Some (f, Inl not_connected)
      else
        case open_isolated_client (For_Handlers namespace) rnd server f of
          (f', Inl e) \<Rightarrow> Some (f', Inl e)
        | (f', Inr k) \<Rightarrow>
            (case cf_clients f' k of
               None \<Rightarrow> None
             | Some c \<Rightarrow>
                 map_option (\<lambda>hs. case subscribe_handlers refuse namespace queue (List.enumerate 0 (map fst hs)) c of
                     (c', Inl e) \<Rightarrow> (on_client k (\<lambda>_. c') f', Inl e)
                   | (c', Inr keys) \<Rightarrow> (on_client k (\<lambda>_. c') f', Inr (k, keys)))
                   (handlers_map without_decorators heap obj)))"

definition unregister_isolated :: "nat \<Rightarrow> nat list \<Rightarrow> client_family \<Rightarrow> client_family" where
  "unregister_isolated k keys f = close_isolated_client k (on_client k (unsubscribe_handlers keys) f)"

section \<open>Runs of a family\<close>

text \<open>
  What happens to a family, in any order: clients are opened and closed, any of them is used, and the life cycle of the
  parent goes on. Application code subscribes and unsubscribes on all of them, and message tasks end.
\<close>

fun application_event :: "conn_event \<Rightarrow> bool" where
  "application_event (Subscribe _ _ _ _) = True"
| "application_event (Unsubscribe _) = True"
| "application_event (Finish _ _) = True"
| "application_event _ = False"

datatype family_event =
    Open_Isolated isolated_use nat "exc + int"
  | Close_Isolated nat
  | Auto_Connect nat "exc + int"
  | On_Isolated nat conn_event
  | On_Parent conn_event
  | Parent_Connect "exc + int"
  | Parent_Suspend
  | Parent_Disconnect

fun family_step :: "family_event \<Rightarrow> client_family \<Rightarrow> client_family" where
  "family_step (Open_Isolated use rnd server) f = fst (open_isolated_client use rnd server f)"
| "family_step (Close_Isolated k) f = close_isolated_client k f"
| "family_step (Auto_Connect k server) f = on_client k (\<lambda>c. fst (auto_connect server c)) f"
| "family_step (On_Isolated k ev) f = (if application_event ev then on_client k (conn_step ev) f else f)"
| "family_step (On_Parent ev) f = (if application_event ev then f\<lparr>cf_parent := conn_step ev (cf_parent f)\<rparr> else f)"
| "family_step (Parent_Connect server) f = f\<lparr>cf_parent := fst (connect_whole server (cf_parent f))\<rparr>"
| "family_step Parent_Suspend f = teardown_family suspend_whole f"
| "family_step Parent_Disconnect f = teardown_family disconnect_whole f"

definition new_family :: "rpc_client_options \<Rightarrow> nat \<Rightarrow> client_family" where
  "new_family options rnd = \<lparr>cf_parent = new_client options rnd, cf_clients = Map.empty, cf_next = 0\<rparr>"

section \<open>The whole operations end\<close>

definition dead :: "connection \<Rightarrow> bool" where
  "dead c \<longleftrightarrow> cn_closed c \<and> cn_nc c = None \<and> cn_entries c = []"

lemma dead_registered: "dead c \<Longrightarrow> registered c j = None"
  by (simp add: dead_def registered_def)

lemma teardown_isolated [simp]:
  "cn_isolated (teardown_sessions s) = cn_isolated s" "cn_closed (teardown_sessions s) = cn_closed s"
  "cn_options (teardown_sessions s) = cn_options s"
  by (simp_all add: teardown_sessions_def settle_pull_iterators_def Let_def)

lemma entry_isolated [simp]:
  "cn_isolated (set_sub k v s) = cn_isolated s" "cn_closed (set_sub k v s) = cn_closed s" "cn_hooks (set_sub k v s) = cn_hooks s"
  "cn_isolated (sub_unsubscribe n s) = cn_isolated s" "cn_closed (sub_unsubscribe n s) = cn_closed s"
  "cn_hooks (sub_unsubscribe n s) = cn_hooks s"
  "cn_entries (new_chunking s) = cn_entries s" "cn_isolated (new_chunking s) = cn_isolated s" "cn_closed (new_chunking s) = cn_closed s" "cn_hooks (new_chunking s) = cn_hooks s"
  "cn_isolated (new_entry p h a q r s) = cn_isolated s" "cn_closed (new_entry p h a q r s) = cn_closed s"
  by (simp_all add: set_sub_def sub_unsubscribe_def new_chunking_def new_entry_def Let_def)

lemma nats_subscribe_isolated [simp]:
  "cn_isolated (fst (nats_subscribe r k s)) = cn_isolated s" "cn_closed (fst (nats_subscribe r k s)) = cn_closed s"
  by (auto simp: nats_subscribe_def split: option.split)

lemma funpow_fixed: "g x = x \<Longrightarrow> (g ^^ n) x = x"
  by (induction n) simp_all

lemma funpow_Suc: "(g ^^ Suc n) x = (g ^^ n) (g x)"
  by (simp add: funpow_swap1)

lemma nats_subscribe_pair: "nats_subscribe r k s = (t, e) \<Longrightarrow> cn_isolated t = cn_isolated s"
  using nats_subscribe_isolated(1) [of r k s] by simp

text \<open>
  What both teardowns are: a loop over the entries whose rounds take one step or two and touch nothing but
  the entry, then two steps after which nothing happens any more.
\<close>

definition same_family :: "connection \<Rightarrow> connection \<Rightarrow> bool" where
  "same_family s t \<longleftrightarrow> cn_isolated t = cn_isolated s \<and> cn_hooks t = cn_hooks s \<and> cn_closed t = cn_closed s"

locale teardown_loop =
  fixes advance :: "connection \<Rightarrow> connection"
    and at :: "nat list \<Rightarrow> lifecycle"
    and over :: "connection \<Rightarrow> connection \<Rightarrow> bool"
  assumes entry_round: "cn_phase s = at (k # ks) \<Longrightarrow> cn_phase (advance s) = at ks \<and> same_family s (advance s) \<or>
      cn_phase (advance (advance s)) = at ks \<and> same_family s (advance (advance s))"
    and last_round: "cn_phase s = at [] \<Longrightarrow> over s (advance (advance s))"
    and over_stays: "over s t \<Longrightarrow> advance t = t"
    and over_same: "same_family s t \<Longrightarrow> over t u \<Longrightarrow> over s u"
begin

lemma loop_over: "cn_phase s = at ks \<Longrightarrow> 2 * length ks + 2 \<le> n \<Longrightarrow> over s ((advance ^^ n) s)"
proof (induction ks arbitrary: s n)
  case Nil
  define m where "m = n - 2"
  have n: "n = Suc (Suc m)" using Nil.prems(2) by (simp add: m_def)
  note o = last_round [OF Nil.prems(1)]
  show ?case using o funpow_fixed [of advance, OF over_stays [OF o], of m] unfolding n funpow_Suc by simp
next
  case (Cons k ks)
  define m where "m = n - 2"
  have n: "n = Suc (Suc m)" "2 * length ks + 2 \<le> Suc m" "2 * length ks + 2 \<le> m" using Cons.prems(2) by (simp_all add: m_def)
  from entry_round [OF Cons.prems(1)] show ?case
  proof
    assume "cn_phase (advance s) = at ks \<and> same_family s (advance s)"
    then show ?thesis using Cons.IH [OF _ n(2)] over_same unfolding n(1) funpow_Suc [of "Suc m"] by blast
  next
    assume "cn_phase (advance (advance s)) = at ks \<and> same_family s (advance (advance s))"
    then show ?thesis using Cons.IH [OF _ n(3)] over_same unfolding n(1) funpow_Suc by blast
  qed
qed

end

definition torn_down :: "connection \<Rightarrow> connection \<Rightarrow> bool" where
  "torn_down s t \<longleftrightarrow> cn_phase t = Idle \<and> cn_nc t = None \<and> cn_closed t = cn_closed s \<and>
     cn_hooks t = cn_hooks s @ map Disconnect_Client (cn_isolated s)"

interpretation disconnecting_loop: teardown_loop disconnect_next Disconnecting
  "\<lambda>s t. torn_down s t \<and> cn_entries t = [] \<and> cn_isolated t = []"
  by unfold_locales
    (auto simp: disconnect_next_def disconnect_isolated_def torn_down_def same_family_def split: option.split)

interpretation suspending_loop: teardown_loop suspend_next Suspending
  "\<lambda>s t. torn_down s t \<and> cn_isolated t = cn_isolated s"
  by unfold_locales
    (auto simp: suspend_next_def disconnect_isolated_def torn_down_def same_family_def split: option.split)

lemma teardown_whole:
  assumes "cn_phase s = Idle"
  shows "disconnect_whole s = (disconnect_next ^^ (2 * length (cn_entries s) + 2)) (disconnect_begin s)"
    "suspend_whole s = (suspend_next ^^ (2 * length (cn_entries s) + 2)) (suspend_begin s)"
proof -
  have "conn_step Disconnect_Next = disconnect_next" "conn_step Suspend_Next = suspend_next" by auto
  then show "disconnect_whole s = (disconnect_next ^^ (2 * length (cn_entries s) + 2)) (disconnect_begin s)"
    "suspend_whole s = (suspend_next ^^ (2 * length (cn_entries s) + 2)) (suspend_begin s)"
    using assms by (simp_all only: disconnect_whole_def suspend_whole_def conn_step.simps simp_thms if_True)
qed

lemma teardown_begin:
  "cn_phase (disconnect_begin s) = Disconnecting (cn_entries s)" "cn_isolated (disconnect_begin s) = cn_isolated s"
  "cn_closed (disconnect_begin s)" "cn_phase (suspend_begin s) = Suspending (cn_entries s)"
  "cn_isolated (suspend_begin s) = cn_isolated s"
  by (simp_all add: disconnect_begin_def suspend_begin_def Let_def)

lemma teardown_disconnects:
  assumes "torn_down (disconnect_begin s) t \<or> torn_down (suspend_begin s) t"
  shows "disconnected_by s t = cn_isolated s"
proof -
  obtain hs where "cn_hooks t = cn_hooks s @ hs @ map Disconnect_Client (cn_isolated s)" "\<forall>k. Disconnect_Client k \<notin> set hs"
    using assms by (fastforce simp: torn_down_def disconnect_begin_def suspend_begin_def teardown_hooks Let_def)
  moreover have "[k. Disconnect_Client k \<leftarrow> hs] = []" if "\<forall>k. Disconnect_Client k \<notin> set hs" for hs
    using that by (induction hs) (auto split: session_hook.split)
  moreover have "[k. Disconnect_Client k \<leftarrow> map Disconnect_Client ks] = ks" for ks by (induction ks) auto
  ultimately show ?thesis by (simp add: disconnected_by_def)
qed

lemma disconnect_whole_ends:
  assumes "cn_phase s = Idle"
  shows "dead (disconnect_whole s)" "cn_phase (disconnect_whole s) = Idle" "cn_isolated (disconnect_whole s) = []"
    "disconnected_by s (disconnect_whole s) = cn_isolated s"
proof -
  have t: "torn_down (disconnect_begin s) (disconnect_whole s) \<and> cn_entries (disconnect_whole s) = [] \<and>
      cn_isolated (disconnect_whole s) = []"
    unfolding teardown_whole [OF assms] by (rule disconnecting_loop.loop_over [OF teardown_begin(1) order_refl])
  then show "dead (disconnect_whole s)" "cn_phase (disconnect_whole s) = Idle" "cn_isolated (disconnect_whole s) = []"
    by (simp_all add: dead_def torn_down_def teardown_begin)
  show "disconnected_by s (disconnect_whole s) = cn_isolated s" using t teardown_disconnects by blast
qed

lemma suspend_whole_ends:
  assumes "cn_phase s = Idle"
  shows "cn_phase (suspend_whole s) = Idle" "cn_isolated (suspend_whole s) = cn_isolated s"
    "disconnected_by s (suspend_whole s) = cn_isolated s"
proof -
  have t: "torn_down (suspend_begin s) (suspend_whole s) \<and> cn_isolated (suspend_whole s) = cn_isolated (suspend_begin s)"
    unfolding teardown_whole [OF assms] by (rule suspending_loop.loop_over [OF teardown_begin(4) order_refl])
  then show "cn_phase (suspend_whole s) = Idle" "cn_isolated (suspend_whole s) = cn_isolated s"
    by (simp_all add: torn_down_def teardown_begin)
  show "disconnected_by s (suspend_whole s) = cn_isolated s" using t teardown_disconnects by blast
qed

text \<open>The restore loop ends as well: every round takes an entry, an exception ends it.\<close>

lemma restore_loop:
  assumes "cn_phase s = Restoring ks" "length ks < n"
  shows "cn_phase ((conn_step Restore_Next ^^ n) s) = Idle \<and> cn_isolated ((conn_step Restore_Next ^^ n) s) = cn_isolated s"
  using assms
proof (induction n arbitrary: s ks)
  case (Suc n)
  let ?t = "conn_step Restore_Next s"
  have i: "cn_isolated ?t = cn_isolated s"
    by (auto simp: restore_next_def split: lifecycle.split list.split prod.split option.split dest: nats_subscribe_pair)
  have "cn_phase ?t = Idle \<or> (\<exists>k ks'. ks = k # ks' \<and> cn_phase ?t = Restoring ks')"
    using Suc.prems(1) by (cases ks) (auto simp: restore_next_def split: prod.split option.split)
  then show ?case
  proof
    assume "cn_phase ?t = Idle"
    moreover from this have "conn_step Restore_Next ?t = ?t" by (simp add: restore_next_def del: One_nat_def)
    ultimately show ?thesis using i funpow_fixed [of "conn_step Restore_Next" ?t n] unfolding funpow_Suc by simp
  next
    assume "\<exists>k ks'. ks = k # ks' \<and> cn_phase ?t = Restoring ks'"
    then show ?thesis using Suc.IH [of ?t] Suc.prems(2) i unfolding funpow_Suc by fastforce
  qed
qed simp

lemma connect_whole_ends:
  assumes "cn_phase s = Idle"
  shows "cn_phase (fst (connect_whole server s)) = Idle \<and> cn_isolated (fst (connect_whole server s)) = cn_isolated s"
proof (cases server)
  case (Inr mp)
  let ?t = "conn_step (Connected mp) (conn_step Connect_Start s)"
  have "cn_phase ?t = Restoring (cn_entries ?t)" "cn_isolated ?t = cn_isolated s"
    using assms by (simp_all add: on_connected_def register_mux_entry_def Let_def split: option.split)
  then show ?thesis using restore_loop [of ?t "cn_entries ?t" "Suc (length (cn_entries ?t))"] assms Inr
    by (simp add: connect_whole_def Let_def del: conn_step.simps funpow.simps)
qed (use assms in \<open>simp add: connect_whole_def\<close>)

lemma fst_subscribe:
  "fst (subscribe refuse p h a q s) = (if cn_nc s = None then s
     else let t = new_entry p (User_Handler h) a q False s in fst (nats_subscribe refuse (cn_seq t) t))"
  by (simp add: subscribe_def Let_def split: prod.split option.split)

lemma application_keeps:
  assumes "application_event ev"
  shows "cn_phase (conn_step ev s) = cn_phase s \<and> cn_isolated (conn_step ev s) = cn_isolated s \<and>
    (dead s \<longrightarrow> dead (conn_step ev s))"
proof (cases ev)
  case (Subscribe p h a q)
  then show ?thesis by (simp add: fst_subscribe dead_def Let_def)
next
  case (Unsubscribe k)
  then show ?thesis by (simp add: unsubscribe_def dead_def Let_def split: option.split)
next
  case (Finish k n)
  then show ?thesis by (simp add: on_finish_def dead_def)
qed (use assms in simp_all)

section \<open>A family keeps track of its clients\<close>

text \<open>
  Every isolated client is in the list of the parent, or was disconnected for good.
\<close>

definition family_ok :: "client_family \<Rightarrow> bool" where
  "family_ok f \<longleftrightarrow> cn_phase (cf_parent f) = Idle \<and> distinct (cn_isolated (cf_parent f)) \<and>
     (\<forall>k \<in> set (cn_isolated (cf_parent f)). k < cf_next f) \<and> (\<forall>k. cf_clients f k \<noteq> None \<longrightarrow> k < cf_next f) \<and>
     (\<forall>k c. cf_clients f k = Some c \<longrightarrow> cn_phase c = Idle \<and> (dead c \<or> k \<in> set (cn_isolated (cf_parent f))))"

text \<open>Using a client, and moving the parent on without touching the list.\<close>

lemma family_ok_client:
  assumes "family_ok f" "\<And>c. cf_clients f k = Some c \<Longrightarrow> cn_phase c = Idle \<Longrightarrow> cn_phase (g c) = Idle \<and> (dead c \<longrightarrow> dead (g c))"
  shows "family_ok (on_client k g f)"
  using assms by (fastforce simp: family_ok_def on_client_def)

lemma family_ok_parent:
  assumes "family_ok f" "cn_phase p = Idle" "cn_isolated p = cn_isolated (cf_parent f)"
  shows "family_ok (f\<lparr>cf_parent := p\<rparr>)"
  using assms by (simp add: family_ok_def)

lemma disconnect_clients:
  "cf_parent (fold (\<lambda>k. on_client k disconnect_whole) ks f) = cf_parent f"
  "cf_next (fold (\<lambda>k. on_client k disconnect_whole) ks f) = cf_next f"
  "distinct ks \<Longrightarrow> cf_clients (fold (\<lambda>k. on_client k disconnect_whole) ks f) k =
     (if k \<in> set ks then map_option disconnect_whole (cf_clients f k) else cf_clients f k)"
  by (induction ks arbitrary: f) (auto simp: on_client_def)

lemma close_ok: "family_ok f \<Longrightarrow> family_ok (close_isolated_client k f)"
  using disconnect_whole_ends by (fastforce simp: family_ok_def close_isolated_client_def on_client_def Let_def)

lemma teardown_family_ok:
  assumes "family_ok f" "cn_phase (teardown (cf_parent f)) = Idle"
    and ends: "disconnected_by (cf_parent f) (teardown (cf_parent f)) = cn_isolated (cf_parent f)"
    and kept: "cn_isolated (teardown (cf_parent f)) \<in> {cn_isolated (cf_parent f), []}"
  defines "f' \<equiv> teardown_family teardown f"
  shows "family_ok f'" "cf_clients f' k = Some c \<Longrightarrow> dead c" "cf_parent f' = teardown (cf_parent f)"
    "cf_clients f' k = None \<longleftrightarrow> cf_clients f k = None"
proof -
  have i: "cn_phase (cf_parent f) = Idle" "distinct (cn_isolated (cf_parent f))" using assms by (simp_all add: family_ok_def)
  have c: "cf_clients f' k = (if k \<in> set (cn_isolated (cf_parent f)) then map_option disconnect_whole (cf_clients f k)
      else cf_clients f k)" for k
    using ends i(2) by (simp add: f'_def teardown_family_def Let_def disconnect_clients)
  show p: "cf_parent f' = teardown (cf_parent f)"
    by (simp add: f'_def teardown_family_def Let_def disconnect_clients)
  have n: "cf_next f' = cf_next f"
    by (simp add: f'_def teardown_family_def Let_def disconnect_clients)
  have d: "dead c \<and> cn_phase c = Idle" if "cf_clients f' k = Some c" for k c
    using that assms(1) disconnect_whole_ends by (auto simp: c family_ok_def split: if_splits)
  then show "cf_clients f' k = Some c \<Longrightarrow> dead c" by blast
  show "cf_clients f' k = None \<longleftrightarrow> cf_clients f k = None" by (simp add: c)
  show "family_ok f'" using assms(1,2) kept d by (auto simp: family_ok_def p n c split: if_splits)
qed

lemma parent_teardown_ok:
  assumes "family_ok f" "teardown \<in> {suspend_whole, disconnect_whole}"
  shows "family_ok (teardown_family teardown f)" "cf_clients (teardown_family teardown f) k = Some c \<Longrightarrow> dead c"
    "cf_parent (teardown_family teardown f) = teardown (cf_parent f)"
    "cf_clients (teardown_family teardown f) k = None \<longleftrightarrow> cf_clients f k = None"
proof -
  have i: "cn_phase (cf_parent f) = Idle" using assms(1) by (simp add: family_ok_def)
  note ok = teardown_family_ok [OF assms(1), of teardown]
  show "family_ok (teardown_family teardown f)" "cf_clients (teardown_family teardown f) k = Some c \<Longrightarrow> dead c"
    "cf_parent (teardown_family teardown f) = teardown (cf_parent f)"
    "cf_clients (teardown_family teardown f) k = None \<longleftrightarrow> cf_clients f k = None"
    using assms(2) ok suspend_whole_ends [OF i] disconnect_whole_ends [OF i] by auto
qed

text \<open>Opening a client: whatever the order of tracking and connecting, a client that is not dead is tracked.\<close>

lemma create_track_ok:
  assumes "family_ok f" "create_isolated_client opts rnd f = (k, f')"
  shows "family_ok (track k f')" "cf_clients f' k = Some (new_client opts rnd)" "k = cf_next f"
    "cf_parent f' = cf_parent f" "cf_clients f' = (cf_clients f)(k \<mapsto> new_client opts rnd)" "cf_next f' = Suc k"
    "cf_clients f k = None" "k \<notin> set (cn_isolated (cf_parent f))"
proof -
  have f': "k = cf_next f" "f' = f\<lparr>cf_clients := (cf_clients f)(k \<mapsto> new_client opts rnd), cf_next := Suc k\<rparr>"
    using assms(2) by (auto simp: create_isolated_client_def)
  then show "k = cf_next f" "cf_clients f' k = Some (new_client opts rnd)" "cf_parent f' = cf_parent f"
    "cf_clients f' = (cf_clients f)(k \<mapsto> new_client opts rnd)" "cf_next f' = Suc k" by simp_all
  show fresh: "cf_clients f k = None" "k \<notin> set (cn_isolated (cf_parent f))"
    using assms(1) unfolding family_ok_def f'(1) by blast+
  have "cn_phase (new_client opts rnd) = Idle" by (simp add: new_client_def)
  then show "family_ok (track k f')"
    using assms(1) fresh f'(1) unfolding f'(2) track_def family_ok_def by (auto simp: less_Suc_eq)
qed

lemma connect_client_ok:
  assumes "family_ok f" "cf_clients f k = Some c" "\<not> dead c"
  shows "family_ok (fst (connect_client server k f))"
  using assms connect_whole_ends [of c server]
  by (auto simp: connect_client_def family_ok_def on_client_def)

lemma connect_track: "connect_client server k (track j f) = (track j (fst (connect_client server k f)), snd (connect_client server k f))"
  by (simp add: connect_client_def track_def on_client_def split: option.split)

lemma new_not_dead: "\<not> dead (new_client opts rnd)"
  by (simp add: dead_def new_client_def)

lemma open_ok:
  assumes "family_ok f"
  shows "family_ok (fst (open_isolated_client use rnd server f))"
proof -
  let ?opts = "isolated_options use (cn_options (cf_parent f))"
  obtain k f' where c: "create_isolated_client ?opts rnd f = (k, f')" by fastforce
  note t = create_track_ok [OF assms c]
  have ok: "family_ok (fst (connect_client server k (track k f')))"
    using t(1,2) by (intro connect_client_ok [OF t(1)]) (auto simp: track_def new_not_dead)
  have drop: "family_ok (f\<lparr>cf_next := Suc k\<rparr>)" using assms t(3) by (auto simp: family_ok_def less_Suc_eq)
  have forgotten: "(fst (connect_client server k f'))\<lparr>cf_clients := (cf_clients (fst (connect_client server k f')))(k := None)\<rparr>
      = f\<lparr>cf_next := Suc k\<rparr>"
    using t by (auto simp: connect_client_def on_client_def intro!: client_family.equality ext)
  obtain g e where g: "connect_client server k f' = (g, e)" by fastforce
  show ?thesis
    using ok drop forgotten t(1) c connect_track [of server k k f'] unfolding g
    by (simp add: g open_isolated_client_def split: isolated_use.split prod.splits option.splits)
qed

lemma family_step_ok: "family_ok f \<Longrightarrow> family_ok (family_step ev f)"
proof (cases ev)
  case (Auto_Connect k server)
  moreover assume "family_ok f"
  ultimately show ?thesis
    using connect_whole_ends by (auto simp: auto_connect_def dead_def intro!: family_ok_client)
next
  case (On_Isolated k e)
  moreover assume "family_ok f"
  ultimately show ?thesis using application_keeps by (auto intro!: family_ok_client)
next
  case (On_Parent e)
  moreover assume "family_ok f"
  ultimately show ?thesis using application_keeps by (auto intro!: family_ok_parent simp: family_ok_def)
next
  case (Parent_Connect server)
  moreover assume "family_ok f"
  ultimately show ?thesis using connect_whole_ends by (auto intro!: family_ok_parent simp: family_ok_def)
qed (auto intro: open_ok close_ok parent_teardown_ok(1))

lemma family_run_ok: "family_ok (fold family_step evs (new_family options rnd))"
proof -
  have "family_ok (new_family options rnd)" by (simp add: new_family_def family_ok_def new_client_def)
  then show ?thesis by (induction evs rule: rev_induct) (simp_all add: family_step_ok del: family_step.simps)
qed

text \<open>What is dead stays so: nothing of the program connects a client again that was disconnected.\<close>

definition dead_client :: "nat \<Rightarrow> client_family \<Rightarrow> bool" where
  "dead_client k f \<longleftrightarrow> (case cf_clients f k of Some c \<Rightarrow> dead c | None \<Rightarrow> False)"

lemma dead_on_client:
  "dead_client k f \<Longrightarrow> (\<And>c. cf_clients f j = Some c \<Longrightarrow> dead c \<Longrightarrow> dead (g c)) \<Longrightarrow> dead_client k (on_client j g f)"
  by (auto simp: dead_client_def on_client_def split: option.splits)

lemma dead_open:
  assumes "family_ok f" "dead_client k f"
  shows "dead_client k (fst (open_isolated_client use rnd server f))"
proof -
  let ?opts = "isolated_options use (cn_options (cf_parent f))"
  obtain j f' where c: "create_isolated_client ?opts rnd f = (j, f')" by fastforce
  note t = create_track_ok [OF assms(1) c]
  have j: "j \<noteq> k" using assms(2) t(7) by (auto simp: dead_client_def)
  obtain g e where g: "connect_client server j f' = (g, e)" by fastforce
  have "cf_clients g k = cf_clients f k"
    using g t(5) j by (auto simp: connect_client_def on_client_def)
  then show ?thesis
    using assms(2) j t(5) c g connect_track [of server j j f']
    by (simp add: open_isolated_client_def dead_client_def track_def split: isolated_use.split prod.splits option.splits)
qed

lemma dead_step:
  assumes "family_ok f" "dead_client k f"
  shows "dead_client k (family_step ev f)"
proof (cases ev)
  case (Close_Isolated j)
  have "dead (disconnect_whole c)" if "cf_clients f j = Some c" for c
    using that assms(1) disconnect_whole_ends(1) by (auto simp: family_ok_def)
  then have "dead_client k (on_client j disconnect_whole f)" using dead_on_client [OF assms(2)] by blast
  then show ?thesis by (simp add: Close_Isolated close_isolated_client_def dead_client_def Let_def)
next
  case (Auto_Connect j server)
  then show ?thesis using assms(2) by (auto simp: auto_connect_def dead_def intro!: dead_on_client)
next
  case (On_Isolated j e)
  then show ?thesis using assms(2) application_keeps by (auto intro!: dead_on_client)
next
  case Parent_Suspend
  then show ?thesis using assms(2) parent_teardown_ok(2,4) [OF assms(1), of suspend_whole k]
    by (auto simp: dead_client_def split: option.splits)
next
  case Parent_Disconnect
  then show ?thesis using assms(2) parent_teardown_ok(2,4) [OF assms(1), of disconnect_whole k]
    by (auto simp: dead_client_def split: option.splits)
qed (use assms in \<open>auto simp: dead_client_def intro: dead_open [unfolded dead_client_def]\<close>)

lemma dead_run: "family_ok f \<Longrightarrow> dead_client k f \<Longrightarrow> dead_client k (fold family_step evs f)"
  by (induction evs arbitrary: f) (simp_all add: dead_step family_step_ok del: family_step.simps)

lemma isolated_owned:
  assumes ok: "family_ok f"
  shows "pred_option (\<lambda>c. cn_nc c = None \<or> k \<in> set (cn_isolated (cf_parent f))) (cf_clients f k)"
    and "pred_option (\<lambda>_. dead_client k (close_isolated_client k f)) (cf_clients f k)"
    and "k \<notin> set (cn_isolated (cf_parent (close_isolated_client k f)))"
    and "pred_option (\<lambda>c. cn_closed c \<and> cn_nc c = None \<and> registered c = Map.empty)
      (cf_clients (teardown_family disconnect_whole f) k)"
    and "cn_isolated (cf_parent (teardown_family disconnect_whole f)) = []"
proof -
  show "pred_option (\<lambda>c. cn_nc c = None \<or> k \<in> set (cn_isolated (cf_parent f))) (cf_clients f k)"
    using ok by (auto simp: family_ok_def dead_def pred_option_def)
  show "pred_option (\<lambda>_. dead_client k (close_isolated_client k f)) (cf_clients f k)"
    using ok disconnect_whole_ends(1)
    by (auto simp: pred_option_def family_ok_def close_isolated_client_def on_client_def dead_client_def Let_def)
  show "k \<notin> set (cn_isolated (cf_parent (close_isolated_client k f)))"
    using ok by (simp add: family_ok_def close_isolated_client_def on_client_def Let_def)
  note down = parent_teardown_ok [OF ok, of disconnect_whole]
  show "pred_option (\<lambda>c. cn_closed c \<and> cn_nc c = None \<and> registered c = Map.empty)
      (cf_clients (teardown_family disconnect_whole f) k)"
    using down(2) dead_registered by (fastforce simp: pred_option_def dead_def)
  show "cn_isolated (cf_parent (teardown_family disconnect_whole f)) = []"
    using down(3) disconnect_whole_ends(3) ok by (simp add: family_ok_def)
qed


text \<open>
  A suspend keeps the subscriptions of the client itself, but disconnects its isolated clients, and
  whatever happens afterwards none of them comes back: their handlers and channels are gone after a resume.
\<close>

lemma suspend_ends_isolated:
  fixes options rnd evs
  defines "f \<equiv> fold family_step evs (new_family options rnd)"
  shows "pred_option (\<lambda>c. dead_client k (fold family_step evs' (family_step Parent_Suspend f))) (cf_clients f k)"
proof -
  have ok: "family_ok f" unfolding f_def by (rule family_run_ok)
  note susp = parent_teardown_ok(2,4) [OF ok, of suspend_whole k]
  have "dead_client k (family_step Parent_Suspend f)" if "cf_clients f k = Some c" for c
    using susp that by (auto simp: dead_client_def split: option.splits)
  then show ?thesis using dead_run [OF family_step_ok [OF ok]] by (auto simp: pred_option_def simp del: family_step.simps)
qed

section \<open>Handlers on an isolated connection\<close>

lemma connect_whole_new:
  fixes max_payload opts rnd
  defines "c \<equiv> connect_whole (Inr max_payload) (new_client opts rnd)"
  shows "\<exists>evs. calm_run opts rnd evs (fst c)" "cn_phase (fst c) = Idle" "cn_nc (fst c) \<noteq> None" "snd c = None"
proof -
  let ?t = "conn_step (Connected max_payload) (conn_step Connect_Start (new_client opts rnd))"
  let ?n = "Suc (length (cn_entries ?t))"
  have n: "cn_nc (new_client opts rnd) = None" "cn_phase (new_client opts rnd) = Idle" by (simp_all add: new_client_def)
  have c: "c = ((conn_step Restore_Next ^^ ?n) ?t, None)" by (simp add: c_def connect_whole_def n Let_def)
  have "calm_all (replicate m Restore_Next) s" for m s by (induction m arbitrary: s) (simp_all add: calm_def)
  then have "calm_all (Connect_Start # Connected max_payload # replicate ?n Restore_Next) (new_client opts rnd)"
    using n by (simp add: calm_def del: replicate.simps conn_step.simps)
  from calm_run_fold [OF calm_new this] show "\<exists>evs. calm_run opts rnd evs (fst c)"
    by (auto simp: c fold_replicate simp del: replicate.simps conn_step.simps funpow.simps)
  show "cn_phase (fst c) = Idle" using connect_whole_ends [OF n(2)] by (simp add: c_def)
  have step: "cn_nc (conn_step Restore_Next s) = cn_nc s" for s
    by (auto simp: restore_next_def split: lifecycle.split list.split prod.split option.split dest: arg_cong [of _ _ "\<lambda>x. cn_nc (fst x)"])
  have "cn_nc ((conn_step Restore_Next ^^ m) s) = cn_nc s" for m s by (induction m) (simp_all add: step del: conn_step.simps)
  moreover have "cn_nc ?t \<noteq> None" by (simp add: n on_connected_def register_mux_entry_def Let_def split: option.split)
  ultimately show "cn_nc (fst c) \<noteq> None" by (simp add: c del: conn_step.simps funpow.simps)
  show "snd c = None" by (simp add: c)
qed

text \<open>
  Registering on an isolated connection makes the handlers reachable as registering on the client itself does, on a new
  client that the parent tracks; the function that takes them back leaves that client dead and the list as it was.
\<close>

lemma isolated_handlers_reachable:
  assumes ok: "family_ok f" and conn: "cn_nc (cf_parent f) \<noteq> None"
    and hs: "handlers_map without_decorators heap obj = Some hs"
  shows "\<exists>f' k keys c. register_isolated (\<lambda>_. None) ns queue without_decorators heap obj rnd (Inr max_payload) f
      = Some (f', Inr (k, keys)) \<and>
    cf_clients f k = None \<and> cf_clients f' k = Some c \<and> k \<in> set (cn_isolated (cf_parent f')) \<and> length keys = length hs \<and>
    (\<forall>j < length hs. live c (keys ! j) \<and> registered c (keys ! j) =
       Some (proxy_subject \<lparr>px_namespace = ns, px_path = [], px_cache = None\<rparr> (split_on (CHR 0x2E) (fst (hs ! j))), User_Handler j, queue)) \<and>
    dead_client k (unregister_isolated k keys f') \<and>
    cn_isolated (cf_parent (unregister_isolated k keys f')) = cn_isolated (cf_parent f)"
proof -
  let ?opts = "isolated_options (For_Handlers ns) (cn_options (cf_parent f))"
  obtain k f1 where c: "create_isolated_client ?opts rnd f = (k, f1)" by fastforce
  note t = create_track_ok [OF ok c]
  let ?c = "fst (connect_whole (Inr max_payload) (new_client ?opts rnd))"
  obtain evs where "calm_run ?opts rnd evs ?c" using connect_whole_new(1) by blast
  from subscribe_handlers_live [OF this connect_whole_new(2,3), of ns queue hs] obtain c' keys where
    sub: "subscribe_handlers (\<lambda>_. None) ns queue (List.enumerate 0 (map fst hs)) ?c = (c', Inr keys)" "length keys = length hs"
      "cn_phase c' = Idle" "\<forall>j < length hs. live c' (keys ! j) \<and> registered c' (keys ! j) =
       Some (proxy_subject \<lparr>px_namespace = ns, px_path = [], px_cache = None\<rparr> (split_on (CHR 0x2E) (fst (hs ! j))), User_Handler j, queue)"
    by blast
  define f2 where "f2 = track k (on_client k (\<lambda>_. ?c) f1)"
  have opened: "open_isolated_client (For_Handlers ns) rnd (Inr max_payload) f = (f2, Inr k)"
    using connect_whole_new(4) t(2) by (simp add: open_isolated_client_def c connect_client_def f2_def)
  let ?f' = "on_client k (\<lambda>_. c') f2"
  have f': "cf_clients f2 k = Some ?c" "cf_clients ?f' k = Some c'" "cf_parent ?f' = cf_parent f2"
    "cn_isolated (cf_parent f2) = cn_isolated (cf_parent f) @ [k]"
    using t(2,4) by (simp_all add: f2_def on_client_def track_def)
  have "cn_phase (unsubscribe_handlers keys c') = Idle" for keys
    using sub(3) by (induction keys arbitrary: c') (simp_all add: unsubscribe_handlers_def unsubscribe_def Let_def split: option.split)
  then have "dead_client k (unregister_isolated k keys ?f')"
    "cn_isolated (cf_parent (unregister_isolated k keys ?f')) = cn_isolated (cf_parent f)"
    using disconnect_whole_ends(1) f' t(8)
    by (simp_all add: unregister_isolated_def close_isolated_client_def on_client_def dead_client_def Let_def remove1_append)
  moreover have "register_isolated (\<lambda>_. None) ns queue without_decorators heap obj rnd (Inr max_payload) f = Some (?f', Inr (k, keys))"
    using conn hs sub(1) f'(1) opened by (simp add: register_isolated_def)
  moreover have "k \<in> set (cn_isolated (cf_parent ?f'))" using f' by simp
  ultimately show ?thesis using sub(2,4) f'(2) t(7) by blast
qed

end
