(* ===== verification/Networks.thy ===== *)
theory Networks
  imports Prelude
begin

text \<open>
  The contract of a closed system of a client, a server and the messages between them: a relation of
  steps in any interleaving, an invariant that every step keeps, a measure that every step lowers, and
  always some step to do until the client's loop is over. Pull iterators and push streams are
  interpretations; that their runs are bounded and end is proved here once.
\<close>

locale network =
  fixes step :: "'n \<Rightarrow> 'n \<Rightarrow> bool"
    and ok :: "'n \<Rightarrow> bool"
    and weight :: "'n \<Rightarrow> nat"
    and over :: "'n \<Rightarrow> bool"
  assumes ok_step: "ok n \<Longrightarrow> step n n' \<Longrightarrow> ok n'"
    and step_lowers: "ok n \<Longrightarrow> step n n' \<Longrightarrow> weight n' < weight n"
    and step_exists: "ok n \<Longrightarrow> \<not> over n \<Longrightarrow> \<exists>n'. step n n'"
begin

lemma ok_reachable: "step\<^sup>*\<^sup>* n n' \<Longrightarrow> ok n \<Longrightarrow> ok n'"
  by (induction rule: rtranclp_induct) (auto intro: ok_step)

lemma run_weight: "(step ^^ k) n n' \<Longrightarrow> ok n \<Longrightarrow> k + weight n' \<le> weight n"
proof (induction k arbitrary: n')
  case (Suc k)
  then obtain m where m: "(step ^^ k) n m" "step m n'" by (auto elim: relpowp_Suc_E)
  then have "ok m" using ok_reachable relpowp_imp_rtranclp Suc.prems(2) by metis
  then have "weight n' < weight m" using m(2) by (rule step_lowers)
  then show ?case using Suc.IH [OF m(1) Suc.prems(2)] by simp
qed simp

lemma run_ends:
  assumes "(step ^^ k) n n'" "ok n"
  shows "k \<le> weight n \<and> ((\<exists>n''. step n' n'') \<or> over n')"
proof -
  have "ok n'" using assms ok_reachable relpowp_imp_rtranclp by metis
  then show ?thesis using step_exists run_weight [OF assms] by auto
qed

text \<open>So a run that goes on for as long as it can gets to the end of the client's loop.\<close>

lemma gets_over:
  assumes "ok n"
  shows "\<exists>k n'. k \<le> weight n \<and> (step ^^ k) n n' \<and> over n'"
  using assms
proof (induction "weight n" arbitrary: n rule: less_induct)
  case less
  show ?case
  proof (cases "over n")
    case True
    then have "0 \<le> weight n \<and> (step ^^ 0) n n \<and> over n" by simp
    then show ?thesis by blast
  next
    case False
    then obtain m where m: "step n m" using step_exists less.prems by blast
    note lower = step_lowers [OF less.prems m]
    obtain k n' where k: "k \<le> weight m" "(step ^^ k) m n'" "over n'"
      using less.hyps [OF lower ok_step [OF less.prems m]] by blast
    have "(step ^^ Suc k) n n'" using m k(2) by (rule relpowp_Suc_I2)
    moreover have "Suc k \<le> weight n" using k(1) lower by simp
    ultimately show ?thesis using k(3) by blast
  qed
qed

end

end
