(* ===== verification/Stream_End.thy ===== *)
theory Stream_End
  imports Streams Networks
begin

text \<open>
  Push streams end to end: the server's loop and the client's consumer, joined by a network that
  delivers the messages of the stream in the order of publishing, and the client's cancel messages.
\<close>

section \<open>The joined system\<close>

record 'g stream_net =
  sn_client :: stream_client
  sn_server :: "'g stream_session"
  sn_delivered :: nat
  sn_cancels :: nat

text \<open>The request has been published and handled.\<close>

definition stream_net_init :: "string \<Rightarrow> string \<Rightarrow> 'g \<Rightarrow> 'g stream_net" where
  "stream_net_init subject rid g = \<lparr>sn_client = stream_client_step subject rid (SC_Published None) start_stream,
     sn_server = open_stream g, sn_delivered = 0, sn_cancels = 0\<rparr>"

fun stream_sending :: "stream_phase \<Rightarrow> bool" where
  "stream_sending (S_Sending _) = True"
| "stream_sending S_Sending_End = True"
| "stream_sending (S_Sending_Error _) = True"
| "stream_sending _ = False"

inductive stream_net_step :: "(exc \<Rightarrow> string) \<Rightarrow> ('g \<Rightarrow> gen_event \<times> 'g) \<Rightarrow> ('g \<Rightarrow> exc option \<times> 'g) \<Rightarrow> string \<Rightarrow> string
    \<Rightarrow> 'g stream_net \<Rightarrow> 'g stream_net \<Rightarrow> bool"
  for str anext aclose subject rid where
  server_runs: "sx_phase (sn_server n) = S_Next \<Longrightarrow>
    stream_net_step str anext aclose subject rid n
      (n\<lparr>sn_server := stream_step str anext aclose Stream_Resumes (sn_server n)\<rparr>)"
| server_publishes: "stream_sending (sx_phase (sn_server n)) \<Longrightarrow>
    stream_net_step str anext aclose subject rid n
      (n\<lparr>sn_server := stream_step str anext aclose (Stream_Published None) (sn_server n)\<rparr>)"
| message_delivered: "sn_delivered n < length (sx_sent (sn_server n)) \<Longrightarrow>
    stream_net_step str anext aclose subject rid n
      (n\<lparr>sn_client := stream_client_step subject rid
            (SC_Message (stream_msg rid (sx_sent (sn_server n) ! sn_delivered n))) (sn_client n),
         sn_delivered := Suc (sn_delivered n)\<rparr>)"
| cancel_delivered: "sn_cancels n < sc_cancels (sn_client n) \<Longrightarrow>
    stream_net_step str anext aclose subject rid n
      (n\<lparr>sn_server := stream_step str anext aclose Stream_Cancelled (sn_server n), sn_cancels := Suc (sn_cancels n)\<rparr>)"
| client_takes: "sc_phase (sn_client n) = SC_Waiting \<Longrightarrow> sc_queue (sn_client n) \<noteq> [] \<Longrightarrow>
    stream_net_step str anext aclose subject rid n
      (n\<lparr>sn_client := stream_client_step subject rid SC_Take (sn_client n)\<rparr>)"
| consumer_resumes: "sc_phase (sn_client n) = SC_Yield \<Longrightarrow>
    stream_net_step str anext aclose subject rid n
      (n\<lparr>sn_client := stream_client_step subject rid SC_Resume (sn_client n)\<rparr>)"

section \<open>What has been sent and what has arrived\<close>

text \<open>The server's messages: no publish fails here, so the end tells how the generator ended.\<close>

definition sender_ok :: "(exc \<Rightarrow> string) \<Rightarrow> ('g \<Rightarrow> gen_event \<times> 'g) \<Rightarrow> pyval list \<Rightarrow> gen_event \<Rightarrow> 'g stream_session
    \<Rightarrow> pyval list \<Rightarrow> stream_message list \<Rightarrow> bool" where
  "sender_ok str anext vs fin s ws ts \<longleftrightarrow>
     sx_sent s = map Stream_Data ws @ ts \<and> sx_connected s \<and>
     (\<exists>rest. vs = ws @ rest \<and>
       (case sx_phase s of
          S_Next \<Rightarrow> ts = [] \<and> gen_runs anext (sx_gen s) rest fin
        | S_Sending v \<Rightarrow> ts = [] \<and> (\<exists>rest'. rest = v # rest' \<and> gen_runs anext (sx_gen s) rest' fin)
        | S_Sending_End \<Rightarrow> ts = [] \<and> rest = [] \<and> fin = Stops
        | S_Sending_Error x \<Rightarrow> ts = [] \<and> rest = [] \<and> fin = Raises x
        | S_Closed \<Rightarrow>
            ts = [] \<and> sx_cancelled s \<or> ts = [Stream_End] \<and> rest = [] \<and> fin = Stops \<or>
            (\<exists>x. ts = [Stream_Error (stream_error_dict str x)] \<and> rest = [] \<and> fin = Raises x)))"

lemma sender_ok_init: "gen_runs anext g vs fin \<Longrightarrow> sender_ok str anext vs fin (open_stream g) [] []"
  by (simp add: sender_ok_def open_stream_def)

lemma sender_runs:
  assumes "sender_ok str anext vs fin s ws ts" "sx_phase s = S_Next"
  shows "sender_ok str anext vs fin (stream_resumes anext aclose s) ws ts"
proof -
  obtain rest where r: "vs = ws @ rest" "ts = []" "gen_runs anext (sx_gen s) rest fin"
    using assms by (auto simp: sender_ok_def)
  show ?thesis
  proof (cases rest)
    case Nil
    then show ?thesis
      using assms r by (cases "anext (sx_gen s)"; cases fin)
        (auto simp: sender_ok_def stream_resumes_def stream_except_def stream_finally_def)
  next
    case (Cons v rest')
    then show ?thesis
      using assms r by (cases "anext (sx_gen s)") (auto simp: sender_ok_def stream_resumes_def stream_finally_def)
  qed
qed

lemma sender_publishes:
  assumes "sender_ok str anext vs fin s ws ts" "stream_sending (sx_phase s)"
  obtains m ws' ts' where "sender_ok str anext vs fin (stream_published str aclose None s) ws' ts'"
    "sx_sent (stream_published str aclose None s) = sx_sent s @ [m]"
proof (cases "sx_phase s")
  case (S_Sending v)
  then show thesis
    using assms by (intro that [of "ws @ [v]" "[]" "Stream_Data v"]) (auto simp: sender_ok_def stream_published_def)
next
  case S_Sending_End
  then show thesis
    using assms by (intro that [of ws "[Stream_End]" Stream_End]) (auto simp: sender_ok_def stream_published_def stream_finally_def)
next
  case (S_Sending_Error x)
  then show thesis
    using assms by (intro that [of ws "[Stream_Error (stream_error_dict str x)]" "Stream_Error (stream_error_dict str x)"])
      (auto simp: sender_ok_def stream_published_def stream_finally_def)
qed (use assms in simp_all)

lemma sender_cancelled:
  "sender_ok str anext vs fin s ws ts \<Longrightarrow> sender_ok str anext vs fin (s\<lparr>sx_cancelled := True\<rparr>) ws ts"
  by (cases "sx_phase s") (auto simp: sender_ok_def)

text \<open>The values among the messages.\<close>

fun data_of :: "stream_message list \<Rightarrow> pyval list" where
  "data_of [] = []"
| "data_of (Stream_Data v # ms) = v # data_of ms"
| "data_of (_ # ms) = data_of ms"

lemma data_of_append [simp]: "data_of (xs @ ys) = data_of xs @ data_of ys"
  by (induction xs rule: data_of.induct) simp_all

lemma data_of_data [simp]: "data_of (map Stream_Data vs) = vs"
  by (induction vs) simp_all

definition stream_over_ok :: "(exc \<Rightarrow> string) \<Rightarrow> pyval list \<Rightarrow> gen_event \<Rightarrow> pyval list \<Rightarrow> outcome \<Rightarrow> bool" where
  "stream_over_ok str vs fin ys out \<longleftrightarrow>
     prefix ys (takeWhile (\<lambda>v. v \<noteq> PNone) vs) \<and>
     (case out of
        Ended \<Rightarrow> ys = takeWhile (\<lambda>v. v \<noteq> PNone) vs \<and> (fin = Stops \<or> PNone \<in> set vs)
      | Failed e \<Rightarrow> (\<exists>x r. fin = Raises x \<and> from_dict (PDict (stream_error_dict str x)) = Inr r \<and> e = RPC r)
      | Left \<Rightarrow> False)"

text \<open>The client after the first messages \<open>ms\<close> of the stream.\<close>

definition receiver_ok :: "(exc \<Rightarrow> string) \<Rightarrow> pyval list \<Rightarrow> gen_event \<Rightarrow> stream_message list \<Rightarrow> stream_client \<Rightarrow> bool" where
  "receiver_ok str vs fin ms c \<longleftrightarrow>
     (case sc_phase c of
        SC_Publishing \<Rightarrow> False
      | SC_Over out \<Rightarrow> stream_over_ok str vs fin (sc_yielded c) out
      | _ \<Rightarrow>
          PNone \<notin> set (sc_yielded c) \<and>
          (if \<not> sc_ended c
           then sc_error c = None \<and> sc_handler c \<and> sc_subscribed c \<and> list_all (\<lambda>m. \<not> stream_terminal m) ms \<and>
             sc_yielded c @ sc_queue c = data_of ms
           else \<not> sc_handler c \<and> list_ex stream_terminal ms \<and> sc_yielded c @ sc_queue c = data_of ms @ [PNone] \<and> data_of ms = vs \<and>
             (sc_error c = None \<and> fin = Stops \<or>
              (\<exists>x r. fin = Raises x \<and> from_dict (PDict (stream_error_dict str x)) = Inr r \<and> sc_error c = Some (RPC r)))))"

lemma from_dict_stream_error: "\<exists>r. from_dict (PDict (stream_error_dict str x)) = Inr r"
  by (cases x) (simp_all add: stream_error_dict_def from_dict_def to_dict_def)

lemma takeWhile_some: "PNone \<notin> set ys \<Longrightarrow> takeWhile (\<lambda>v. v \<noteq> PNone) (ys @ zs) = ys @ takeWhile (\<lambda>v. v \<noteq> PNone) zs"
  by (rule takeWhile_append2) auto

lemma prefix_takeWhile: "PNone \<notin> set ys \<Longrightarrow> prefix ys vs \<Longrightarrow> prefix ys (takeWhile (\<lambda>v. v \<noteq> PNone) vs)"
  by (auto simp: prefix_def takeWhile_some)

lemma handle_stream_keeps:
  "sc_phase (handle_stream_message rid msg c) = sc_phase c"
  "sc_yielded (handle_stream_message rid msg c) = sc_yielded c"
  by (cases msg; simp add: handle_stream_message_def stream_client_defs Let_def split: sum.split)+

lemma handle_stream_messages:
  assumes "sc_handler c" "\<not> sc_ended c"
  shows "handle_stream_message rid (stream_msg rid (Stream_Data v)) c = c\<lparr>sc_queue := sc_queue c @ [v]\<rparr>"
    "handle_stream_message rid (stream_msg rid Stream_End) c =
       c\<lparr>sc_ended := True, sc_queue := sc_queue c @ [PNone], sc_handler := False, sc_status := False, sc_subscribed := False\<rparr>"
    "from_dict (PDict e) = Inr r \<Longrightarrow> handle_stream_message rid (stream_msg rid (Stream_Error e)) c =
       c\<lparr>sc_error := Some (RPC r), sc_ended := True, sc_queue := sc_queue c @ [PNone], sc_handler := False,
         sc_status := False, sc_subscribed := False\<rparr>"
  using assms
  by (simp_all add: handle_stream_message_def stream_msg_def msg_type_def on_push_def on_end_def on_error_def
      stream_unsubscribe_def)

lemma one_terminal:
  assumes "ms @ m # later = map Stream_Data ws @ ts" "length ts \<le> 1" "list_all stream_terminal ts"
  shows "list_all (\<lambda>m. \<not> stream_terminal m) ms \<and> (stream_terminal m \<longrightarrow> ts = [m] \<and> ms = map Stream_Data ws)"
proof (cases "length ms < length ws")
  case True
  then have "ms = map Stream_Data (take (length ms) ws)" "m = Stream_Data (ws ! length ms)"
    using arg_cong [OF assms(1), of "take (length ms)"] arg_cong [OF assms(1), of "\<lambda>xs. xs ! length ms"]
    by (simp_all add: nth_append take_map)
  then show ?thesis by (metis list_all_length length_map nth_map stream_terminal.simps(1))
next
  case False
  then have "ms = map Stream_Data ws @ take (length ms - length ws) ts" "m # later = drop (length ms - length ws) ts"
    using arg_cong [OF assms(1), of "take (length ms)"] arg_cong [OF assms(1), of "drop (length ms)"] by simp_all
  moreover from this(2) assms(2) have "length ms = length ws" "ts = [m]"
    using False by (cases ts; cases "length ms - length ws"; auto)+
  ultimately show ?thesis by (auto simp: list_all_iff)
qed

lemma sender_one_end:
  "sender_ok str anext vs fin s ws ts \<Longrightarrow> length ts \<le> 1 \<and> list_all stream_terminal ts \<and> prefix ws vs \<and>
     (ts = [Stream_End] \<longrightarrow> ws = vs \<and> fin = Stops) \<and>
     (\<forall>e. ts = [Stream_Error e] \<longrightarrow> ws = vs \<and> (\<exists>x. e = stream_error_dict str x \<and> fin = Raises x))"
  by (cases "sx_phase s") (auto simp: sender_ok_def)

lemma receiver_message:
  assumes "receiver_ok str vs fin ms c" "sx_sent s = ms @ m # later" "sender_ok str anext vs fin s ws ts"
  shows "receiver_ok str vs fin (ms @ [m]) (if sc_subscribed c then handle_stream_message rid (stream_msg rid m) c else c)"
proof -
  have o: "list_all (\<lambda>m. \<not> stream_terminal m) ms" "stream_terminal m \<longrightarrow> ts = [m] \<and> ms = map Stream_Data ws"
    using one_terminal [of ms m later ws ts] assms(2,3) sender_one_end [OF assms(3)] by (auto simp: sender_ok_def)
  show ?thesis
  proof (cases "\<exists>out. sc_phase c = SC_Over out")
    case True
    then show ?thesis using assms(1) by (auto simp: receiver_ok_def handle_stream_keeps)
  next
    case False
    then have p: "sc_phase c = SC_Waiting \<or> sc_phase c = SC_Yield"
      using assms(1) by (cases "sc_phase c") (auto simp: receiver_ok_def)
    have ne: "\<not> sc_ended c"
      using assms(1) p o(1) by (auto simp: receiver_ok_def list_all_iff list_ex_iff)
    then have live: "sc_error c = None" "sc_handler c" "sc_subscribed c" "sc_yielded c @ sc_queue c = data_of ms" "PNone \<notin> set (sc_yielded c)"
      using assms(1) p by (auto simp: receiver_ok_def)
    show ?thesis
    proof (cases m)
      case (Stream_Data v)
      then show ?thesis
        using live ne p o(1) handle_stream_messages(1) [OF live(2) ne, of rid v] by (auto simp: receiver_ok_def)
    next
      case Stream_End
      then have "ts = [Stream_End]" "ms = map Stream_Data ws" using o(2) by auto
      then have "ws = vs" "fin = Stops" using sender_one_end [OF assms(3)] by auto
      then show ?thesis
        using live ne p handle_stream_messages(2) [OF live(2) ne, of rid] \<open>ms = _\<close> Stream_End
        by (auto simp: receiver_ok_def)
    next
      case (Stream_Error e)
      then have t: "ts = [Stream_Error e]" "ms = map Stream_Data ws" using o(2) by auto
      then obtain x where x: "e = stream_error_dict str x" "fin = Raises x" "ws = vs" using sender_one_end [OF assms(3)] by auto
      obtain r where r: "from_dict (PDict e) = Inr r" using from_dict_stream_error [of str x] x(1) by blast
      show ?thesis
        using live ne p handle_stream_messages(3) [OF live(2) ne r, of rid] t x r Stream_Error
        by (auto simp: receiver_ok_def)
    qed
  qed
qed

lemma receiver_takes:
  assumes "receiver_ok str vs fin ms c" "sc_phase c = SC_Waiting" "sc_queue c \<noteq> []" "prefix (data_of ms) vs"
  shows "receiver_ok str vs fin ms (stream_take c)"
proof -
  obtain v q where q: "sc_queue c = v # q" using assms(3) by (auto simp: neq_Nil_conv)
  show ?thesis
  proof (cases "v = PNone")
    case False
    then show ?thesis using assms(1,2) q by (auto simp: receiver_ok_def stream_take_def)
  next
    case True
    have n: "PNone \<notin> set (sc_yielded c)" using assms(1,2) by (simp add: receiver_ok_def)
    show ?thesis
    proof (cases "sc_ended c")
      case False
      then have "data_of ms = sc_yielded c @ PNone # q" "sc_error c = None" using assms(1,2) q True by (auto simp: receiver_ok_def)
      moreover from this(1) obtain zs where "vs = sc_yielded c @ PNone # zs" using assms(4) by (auto simp: prefix_def)
      ultimately show ?thesis
        using q True False takeWhile_some [OF n, of "PNone # zs"]
        by (simp add: receiver_ok_def stream_take_def stream_unsubscribe_def stream_over_ok_def Let_def)
    next
      case e: True
      then have y: "sc_yielded c @ PNone # q = vs @ [PNone]"
        and f: "sc_error c = None \<and> fin = Stops \<or>
          (\<exists>x r. fin = Raises x \<and> from_dict (PDict (stream_error_dict str x)) = Inr r \<and> sc_error c = Some (RPC r))"
        using assms(1,2) q True by (auto simp: receiver_ok_def)
      have t: "takeWhile (\<lambda>v. v \<noteq> PNone) vs = sc_yielded c"
      proof (cases q rule: rev_cases)
        case Nil
        then show ?thesis using y n takeWhile_some [OF n, of "[]"] by simp
      next
        case (snoc q' z)
        then have "vs = sc_yielded c @ PNone # q'" using y by simp
        then show ?thesis using takeWhile_some [OF n] by simp
      qed
      show ?thesis
        using f
      proof
        assume "sc_error c = None \<and> fin = Stops"
        then show ?thesis
          using q True e t by (simp add: receiver_ok_def stream_take_def stream_unsubscribe_def stream_over_ok_def Let_def)
      next
        assume "\<exists>x r. fin = Raises x \<and> from_dict (PDict (stream_error_dict str x)) = Inr r \<and> sc_error c = Some (RPC r)"
        then show ?thesis
          using q True e t by (auto simp: receiver_ok_def stream_take_def stream_unsubscribe_def stream_over_ok_def Let_def)
      qed
    qed
  qed
qed

lemma receiver_resumes:
  assumes "receiver_ok str vs fin ms c" "sc_phase c = SC_Yield" "prefix (data_of ms) vs"
  shows "receiver_ok str vs fin ms (stream_loop c)"
proof (cases "sc_error c")
  case None
  then show ?thesis using assms(1,2) by (auto simp: receiver_ok_def stream_loop_def)
next
  case (Some e)
  then have "sc_ended c" using assms(1,2) by (auto simp: receiver_ok_def split: if_splits)
  with assms(1,2) Some obtain x r where x: "fin = Raises x" "from_dict (PDict (stream_error_dict str x)) = Inr r" "e = RPC r"
    and y: "sc_yielded c @ sc_queue c = vs @ [PNone]" "PNone \<notin> set (sc_yielded c)" by (auto simp: receiver_ok_def)
  have "prefix (sc_yielded c) (vs @ [PNone])" using y(1) by (metis prefixI)
  then have "prefix (sc_yielded c) vs" using y(2) by (auto simp: prefix_snoc)
  then have "prefix (sc_yielded c) (takeWhile (\<lambda>v. v \<noteq> PNone) vs)" by (rule prefix_takeWhile [OF y(2)])
  then show ?thesis
    using Some x by (simp add: receiver_ok_def stream_loop_def stream_unsubscribe_def stream_over_ok_def Let_def)
qed

section \<open>The system\<close>

definition stream_net_ok :: "(exc \<Rightarrow> string) \<Rightarrow> ('g \<Rightarrow> gen_event \<times> 'g) \<Rightarrow> pyval list \<Rightarrow> gen_event \<Rightarrow> 'g stream_net \<Rightarrow> bool" where
  "stream_net_ok str anext vs fin n \<longleftrightarrow>
     (\<exists>ws ts. sender_ok str anext vs fin (sn_server n) ws ts) \<and> sn_delivered n \<le> length (sx_sent (sn_server n)) \<and>
     receiver_ok str vs fin (take (sn_delivered n) (sx_sent (sn_server n))) (sn_client n) \<and>
     (sn_cancels n \<le> sc_cancels (sn_client n)) \<and>
     (0 < sc_cancels (sn_client n) \<or> sx_cancelled (sn_server n) \<longrightarrow> (\<exists>out. sc_phase (sn_client n) = SC_Over out))"

lemma stream_net_ok_init:
  "gen_runs anext g vs fin \<Longrightarrow> stream_net_ok str anext vs fin (stream_net_init subject rid g)"
  unfolding stream_net_ok_def
  by (auto intro!: exI [of _ "[]"] sender_ok_init
      simp: stream_net_init_def open_stream_def start_stream_def stream_request_published_def stream_loop_def receiver_ok_def sender_ok_def)

lemma data_prefix:
  "sender_ok str anext vs fin s ws ts \<Longrightarrow> prefix (data_of (take d (sx_sent s))) vs"
proof -
  assume a: "sender_ok str anext vs fin s ws ts"
  then have "length ts \<le> 1" "list_all stream_terminal ts" "prefix ws vs" "sx_sent s = map Stream_Data ws @ ts"
    using sender_one_end [OF a] by (auto simp: sender_ok_def)
  moreover have "data_of (take k ts) = []" for k
    using \<open>list_all stream_terminal ts\<close> by (induction ts arbitrary: k rule: data_of.induct) (auto simp: take_Cons split: nat.split)
  ultimately have "data_of (take d (sx_sent s)) = take d ws" by (simp add: take_map)
  then show ?thesis using \<open>prefix ws vs\<close> take_is_prefix [of d ws] by (simp add: prefix_order.trans)
qed

lemma stream_take_cancels:
  "sc_cancels (stream_take c) = sc_cancels c \<or> (\<exists>out. sc_phase (stream_take c) = SC_Over out)"
  "(\<exists>out. sc_phase c = SC_Over out) \<Longrightarrow> sc_phase c = SC_Waiting \<Longrightarrow> P"
  "sc_cancels c \<le> sc_cancels (stream_take c)"
  by (auto simp: stream_take_def stream_unsubscribe_def Let_def split: list.split option.split)

lemma stream_loop_cancels:
  "sc_cancels (stream_loop c) = sc_cancels c \<or> (\<exists>out. sc_phase (stream_loop c) = SC_Over out)"
  "sc_cancels c \<le> sc_cancels (stream_loop c)"
  by (auto simp: stream_loop_def stream_unsubscribe_def Let_def split: option.split)

lemma handle_stream_cancels: "sc_cancels (handle_stream_message rid msg c) = sc_cancels c"
  by (cases msg) (auto simp: handle_stream_message_def stream_client_defs Let_def split: sum.split)

lemma stream_net_ok_step:
  assumes "stream_net_ok str anext vs fin n" "stream_net_step str anext aclose subject rid n n'"
  shows "stream_net_ok str anext vs fin n'"
proof -
  obtain ws ts where s: "sender_ok str anext vs fin (sn_server n) ws ts" using assms(1) by (auto simp: stream_net_ok_def)
  have d: "sn_delivered n \<le> length (sx_sent (sn_server n))"
    "receiver_ok str vs fin (take (sn_delivered n) (sx_sent (sn_server n))) (sn_client n)"
    "sn_cancels n \<le> sc_cancels (sn_client n)"
    "0 < sc_cancels (sn_client n) \<or> sx_cancelled (sn_server n) \<longrightarrow> (\<exists>out. sc_phase (sn_client n) = SC_Over out)"
    using assms(1) by (simp_all add: stream_net_ok_def)
  show ?thesis
    using assms(2)
  proof cases
    case server_runs
    have "sx_sent (stream_resumes anext aclose (sn_server n)) = sx_sent (sn_server n)"
      "sx_cancelled (stream_resumes anext aclose (sn_server n)) = sx_cancelled (sn_server n)"
      by (simp_all add: stream_resumes_def stream_except_def stream_finally_def split: prod.split gen_event.split)
    then show ?thesis
      using sender_runs [OF s server_runs(2), of aclose] d by (auto simp: server_runs(1) stream_net_ok_def)
  next
    case server_publishes
    from s server_publishes(2) obtain m ws' ts' where
      p: "sender_ok str anext vs fin (stream_published str aclose None (sn_server n)) ws' ts'"
      "sx_sent (stream_published str aclose None (sn_server n)) = sx_sent (sn_server n) @ [m]" by (rule sender_publishes)
    have "sx_cancelled (stream_published str aclose None (sn_server n)) = sx_cancelled (sn_server n)"
      by (simp add: stream_published_def stream_finally_def split: stream_phase.split)
    then show ?thesis using p d by (auto simp: server_publishes(1) stream_net_ok_def)
  next
    case message_delivered
    let ?sent = "sx_sent (sn_server n)"
    have "?sent = take (sn_delivered n) ?sent @ ?sent ! sn_delivered n # drop (Suc (sn_delivered n)) ?sent"
      using message_delivered(2) by (simp add: id_take_nth_drop)
    from receiver_message [OF d(2) this s, of rid] show ?thesis
      using s d message_delivered(2)
      by (auto simp: message_delivered(1) stream_net_ok_def take_Suc_conv_app_nth handle_stream_cancels handle_stream_keeps)
  next
    case cancel_delivered
    have "sender_ok str anext vs fin (stream_step str anext aclose Stream_Cancelled (sn_server n)) ws ts"
      using s sender_cancelled [OF s] by simp
    then have "\<exists>ws ts. sender_ok str anext vs fin (stream_step str anext aclose Stream_Cancelled (sn_server n)) ws ts" by blast
    then show ?thesis
      using d cancel_delivered(2) unfolding cancel_delivered(1) stream_net_ok_def by simp
  next
    case client_takes
    show ?thesis
      using receiver_takes [OF d(2) client_takes(2,3) data_prefix [OF s]] s d stream_take_cancels [of "sn_client n"] client_takes
      unfolding stream_net_ok_def by (auto simp: stream_net_ok_def)
  next
    case consumer_resumes
    show ?thesis
      using receiver_resumes [OF d(2) consumer_resumes(2) data_prefix [OF s]] s d stream_loop_cancels [of "sn_client n"] consumer_resumes
      unfolding stream_net_ok_def by (auto simp: stream_net_ok_def)
  qed
qed

lemma stream_net_reachable:
  assumes "gen_runs anext g vs fin" "(stream_net_step str anext aclose subject rid)\<^sup>*\<^sup>* (stream_net_init subject rid g) n"
  shows "stream_net_ok str anext vs fin n"
  using assms(2) by (induction rule: rtranclp_induct) (blast intro: stream_net_ok_init [OF assms(1)] stream_net_ok_step)+


section \<open>The stream ends\<close>

definition stream_weight :: "pyval list \<Rightarrow> 'g stream_session \<Rightarrow> nat" where
  "stream_weight vs s = (case sx_phase s of
      S_Closed \<Rightarrow> 0
    | S_Next \<Rightarrow> 6 * (length vs - length (data_of (sx_sent s))) + 6
    | _ \<Rightarrow> 6 * (length vs - length (data_of (sx_sent s))) + 5)"

definition stream_measure :: "pyval list \<Rightarrow> 'g stream_net \<Rightarrow> nat" where
  "stream_measure vs n = stream_weight vs (sn_server n) + 4 * (length (sx_sent (sn_server n)) - sn_delivered n) +
     3 * length (sc_queue (sn_client n)) + (if sc_phase (sn_client n) = SC_Yield then 2 else 0) +
     (sc_cancels (sn_client n) - sn_cancels n)"

lemma handle_stream_queue: "length (sc_queue (handle_stream_message rid msg c)) \<le> Suc (length (sc_queue c))"
  by (cases msg) (auto simp: handle_stream_message_def stream_client_defs Let_def split: sum.split)

lemma stream_measure_decreases:
  assumes "stream_net_ok str anext vs fin n" "stream_net_step str anext aclose subject rid n n'"
  shows "stream_measure vs n' < stream_measure vs n"
proof -
  obtain ws ts where s: "sender_ok str anext vs fin (sn_server n) ws ts" using assms(1) by (auto simp: stream_net_ok_def)
  have d: "sn_delivered n \<le> length (sx_sent (sn_server n))" "sn_cancels n \<le> sc_cancels (sn_client n)"
    "0 < sc_cancels (sn_client n) \<or> sx_cancelled (sn_server n) \<longrightarrow> (\<exists>out. sc_phase (sn_client n) = SC_Over out)"
    using assms(1) by (simp_all add: stream_net_ok_def)
  show ?thesis
    using assms(2)
  proof cases
    case server_runs
    then have "stream_weight vs (stream_resumes anext aclose (sn_server n)) < stream_weight vs (sn_server n)"
      by (simp add: stream_weight_def stream_resumes_def stream_except_def stream_finally_def split: prod.split gen_event.split)
    moreover have "sx_sent (stream_resumes anext aclose (sn_server n)) = sx_sent (sn_server n)"
      by (simp add: stream_resumes_def stream_except_def stream_finally_def split: prod.split gen_event.split)
    ultimately show ?thesis by (simp add: server_runs(1) stream_measure_def)
  next
    case server_publishes
    let ?s = "stream_published str aclose None (sn_server n)"
    have "length (sx_sent ?s) = Suc (length (sx_sent (sn_server n))) \<and> stream_weight vs ?s + 4 < stream_weight vs (sn_server n)"
    proof (cases "sx_phase (sn_server n)")
      case (S_Sending v)
      then have "data_of (sx_sent (sn_server n)) = ws" "length ws < length vs" using s by (auto simp: sender_ok_def)
      then show ?thesis using S_Sending by (simp add: stream_weight_def stream_published_def)
    qed (use server_publishes(2) in \<open>simp_all add: stream_weight_def stream_published_def stream_finally_def\<close>)
    then show ?thesis using d(1) by (simp add: server_publishes(1) stream_measure_def Suc_diff_le)
  next
    case message_delivered
    have "length (sx_sent (sn_server n)) - sn_delivered n = Suc (length (sx_sent (sn_server n)) - Suc (sn_delivered n))"
      using message_delivered(2) by simp
    then show ?thesis
      using handle_stream_queue [of rid "stream_msg rid (sx_sent (sn_server n) ! sn_delivered n)" "sn_client n"]
      by (auto simp: message_delivered(1) stream_measure_def handle_stream_keeps handle_stream_cancels)
  next
    case cancel_delivered
    have "stream_weight vs (stream_step str anext aclose Stream_Cancelled (sn_server n)) = stream_weight vs (sn_server n)"
      "sx_sent (stream_step str anext aclose Stream_Cancelled (sn_server n)) = sx_sent (sn_server n)"
      by (simp_all add: stream_weight_def split: stream_phase.split)
    moreover have "sc_cancels (sn_client n) - Suc (sn_cancels n) < sc_cancels (sn_client n) - sn_cancels n"
      using cancel_delivered(2) by simp
    ultimately show ?thesis unfolding cancel_delivered(1) stream_measure_def by simp
  next
    case client_takes
    then obtain v q where q: "sc_queue (sn_client n) = v # q" by (auto simp: neq_Nil_conv)
    obtain k where k: "sc_cancels (sn_client n) = sn_cancels n + k" using d(2) by (auto simp: le_iff_add)
    have "stream_measure vs n' + 1 \<le> stream_measure vs n"
      using q client_takes(2) k
      by (cases "v = PNone"; cases "sc_error (sn_client n)")
         (simp_all add: client_takes(1) stream_measure_def stream_take_def stream_unsubscribe_def Let_def)
    then show ?thesis by simp
  next
    case consumer_resumes
    obtain k where "sc_cancels (sn_client n) = sn_cancels n + k" using d(2) by (auto simp: le_iff_add)
    then show ?thesis
      using consumer_resumes by (auto simp: stream_measure_def stream_loop_def stream_unsubscribe_def Let_def split: option.split)
  qed
qed

lemma stream_net_progress:
  assumes "stream_net_ok str anext vs fin n" "\<forall>out. sc_phase (sn_client n) \<noteq> SC_Over out"
  shows "\<exists>n'. stream_net_step str anext aclose subject rid n n'"
proof -
  obtain ws ts where s: "sender_ok str anext vs fin (sn_server n) ws ts" using assms(1) by (auto simp: stream_net_ok_def)
  have d: "sn_delivered n \<le> length (sx_sent (sn_server n))"
    "receiver_ok str vs fin (take (sn_delivered n) (sx_sent (sn_server n))) (sn_client n)" "\<not> sx_cancelled (sn_server n)"
    using assms by (auto simp: stream_net_ok_def)
  consider "sx_phase (sn_server n) = S_Next" | "stream_sending (sx_phase (sn_server n))" | "sx_phase (sn_server n) = S_Closed"
    by (cases "sx_phase (sn_server n)") auto
  then show ?thesis
  proof cases
    case 3
    show ?thesis
    proof (cases "sn_delivered n < length (sx_sent (sn_server n))")
      case True
      then show ?thesis by (blast intro: message_delivered)
    next
      case False
      then have "take (sn_delivered n) (sx_sent (sn_server n)) = map Stream_Data ws @ ts" using d(1) s by (simp add: sender_ok_def)
      moreover have "ts \<noteq> []" "list_all stream_terminal ts" using s 3 d(3) by (auto simp: sender_ok_def)
      ultimately have e: "sc_ended (sn_client n)" and p: "sc_phase (sn_client n) = SC_Waiting \<or> sc_phase (sn_client n) = SC_Yield"
        using d(2) assms(2) by (cases ts; auto simp: receiver_ok_def split: stream_consumer_phase.splits if_splits)+
      show ?thesis
      proof (cases "sc_phase (sn_client n) = SC_Yield")
        case True
        then show ?thesis by (blast intro: consumer_resumes)
      next
        case False
        then have "sc_queue (sn_client n) \<noteq> []" using p d(2) e by (auto simp: receiver_ok_def)
        then show ?thesis using False p by (blast intro: client_takes)
      qed
    qed
  qed (blast intro: server_runs server_publishes)+
qed

interpretation stream_network: network "stream_net_step str anext aclose subject rid" "stream_net_ok str anext vs fin"
    "stream_measure vs" "\<lambda>n. \<exists>out. sc_phase (sn_client n) = SC_Over out"
  for str anext aclose subject rid vs fin
  by unfold_locales (blast intro: stream_net_ok_step stream_measure_decreases stream_net_progress)+

text \<open>
  C28. A stream over a finite generator terminates on both sides: every run of the joined system is
  at most \<open>6 * n + 6\<close> steps long for \<open>n\<close> values, and it cannot stop before the consumer's loop is over.
\<close>

theorem stream_terminates:
  assumes "gen_runs anext g vs fin"
    and "(stream_net_step str anext aclose subject rid ^^ k) (stream_net_init subject rid g) n"
  shows "k \<le> 6 * length vs + 6 \<and>
    ((\<exists>n'. stream_net_step str anext aclose subject rid n n') \<or> (\<exists>out. sc_phase (sn_client n) = SC_Over out))"
proof -
  let ?n = "stream_net_init subject rid g"
  have "stream_measure vs ?n = 6 * length vs + 6"
    by (simp add: stream_measure_def stream_weight_def stream_net_init_def open_stream_def start_stream_def
        stream_request_published_def stream_loop_def)
  then show ?thesis using stream_network.run_ends [OF assms(2) stream_net_ok_init [OF assms(1)]] by simp
qed

section \<open>A run\<close>

definition demo_stream_init :: "pyval list stream_net" where
  "demo_stream_init = stream_net_init ''s'' ''r'' [PInt 7]"

definition demo_stream_drive :: "pyval list stream_net \<Rightarrow> pyval list stream_net" where
  "demo_stream_drive n =
     (let c = sn_client n; s = sn_server n; cstep = stream_client_step ''s'' ''r'';
          sstep = stream_step (\<lambda>_. []) demo_anext demo_aclose
      in if sx_phase s = S_Next then n\<lparr>sn_server := sstep Stream_Resumes s\<rparr>
         else if stream_sending (sx_phase s) then n\<lparr>sn_server := sstep (Stream_Published None) s\<rparr>
         else if sn_delivered n < length (sx_sent s)
         then n\<lparr>sn_client := cstep (SC_Message (stream_msg ''r'' (sx_sent s ! sn_delivered n))) c,
                sn_delivered := Suc (sn_delivered n)\<rparr>
         else if sc_phase c = SC_Waiting \<and> sc_queue c \<noteq> [] then n\<lparr>sn_client := cstep SC_Take c\<rparr>
         else if sc_phase c = SC_Yield then n\<lparr>sn_client := cstep SC_Resume c\<rparr>
         else n)"

lemma demo_stream_drive_steps: "(stream_net_step (\<lambda>_. []) demo_anext demo_aclose ''s'' ''r'')\<^sup>*\<^sup>* n (demo_stream_drive n)"
  unfolding demo_stream_drive_def Let_def
  by (auto simp del: stream_client_step.simps stream_step.simps intro!: r_into_rtranclp intro: stream_net_step.intros)

lemma demo_stream_runs:
  "(stream_net_step (\<lambda>_. []) demo_anext demo_aclose ''s'' ''r'')\<^sup>*\<^sup>* demo_stream_init ((demo_stream_drive ^^ k) demo_stream_init)"
  by (induction k) (auto intro: rtranclp_trans demo_stream_drive_steps)

lemma demo_stream_gen: "gen_runs demo_anext [PInt 7] [PInt 7] Stops"
  by (simp add: demo_anext_def)

lemma demo_stream_over: "sc_phase (sn_client ((demo_stream_drive ^^ 9) demo_stream_init)) = SC_Over Ended"
  by (simp add: demo_stream_drive_def Let_def demo_stream_init_def stream_net_init_def start_stream_def open_stream_def
      stream_request_published_def stream_loop_def stream_resumes_def demo_anext_def stream_published_def stream_finally_def
      demo_aclose_def handle_stream_message_def stream_msg_def msg_type_def on_push_def on_end_def stream_unsubscribe_def
      stream_take_def eval_nat_numeral)


theorem stream_terminates_witness:
  "\<exists>n'. stream_net_step (\<lambda>_. []) demo_anext demo_aclose ''s'' ''r'' demo_stream_init n'"
proof -
  have "(stream_net_step (\<lambda>_. []) demo_anext demo_aclose ''s'' ''r'' ^^ 0) demo_stream_init demo_stream_init" by simp
  from stream_terminates [OF demo_stream_gen this [unfolded demo_stream_init_def]]
  show ?thesis
    unfolding demo_stream_init_def [symmetric]
    by (auto simp: demo_stream_init_def stream_net_init_def start_stream_def stream_request_published_def stream_loop_def)
qed

end
