(* ===== verification/Pull_End.thy ===== *)
theory Pull_End
  imports Pull_Client Networks
begin

text \<open>
  Pull iterators end to end: a consumer of \<open>call_pull_iterator\<close> and the session of
  \<open>handle_pull_iterator_request\<close> joined by a network that delivers requests and responses in the
  order of publishing. Steps of the two sides interleave freely.
\<close>

section \<open>The joined system\<close>

text \<open>\<open>pn_taken\<close> requests and \<open>pn_delivered\<close> responses have been delivered.\<close>

record 'g pull_net =
  pn_client :: pull_client
  pn_server :: "'g pull_session"
  pn_taken :: nat
  pn_delivered :: nat

text \<open>The client has made its initialising call and has subscribed to the responses.\<close>

definition pull_net_init :: "(exc \<Rightarrow> string) \<Rightarrow> string \<Rightarrow> string \<Rightarrow> 'g \<Rightarrow> 'g pull_net" where
  "pull_net_init str subject i g =
     \<lparr>pn_client = consumer_step str subject i (Subscribe_Returns None)
        (consumer_step str subject i (Init_Returns (Inr (iterator_ready i))) start_pull),
      pn_server = open_pull g, pn_taken = 0, pn_delivered = 0\<rparr>"

fun is_sending :: "pull_phase \<Rightarrow> bool" where
  "is_sending (Sending_Value _) = True"
| "is_sending Sending_Done = True"
| "is_sending (Sending_Error _) = True"
| "is_sending _ = False"

fun is_cancelling :: "consumer_phase \<Rightarrow> bool" where
  "is_cancelling (Cancelling _) = True"
| "is_cancelling _ = False"

inductive pull_net_step :: "(exc \<Rightarrow> string) \<Rightarrow> ('g \<Rightarrow> gen_event \<times> 'g) \<Rightarrow> ('g \<Rightarrow> exc option \<times> 'g) \<Rightarrow> string \<Rightarrow> string
    \<Rightarrow> 'g pull_net \<Rightarrow> 'g pull_net \<Rightarrow> bool"
  for str anext aclose subject i where
  client_publishes: "pk_phase (pn_client n) = Requesting \<or> is_cancelling (pk_phase (pn_client n)) \<Longrightarrow>
    pull_net_step str anext aclose subject i n
      (n\<lparr>pn_client := consumer_step str subject i (Publish_Returns None) (pn_client n)\<rparr>)"
| request_delivered: "pn_taken n < length (pk_sent (pn_client n)) \<Longrightarrow> ps_phase (pn_server n) = Idle \<Longrightarrow>
    pull_net_step str anext aclose subject i n
      (n\<lparr>pn_server := pull_step str anext aclose
            (Request (pull_request_msg i (pk_sent (pn_client n) ! pn_taken n))) (pn_server n),
         pn_taken := Suc (pn_taken n)\<rparr>)"
| generator_resumes: "ps_phase (pn_server n) = In_Next \<or> ps_phase (pn_server n) = In_Close \<Longrightarrow>
    pull_net_step str anext aclose subject i n
      (n\<lparr>pn_server := pull_step str anext aclose Gen_Resumes (pn_server n)\<rparr>)"
| server_publishes: "is_sending (ps_phase (pn_server n)) \<Longrightarrow>
    pull_net_step str anext aclose subject i n
      (n\<lparr>pn_server := pull_step str anext aclose (Published None) (pn_server n)\<rparr>)"
| server_unsubscribes: "ps_unsub_due (pn_server n) \<Longrightarrow> ps_phase (pn_server n) = Idle \<Longrightarrow>
    pull_net_step str anext aclose subject i n
      (n\<lparr>pn_server := pull_step str anext aclose Unsub_Task (pn_server n)\<rparr>)"
| response_delivered: "pn_delivered n < length (ps_sent (pn_server n)) \<Longrightarrow>
    pull_net_step str anext aclose subject i n
      (n\<lparr>pn_client := consumer_step str subject i
            (Response_Arrives (pull_response_msg i (ps_sent (pn_server n) ! pn_delivered n))) (pn_client n),
         pn_delivered := Suc (pn_delivered n)\<rparr>)"
| client_takes: "pk_phase (pn_client n) = Waiting_Response \<Longrightarrow> pk_queue (pn_client n) \<noteq> [] \<Longrightarrow>
    pull_net_step str anext aclose subject i n (n\<lparr>pn_client := consumer_step str subject i Take (pn_client n)\<rparr>)"
| consumer_resumes: "pk_phase (pn_client n) = At_Yield \<Longrightarrow>
    pull_net_step str anext aclose subject i n (n\<lparr>pn_client := consumer_step str subject i Resume (pn_client n)\<rparr>)"
| consumer_leaves: "pk_phase (pn_client n) = At_Yield \<Longrightarrow>
    pull_net_step str anext aclose subject i n (n\<lparr>pn_client := consumer_step str subject i Leave (pn_client n)\<rparr>)"

section \<open>The two sides stay in step\<close>

text \<open>The answer of the generator to request number \<open>k\<close> (from zero).\<close>

definition answer :: "(exc \<Rightarrow> string) \<Rightarrow> ('g \<Rightarrow> gen_event \<times> 'g) \<Rightarrow> 'g \<Rightarrow> nat \<Rightarrow> pull_response" where
  "answer str anext g k = (case fst (anext (gen_after anext g k)) of
      Yields v \<Rightarrow> Pull_Value v
    | Stops \<Rightarrow> Pull_Done
    | Raises x \<Rightarrow> Pull_Error (format_error_dict str x))"

definition server_ready :: "('g \<Rightarrow> gen_event \<times> 'g) \<Rightarrow> 'g \<Rightarrow> nat \<Rightarrow> 'g pull_session \<Rightarrow> bool" where
  "server_ready anext g k s \<longleftrightarrow> ps_phase s = Idle \<and> ps_active s \<and> \<not> ps_finished s \<and> ps_subscribed s \<and> \<not> ps_unsub_due s \<and>
     ps_gen s = gen_after anext g k"

text \<open>After its answer the server is ready for the next request, or has ended.\<close>

definition server_answered :: "('g \<Rightarrow> gen_event \<times> 'g) \<Rightarrow> 'g \<Rightarrow> nat \<Rightarrow> 'g pull_session \<Rightarrow> bool" where
  "server_answered anext g k s \<longleftrightarrow>
     (case fst (anext (gen_after anext g k)) of Yields _ \<Rightarrow> server_ready anext g (Suc k) s | _ \<Rightarrow> ps_phase s = Idle)"

datatype stage = Asked | Computing | Answering | In_Flight | Queued

fun at_stage :: "stage \<Rightarrow> (exc \<Rightarrow> string) \<Rightarrow> ('g \<Rightarrow> gen_event \<times> 'g) \<Rightarrow> 'g \<Rightarrow> string \<Rightarrow> nat \<Rightarrow> 'g pull_net \<Rightarrow> bool" where
  "at_stage Asked str anext g i k n \<longleftrightarrow>
     pk_queue (pn_client n) = [] \<and> length (pk_sent (pn_client n)) = Suc (pn_taken n) \<and>
     pk_sent (pn_client n) ! pn_taken n = Pull_Next \<and> pn_delivered n = length (ps_sent (pn_server n)) \<and>
     server_ready anext g k (pn_server n)"
| "at_stage Computing str anext g i k n \<longleftrightarrow>
     pk_queue (pn_client n) = [] \<and> length (pk_sent (pn_client n)) = pn_taken n \<and>
     pn_delivered n = length (ps_sent (pn_server n)) \<and> server_ready anext g k ((pn_server n)\<lparr>ps_phase := Idle\<rparr>) \<and>
     ps_phase (pn_server n) = In_Next"
| "at_stage Answering str anext g i k n \<longleftrightarrow>
     pk_queue (pn_client n) = [] \<and> length (pk_sent (pn_client n)) = pn_taken n \<and>
     pn_delivered n = length (ps_sent (pn_server n)) \<and> \<not> ps_finished (pn_server n) \<and> \<not> ps_unsub_due (pn_server n) \<and>
     (case fst (anext (gen_after anext g k)) of
        Yields v \<Rightarrow> ps_phase (pn_server n) = Sending_Value v \<and>
          server_ready anext g (Suc k) ((pn_server n)\<lparr>ps_phase := Idle\<rparr>)
      | Stops \<Rightarrow> ps_phase (pn_server n) = Sending_Done
      | Raises x \<Rightarrow> ps_phase (pn_server n) = Sending_Error x)"
| "at_stage In_Flight str anext g i k n \<longleftrightarrow>
     pk_queue (pn_client n) = [] \<and> length (pk_sent (pn_client n)) = pn_taken n \<and>
     length (ps_sent (pn_server n)) = Suc (pn_delivered n) \<and>
     ps_sent (pn_server n) ! pn_delivered n = answer str anext g k \<and> server_answered anext g k (pn_server n)"
| "at_stage Queued str anext g i k n \<longleftrightarrow>
     (\<exists>d. pk_queue (pn_client n) = [d] \<and> PDict d = pull_response_msg i (answer str anext g k)) \<and>
     (terminal (answer str anext g k) \<longrightarrow> pk_ended (pn_client n)) \<and>
     length (pk_sent (pn_client n)) = pn_taken n \<and>
     pn_delivered n = length (ps_sent (pn_server n)) \<and> server_answered anext g k (pn_server n)"

definition over_ok :: "(exc \<Rightarrow> string) \<Rightarrow> ('g \<Rightarrow> gen_event \<times> 'g) \<Rightarrow> 'g \<Rightarrow> nat \<Rightarrow> outcome \<Rightarrow> bool" where
  "over_ok str anext g k out \<longleftrightarrow>
     (case out of
        Ended \<Rightarrow> fst (anext (gen_after anext g k)) = Stops
      | Failed e \<Rightarrow> (\<exists>x r. fst (anext (gen_after anext g k)) = Raises x \<and>
          from_dict (PDict (format_error_dict str x)) = Inr r \<and> e = RPC r)
      | Left \<Rightarrow> True)"

definition synced :: "(exc \<Rightarrow> string) \<Rightarrow> ('g \<Rightarrow> gen_event \<times> 'g) \<Rightarrow> 'g \<Rightarrow> string \<Rightarrow> 'g pull_net \<Rightarrow> bool" where
  "synced str anext g i n \<longleftrightarrow>
     (let c = pn_client n; k = length (pk_yielded c)
      in pk_yielded c = gen_values anext g k \<and> pn_taken n \<le> length (pk_sent c) \<and>
         pn_delivered n \<le> length (ps_sent (pn_server n)) \<and>
         (case pk_phase c of
            Over out \<Rightarrow> over_ok str anext g k out \<and> \<not> pk_subscribed c
          | Cancelling out \<Rightarrow> out = Left \<and> \<not> pk_subscribed c
          | Waiting_Response \<Rightarrow> pk_subscribed c \<and> (\<exists>st. at_stage st str anext g i k n)
          | Requesting \<Rightarrow> pk_subscribed c \<and> pk_queue c = [] \<and> length (pk_sent c) = pn_taken n \<and>
              pn_delivered n = length (ps_sent (pn_server n)) \<and> server_ready anext g k (pn_server n)
          | At_Yield \<Rightarrow> pk_subscribed c \<and> pk_queue c = [] \<and> length (pk_sent c) = pn_taken n \<and>
              pn_delivered n = length (ps_sent (pn_server n)) \<and> server_ready anext g k (pn_server n)
          | _ \<Rightarrow> False))"

lemma synced_init: "synced str anext g i (pull_net_init str subject i g)"
  by (simp add: synced_def pull_net_init_def start_pull_def pull_initialised_def iterator_ready_def pull_subscribed_def
      open_pull_def server_ready_def)

lemma handle_pull_messages:
  "handle_pull_request (pull_request_msg i Pull_Next) s = (if ps_active s then s\<lparr>ps_phase := In_Next\<rparr> else s)"
  "handle_pull_request (pull_request_msg i Pull_Cancel) s =
     (if ps_active s then s\<lparr>ps_active := False, ps_phase := In_Close\<rparr> else s)"
  by (simp_all add: handle_pull_request_def pull_request_msg_def msg_type_def)

lemma handle_response_messages:
  "pk_queue (handle_response (PDict d) c) = pk_queue c @ [d]" if "PDict d = pull_response_msg i (answer str anext g k)"
  using that from_dict_format_error_dict [of str]
  by (cases "fst (anext (gen_after anext g k))")
     (auto simp: handle_response_def pull_response_msg_def msg_type_def answer_def Let_def split: sum.split, metis sum.distinct(1))

lemma handle_response_ended:
  "PDict d = pull_response_msg i (answer str anext g k) \<Longrightarrow>
   pk_ended (handle_response (PDict d) c) = (case fst (anext (gen_after anext g k)) of Yields _ \<Rightarrow> pk_ended c | _ \<Rightarrow> True)"
  using from_dict_format_error_dict [of str]
  by (cases "fst (anext (gen_after anext g k))")
     (auto simp: handle_response_def pull_response_msg_def msg_type_def answer_def Let_def format_error_dict_def to_dict_def from_dict_def split: sum.split exc.split)

lemma sent_grows: "length (ps_sent s) \<le> length (ps_sent (pull_step str anext aclose ev s))"
  by (cases ev; cases "ps_phase s")
     (simp_all add: pull_defs split: pyval.split gen_event.split option.split prod.split cleanup_phase.split)

text \<open>Once the consumer has left or finished, nothing that is delivered changes what it got.\<close>

definition gone :: "pull_client \<Rightarrow> bool" where
  "gone c = (case pk_phase c of Over _ \<Rightarrow> True | Cancelling _ \<Rightarrow> True | _ \<Rightarrow> False)"

lemma synced_gone:
  assumes "synced str anext g i n" "gone (pn_client n)" "pull_net_step str anext aclose subject i n n'"
  shows "synced str anext g i n' \<and> gone (pn_client n') \<and> pk_yielded (pn_client n') = pk_yielded (pn_client n)"
  using assms(3)
proof cases
  case client_publishes
  then obtain out where "pk_phase (pn_client n) = Cancelling out" using assms(2) by (cases "pk_phase (pn_client n)") (auto simp: gone_def)
  then show ?thesis using assms(1) by (auto simp: client_publishes synced_def gone_def pull_request_published_def over_ok_def Let_def)
next
  case request_delivered
  then show ?thesis
    using assms(1,2) sent_grows [of "pn_server n" str anext aclose "Request (pull_request_msg i (pk_sent (pn_client n) ! pn_taken n))"]
    by (cases "pk_phase (pn_client n)") (auto simp: synced_def gone_def Let_def)
next
  case generator_resumes
  then show ?thesis
    using assms(1,2) sent_grows [of "pn_server n" str anext aclose Gen_Resumes]
    by (cases "pk_phase (pn_client n)") (auto simp: synced_def gone_def Let_def)
next
  case server_publishes
  then show ?thesis
    using assms(1,2) sent_grows [of "pn_server n" str anext aclose "Published None"]
    by (cases "pk_phase (pn_client n)") (auto simp: synced_def gone_def Let_def)
next
  case server_unsubscribes
  then show ?thesis
    using assms(1,2) sent_grows [of "pn_server n" str anext aclose Unsub_Task]
    by (cases "pk_phase (pn_client n)") (auto simp: synced_def gone_def Let_def)
next
  case response_delivered
  then show ?thesis
    using assms(1,2) by (cases "pk_phase (pn_client n)") (auto simp: synced_def gone_def Let_def)
qed (use assms(2) in \<open>auto simp: gone_def\<close>)

lemma synced_waitingI:
  assumes "at_stage st str anext g i (length (pk_yielded (pn_client n))) n"
    "pk_phase (pn_client n) = Waiting_Response" "pk_subscribed (pn_client n)"
    "pk_yielded (pn_client n) = gen_values anext g (length (pk_yielded (pn_client n)))"
  shows "synced str anext g i n"
  using assms by (cases st) (auto simp: synced_def Let_def intro: exI [of _ st])

lemma synced_request:
  assumes "synced str anext g i n" "pk_phase (pn_client n) = Requesting" "pull_net_step str anext aclose subject i n n'"
  shows "synced str anext g i n'"
  using assms(3)
proof cases
  case client_publishes
  have "at_stage Asked str anext g i (length (pk_yielded (pn_client n))) n'"
    using assms(1,2) by (simp add: client_publishes synced_def pull_request_published_def nth_append Let_def)
  then show ?thesis
    by (intro synced_waitingI [of Asked])
       (use assms(1,2) in \<open>simp_all add: client_publishes synced_def pull_request_published_def Let_def\<close>)
qed (use assms(1,2) in \<open>auto simp: synced_def server_ready_def Let_def\<close>)

lemma synced_yield:
  assumes "synced str anext g i n" "pk_phase (pn_client n) = At_Yield" "pull_net_step str anext aclose subject i n n'"
  shows "synced str anext g i n'"
  using assms(3)
proof cases
  case consumer_leaves
  then show ?thesis using assms(1,2) by (auto simp: synced_def pull_leave_def over_ok_def Let_def)
qed (use assms(1,2) in \<open>auto simp: synced_def server_ready_def Let_def\<close>)

lemma take_queued:
  assumes "at_stage Queued str anext g i k n"
  obtains (yield) v where "fst (anext (gen_after anext g k)) = Yields v"
      "take_response (pn_client n) = (pn_client n)\<lparr>pk_queue := [], pk_yielded := pk_yielded (pn_client n) @ [v], pk_phase := At_Yield\<rparr>"
  | (over) out where "over_ok str anext g k out" "\<forall>v. fst (anext (gen_after anext g k)) \<noteq> Yields v"
      "take_response (pn_client n) = (pn_client n)\<lparr>pk_queue := [], pk_settle := False, pk_status := False,
         pk_subscribed := False, pk_phase := Over out\<rparr>"
proof -
  let ?c = "pn_client n"
  obtain d where d: "pk_queue ?c = [d]" "PDict d = pull_response_msg i (answer str anext g k)" using assms by auto
  have e: "terminal (answer str anext g k) \<longrightarrow> pk_ended ?c" using assms by simp
  note defs = take_response_def answer_def pull_response_msg_def msg_type_def pull_leave_def
  show thesis
  proof (cases "fst (anext (gen_after anext g k))")
    case (Yields v)
    then show thesis using d by (intro yield [of v]) (simp_all add: defs)
  next
    case Stops
    then show thesis using d e by (intro over [of Ended]) (simp_all add: defs over_ok_def)
  next
    case (Raises x)
    obtain r where r: "from_dict (PDict (format_error_dict str x)) = Inr r" using from_dict_format_error_dict [of str x] by blast
    have "truthy (PDict (format_error_dict str x))" by (simp add: format_error_dict_def to_dict_def split: exc.split)
    then show thesis using d e r Raises by (intro over [of "Failed (RPC r)"]) (simp_all add: defs over_ok_def)
  qed
qed

lemma synced_take:
  assumes "synced str anext g i n" "pk_phase (pn_client n) = Waiting_Response"
    "at_stage Queued str anext g i (length (pk_yielded (pn_client n))) n"
  shows "synced str anext g i (n\<lparr>pn_client := take_response (pn_client n)\<rparr>)"
  using assms(3)
proof (cases rule: take_queued)
  case (yield v)
  let ?c = "pn_client n" and ?k = "length (pk_yielded (pn_client n))"
  have "gen_values anext g (Suc ?k) = pk_yielded ?c @ [v]"
    using gen_values_Suc [of anext g ?k] assms(1) yield(1) by (simp add: synced_def Let_def)
  then show ?thesis
    using assms yield by (auto simp: synced_def server_answered_def Let_def simp del: gen_values.simps)
next
  case (over out)
  then show ?thesis using assms by (auto simp: synced_def Let_def)
qed

lemma synced_wait:
  assumes "synced str anext g i n" "pk_phase (pn_client n) = Waiting_Response" "pull_net_step str anext aclose subject i n n'"
  shows "synced str anext g i n'"
proof -
  let ?c = "pn_client n" and ?s = "pn_server n" and ?k = "length (pk_yielded (pn_client n))"
  obtain st where st: "at_stage st str anext g i ?k n" using assms(1,2) by (auto simp: synced_def Let_def)
  have live: "pk_subscribed ?c" "pk_yielded ?c = gen_values anext g ?k" using assms(1,2) by (auto simp: synced_def Let_def)
  show ?thesis
    using assms(3)
  proof cases
    case request_delivered
    then have "at_stage Computing str anext g i ?k n'"
      using st by (cases st) (auto simp: server_ready_def handle_pull_messages)
    then show ?thesis by (intro synced_waitingI [of Computing]) (use assms(2) live request_delivered in simp_all)
  next
    case generator_resumes
    then have "at_stage Answering str anext g i ?k n'"
      using st gen_after_Suc [of anext g ?k]
      by (cases st; cases "anext (ps_gen ?s)"; cases "fst (anext (ps_gen ?s))")
         (auto simp: server_ready_def server_answered_def pull_resumes_def fail_def split: gen_event.splits)
    then show ?thesis by (intro synced_waitingI [of Answering]) (use assms(2) live generator_resumes in simp_all)
  next
    case server_publishes
    then have "at_stage In_Flight str anext g i ?k n'"
      using st by (cases st) (auto simp: server_ready_def server_answered_def pull_published_def finish_def answer_def nth_append
          split: gen_event.splits)
    then show ?thesis by (intro synced_waitingI [of In_Flight]) (use assms(2) live server_publishes in simp_all)
  next
    case server_unsubscribes
    have "at_stage st str anext g i ?k n'"
      using st server_unsubscribes
      by (cases st) (auto simp: server_ready_def server_answered_def pull_unsub_def pull_abort_def split: gen_event.splits)
    then show ?thesis by (intro synced_waitingI [of st]) (use assms(2) live server_unsubscribes in simp_all)
  next
    case response_delivered
    then have F: "at_stage In_Flight str anext g i ?k n" using st by (cases st) auto
    obtain d where d: "PDict d = pull_response_msg i (answer str anext g ?k)" by (simp add: pull_response_msg_def)
    have "at_stage Queued str anext g i ?k n'"
      using F live handle_response_messages [OF d] handle_response_ended [OF d, of ?c] d
      by (auto simp: response_delivered handle_response_keeps(1-6) d [symmetric] answer_def split: gen_event.splits)
    then show ?thesis
      by (intro synced_waitingI [of Queued])
         (use assms(2) live response_delivered in \<open>simp_all add: handle_response_keeps(1-6)\<close>)
  next
    case client_takes
    then have "at_stage Queued str anext g i ?k n" using st by (cases st) auto
    then show ?thesis using synced_take [OF assms(1,2)] assms(2) by (simp add: client_takes)
  qed (use assms(2) in simp_all)
qed

lemma synced_step: "synced str anext g i n \<Longrightarrow> pull_net_step str anext aclose subject i n n' \<Longrightarrow> synced str anext g i n'"
proof -
  assume a: "synced str anext g i n" "pull_net_step str anext aclose subject i n n'"
  consider "gone (pn_client n)" | "pk_phase (pn_client n) = Requesting" | "pk_phase (pn_client n) = At_Yield"
    | "pk_phase (pn_client n) = Waiting_Response"
    using a(1) by (cases "pk_phase (pn_client n)") (auto simp: gone_def synced_def Let_def)
  then show ?thesis
    using synced_gone [OF a(1) _ a(2)] synced_request [OF a(1) _ a(2)] synced_yield [OF a(1) _ a(2)]
      synced_wait [OF a(1) _ a(2)] by blast
qed

section \<open>What the consumer gets\<close>

lemma gen_runs_values:
  assumes "gen_runs anext g vs fin" "length (gen_values anext g k) = k"
  shows "k \<le> length vs \<and> gen_values anext g k = take k vs \<and>
    fst (anext (gen_after anext g k)) = (if k < length vs then Yields (vs ! k) else fin)"
  using assms
proof (induction k arbitrary: g vs)
  case 0
  then show ?case by (cases vs) auto
next
  case (Suc k)
  then obtain v g' where a: "anext g = (Yields v, g')" by (auto split: prod.splits gen_event.splits)
  with Suc.prems obtain vs' where vs: "vs = v # vs'" "gen_runs anext g' vs' fin" by (cases vs) auto
  show ?case using Suc.IH [OF vs(2)] Suc.prems(2) a by (simp add: vs(1))
qed

lemma synced_values:
  assumes "synced str anext g i n" "gen_runs anext g vs fin"
  shows "length (pk_yielded (pn_client n)) \<le> length vs"
    "pk_yielded (pn_client n) = take (length (pk_yielded (pn_client n))) vs"
    "fst (anext (gen_after anext g (length (pk_yielded (pn_client n))))) =
       (if length (pk_yielded (pn_client n)) < length vs then Yields (vs ! length (pk_yielded (pn_client n))) else fin)"
proof -
  have y: "pk_yielded (pn_client n) = gen_values anext g (length (pk_yielded (pn_client n)))"
    using assms(1) unfolding synced_def Let_def by blast
  then have "length (gen_values anext g (length (pk_yielded (pn_client n)))) = length (pk_yielded (pn_client n))" by simp
  from gen_runs_values [OF assms(2) this] y show
    "length (pk_yielded (pn_client n)) \<le> length vs"
    "pk_yielded (pn_client n) = take (length (pk_yielded (pn_client n))) vs"
    "fst (anext (gen_after anext g (length (pk_yielded (pn_client n))))) =
       (if length (pk_yielded (pn_client n)) < length vs then Yields (vs ! length (pk_yielded (pn_client n))) else fin)"
    by simp_all
qed

lemma synced_reachable:
  "(pull_net_step str anext aclose subject i)\<^sup>*\<^sup>* (pull_net_init str subject i g) n \<Longrightarrow> synced str anext g i n"
  by (induction rule: rtranclp_induct) (blast intro: synced_init synced_step)+

text \<open>
  C23. End to end, over any interleaving of the two sides: what the consumer of a pull iterator has got
  is always a beginning of what the handler's generator yields; when the iteration ends by itself the
  consumer has got all of it, and when it fails it has got all of it and then the generator's own error.
\<close>

theorem pull_end_to_end:
  assumes "gen_runs anext g vs fin"
    and "(pull_net_step str anext aclose subject i)\<^sup>*\<^sup>* (pull_net_init str subject i g) n"
  shows "prefix (pk_yielded (pn_client n)) vs \<and>
    (pk_phase (pn_client n) = Over Ended \<longrightarrow> pk_yielded (pn_client n) = vs \<and> fin = Stops) \<and>
    (\<forall>e. pk_phase (pn_client n) = Over (Failed e) \<longrightarrow>
       pk_yielded (pn_client n) = vs \<and> (\<exists>x r. fin = Raises x \<and> from_dict (PDict (format_error_dict str x)) = Inr r \<and> e = RPC r))"
proof -
  let ?c = "pn_client n"
  have s: "synced str anext g i n" by (rule synced_reachable [OF assms(2)])
  note v = synced_values [OF s assms(1)]
  have o: "over_ok str anext g (length (pk_yielded ?c)) out" if "pk_phase ?c = Over out" for out
    using s that by (simp add: synced_def Let_def)
  have "prefix (pk_yielded ?c) vs" using v(2) by (metis take_is_prefix)
  moreover have "pk_yielded ?c = vs \<and> fin = Stops" if "pk_phase ?c = Over Ended"
    using o [OF that] v by (auto simp: over_ok_def split: if_splits)
  moreover have "pk_yielded ?c = vs \<and> (\<exists>x r. fin = Raises x \<and> from_dict (PDict (format_error_dict str x)) = Inr r \<and> e = RPC r)"
    if "pk_phase ?c = Over (Failed e)" for e
    using o [OF that] v by (auto simp: over_ok_def split: if_splits)
  ultimately show ?thesis by blast
qed

section \<open>The iteration ends\<close>

fun consumer_weight :: "consumer_phase \<Rightarrow> nat" where
  "consumer_weight At_Yield = 8"
| "consumer_weight Requesting = 7"
| "consumer_weight (Cancelling _) = 7"
| "consumer_weight _ = 0"

fun server_weight :: "pull_phase \<Rightarrow> nat" where
  "server_weight Idle = 0"
| "server_weight In_Next = 5"
| "server_weight In_Close = 5"
| "server_weight _ = 4"

definition pull_measure :: "pyval list \<Rightarrow> 'g pull_net \<Rightarrow> nat" where
  "pull_measure vs n = 10 * (length vs - length (pk_yielded (pn_client n))) + consumer_weight (pk_phase (pn_client n)) +
     6 * (length (pk_sent (pn_client n)) - pn_taken n) + server_weight (ps_phase (pn_server n)) +
     2 * (length (ps_sent (pn_server n)) - pn_delivered n) + length (pk_queue (pn_client n)) +
     (if ps_unsub_due (pn_server n) then 1 else 0)"

lemma measure_server:
  "ps_phase s = Idle \<Longrightarrow> server_weight (ps_phase (pull_step str anext aclose (Request m) s)) < 6 \<and>
     ps_sent (pull_step str anext aclose (Request m) s) = ps_sent s \<and>
     ps_unsub_due (pull_step str anext aclose (Request m) s) = ps_unsub_due s"
  "ps_phase s = In_Next \<or> ps_phase s = In_Close \<Longrightarrow> server_weight (ps_phase (pull_step str anext aclose Gen_Resumes s)) = 4 \<and>
     ps_sent (pull_step str anext aclose Gen_Resumes s) = ps_sent s \<and>
     ps_unsub_due (pull_step str anext aclose Gen_Resumes s) = ps_unsub_due s"
  "is_sending (ps_phase s) \<Longrightarrow> ps_phase (pull_step str anext aclose (Published None) s) = Idle \<and>
     length (ps_sent (pull_step str anext aclose (Published None) s)) = Suc (length (ps_sent s))"
  "ps_phase s = Idle \<Longrightarrow> ps_unsub_due s \<Longrightarrow> ps_phase (pull_step str anext aclose Unsub_Task s) = Idle \<and>
     \<not> ps_unsub_due (pull_step str anext aclose Unsub_Task s) \<and>
     ps_sent (pull_step str anext aclose Unsub_Task s) = ps_sent s"
proof -
  show "server_weight (ps_phase (pull_step str anext aclose (Request m) s)) < 6 \<and>
     ps_sent (pull_step str anext aclose (Request m) s) = ps_sent s \<and>
     ps_unsub_due (pull_step str anext aclose (Request m) s) = ps_unsub_due s" if "ps_phase s = Idle"
    using that by (cases m) (auto simp: handle_pull_request_def fail_def)
  show "server_weight (ps_phase (pull_step str anext aclose Gen_Resumes s)) = 4 \<and>
     ps_sent (pull_step str anext aclose Gen_Resumes s) = ps_sent s \<and>
     ps_unsub_due (pull_step str anext aclose Gen_Resumes s) = ps_unsub_due s"
    if "ps_phase s = In_Next \<or> ps_phase s = In_Close"
    using that by (auto simp: pull_resumes_def fail_def split: prod.split gen_event.split option.split)
  show "ps_phase (pull_step str anext aclose (Published None) s) = Idle \<and>
     length (ps_sent (pull_step str anext aclose (Published None) s)) = Suc (length (ps_sent s))"
    if "is_sending (ps_phase s)"
    using that by (cases "ps_phase s") (auto simp: pull_published_def finish_def)
  show "ps_phase (pull_step str anext aclose Unsub_Task s) = Idle \<and>
     \<not> ps_unsub_due (pull_step str anext aclose Unsub_Task s) \<and>
     ps_sent (pull_step str anext aclose Unsub_Task s) = ps_sent s" if "ps_phase s = Idle" "ps_unsub_due s"
    using that by (simp add: pull_unsub_def pull_abort_def)
qed

lemma handle_response_queue: "length (pk_queue (handle_response m c)) \<le> Suc (length (pk_queue c))"
  by (cases m) (auto simp: handle_response_def Let_def split: sum.split)

lemma pull_measure_decreases:
  assumes "synced str anext g i n" "gen_runs anext g vs fin" "pull_net_step str anext aclose subject i n n'"
  shows "pull_measure vs n' < pull_measure vs n"
  using assms(3)
proof cases
  case client_publishes
  have t: "pn_taken n \<le> length (pk_sent (pn_client n))" using assms(1) by (simp add: synced_def Let_def)
  show ?thesis
    using client_publishes(2) t
    by (cases "pk_phase (pn_client n)") (auto simp: client_publishes(1) pull_measure_def pull_request_published_def)
next
  case request_delivered
  have "length (pk_sent (pn_client n)) - pn_taken n = Suc (length (pk_sent (pn_client n)) - Suc (pn_taken n))"
    using request_delivered(2) by simp
  then show ?thesis
    using request_delivered measure_server(1) [of "pn_server n" str anext aclose "pull_request_msg i (pk_sent (pn_client n) ! pn_taken n)"]
    by (simp add: pull_measure_def del: pull_step.simps)
next
  case generator_resumes
  then show ?thesis
    using measure_server(2) [of "pn_server n" str anext aclose] by (auto simp: pull_measure_def simp del: pull_step.simps)
next
  case server_publishes
  have "server_weight (ps_phase (pn_server n)) = 4" using server_publishes(2) by (cases "ps_phase (pn_server n)") auto
  moreover have "pn_delivered n \<le> length (ps_sent (pn_server n))" using assms(1) by (simp add: synced_def Let_def)
  ultimately show ?thesis
    using measure_server(3) [OF server_publishes(2), of str anext aclose]
    by (simp add: server_publishes(1) pull_measure_def Suc_diff_le del: pull_step.simps)
next
  case server_unsubscribes
  then show ?thesis
    using measure_server(4) [of "pn_server n" str anext aclose] by (simp add: pull_measure_def del: pull_step.simps)
next
  case response_delivered
  then show ?thesis
    using handle_response_queue [of "pull_response_msg i (ps_sent (pn_server n) ! pn_delivered n)" "pn_client n"]
    by (auto simp: pull_measure_def handle_response_keeps(1-6))
next
  case client_takes
  have w: "pk_phase (pn_client n) = Waiting_Response" by fact
  from assms(1) w obtain st where "at_stage st str anext g i (length (pk_yielded (pn_client n))) n"
    by (auto simp: synced_def Let_def)
  with client_takes have st: "at_stage Queued str anext g i (length (pk_yielded (pn_client n))) n" by (cases st) auto
  note sy = synced_take [OF assms(1) w st]
  have q: "length (pk_queue (pn_client n)) = 1" using st by auto
  from st show ?thesis
  proof (cases rule: take_queued)
    case (yield v)
    have "length (pk_yielded (pn_client n)) < length vs"
      using synced_values(1) [OF sy assms(2)] yield by simp
    then show ?thesis using yield q w client_takes(1) by (simp add: pull_measure_def)
  next
    case (over out)
    then show ?thesis using q w client_takes(1) by (simp add: pull_measure_def)
  qed
next
  case consumer_resumes
  then show ?thesis by (simp add: pull_measure_def)
next
  case consumer_leaves
  then show ?thesis by (simp add: pull_measure_def pull_leave_def)
qed

text \<open>As long as the iteration is not over, something can happen.\<close>

lemma pull_net_progress:
  assumes "synced str anext g i n" "\<forall>out. pk_phase (pn_client n) \<noteq> Over out"
  shows "\<exists>n'. pull_net_step str anext aclose subject i n n'"
proof (cases "pk_phase (pn_client n)")
  case Waiting_Response
  then obtain st where "at_stage st str anext g i (length (pk_yielded (pn_client n))) n"
    using assms(1) by (auto simp: synced_def Let_def)
  then show ?thesis
  proof (cases st)
    case Asked
    then have "pn_taken n < length (pk_sent (pn_client n))" "ps_phase (pn_server n) = Idle"
      using \<open>at_stage st _ _ _ _ _ _\<close> by (simp_all add: server_ready_def)
    then show ?thesis by (blast intro: request_delivered)
  next
    case Computing
    then have "ps_phase (pn_server n) = In_Next" using \<open>at_stage st _ _ _ _ _ _\<close> by simp
    then show ?thesis by (blast intro: generator_resumes)
  next
    case Answering
    then have "is_sending (ps_phase (pn_server n))"
      using \<open>at_stage st _ _ _ _ _ _\<close> by (auto split: gen_event.splits)
    then show ?thesis by (blast intro: server_publishes)
  next
    case In_Flight
    then have "pn_delivered n < length (ps_sent (pn_server n))" using \<open>at_stage st _ _ _ _ _ _\<close> by simp
    then show ?thesis by (blast intro: response_delivered)
  next
    case Queued
    then have "pk_queue (pn_client n) \<noteq> []" using \<open>at_stage st _ _ _ _ _ _\<close> by auto
    with Waiting_Response show ?thesis by (blast intro: client_takes)
  qed
next
  case Requesting
  then show ?thesis by (blast intro: client_publishes)
next
  case At_Yield
  then show ?thesis by (blast intro: consumer_resumes)
next
  case (Cancelling out)
  then have "is_cancelling (pk_phase (pn_client n))" by simp
  then show ?thesis by (blast intro: client_publishes)
qed (use assms in \<open>auto simp: synced_def Let_def\<close>)

interpretation pull_network: network "pull_net_step str anext aclose subject i"
    "\<lambda>n. gen_runs anext g vs fin \<and> synced str anext g i n" "pull_measure vs" "\<lambda>n. \<exists>out. pk_phase (pn_client n) = Over out"
  for str anext aclose subject i g vs fin
  by unfold_locales (blast intro: synced_step pull_measure_decreases pull_net_progress)+

text \<open>
  C24. The iteration over a finite generator terminates: every run of the joined system is at most
  \<open>10 * n + 7\<close> steps long for \<open>n\<close> values, and it does not stop before the consumer's loop is over.
\<close>

theorem pull_terminates:
  assumes "gen_runs anext g vs fin"
    and "(pull_net_step str anext aclose subject i ^^ k) (pull_net_init str subject i g) n"
  shows "k \<le> 10 * length vs + 7 \<and>
    ((\<exists>n'. pull_net_step str anext aclose subject i n n') \<or> (\<exists>out. pk_phase (pn_client n) = Over out))"
proof -
  let ?n = "pull_net_init str subject i g"
  have "pull_measure vs ?n = 10 * length vs + 7"
    by (simp add: pull_measure_def pull_net_init_def start_pull_def pull_initialised_def iterator_ready_def
        pull_subscribed_def open_pull_def)
  moreover have ok: "gen_runs anext g vs fin \<and> synced str anext g i ?n" using assms(1) by (simp add: synced_init)
  ultimately show ?thesis using pull_network.run_ends [OF assms(2) ok] by simp
qed

section \<open>A run\<close>

type_synonym demo_net = "pyval list pull_net"

definition demo_net_init :: demo_net where
  "demo_net_init = pull_net_init (\<lambda>_. []) ''s'' ''i'' [PInt 7]"

definition demo_drive :: "demo_net \<Rightarrow> demo_net" where
  "demo_drive n =
     (let c = pn_client n; s = pn_server n; cstep = consumer_step (\<lambda>_. []) ''s'' ''i'';
          sstep = pull_step (\<lambda>_. []) demo_anext demo_aclose
      in if pk_phase c = Requesting then n\<lparr>pn_client := cstep (Publish_Returns None) c\<rparr>
         else if pn_taken n < length (pk_sent c) \<and> ps_phase s = Idle
         then n\<lparr>pn_server := sstep (Request (pull_request_msg ''i'' (pk_sent c ! pn_taken n))) s, pn_taken := Suc (pn_taken n)\<rparr>
         else if ps_phase s = In_Next then n\<lparr>pn_server := sstep Gen_Resumes s\<rparr>
         else if is_sending (ps_phase s) then n\<lparr>pn_server := sstep (Published None) s\<rparr>
         else if pn_delivered n < length (ps_sent s)
         then n\<lparr>pn_client := cstep (Response_Arrives (pull_response_msg ''i'' (ps_sent s ! pn_delivered n))) c,
                pn_delivered := Suc (pn_delivered n)\<rparr>
         else if pk_phase c = Waiting_Response \<and> pk_queue c \<noteq> [] then n\<lparr>pn_client := cstep Take c\<rparr>
         else if pk_phase c = At_Yield then n\<lparr>pn_client := cstep Resume c\<rparr>
         else n)"

lemma demo_drive_steps: "(pull_net_step (\<lambda>_. []) demo_anext demo_aclose ''s'' ''i'')\<^sup>*\<^sup>* n (demo_drive n)"
  unfolding demo_drive_def Let_def
  by (auto simp del: consumer_step.simps pull_step.simps intro!: r_into_rtranclp intro: pull_net_step.intros)

lemma demo_runs: "(pull_net_step (\<lambda>_. []) demo_anext demo_aclose ''s'' ''i'')\<^sup>*\<^sup>* demo_net_init ((demo_drive ^^ k) demo_net_init)"
  by (induction k) (auto intro: rtranclp_trans demo_drive_steps)

lemma demo_gen_runs: "gen_runs demo_anext [PInt 7] [PInt 7] Stops"
  by (simp add: demo_anext_def)

lemma demo_over: "pk_phase (pn_client ((demo_drive ^^ 13) demo_net_init)) = Over Ended"
  by (simp add: demo_drive_def Let_def demo_net_init_def pull_net_init_def start_pull_def pull_initialised_def
      iterator_ready_def pull_subscribed_def open_pull_def pull_request_published_def handle_pull_messages
      pull_resumes_def demo_anext_def pull_published_def handle_response_def pull_response_msg_def msg_type_def
      take_response_def pull_leave_def finish_def eval_nat_numeral)

theorem pull_end_to_end_witness:
  "pk_yielded (pn_client ((demo_drive ^^ 13) demo_net_init)) = [PInt 7]"
  using pull_end_to_end [OF demo_gen_runs demo_runs [of 13, unfolded demo_net_init_def]] demo_over
  unfolding demo_net_init_def by blast

theorem pull_terminates_witness:
  "\<exists>n'. pull_net_step (\<lambda>_. []) demo_anext demo_aclose ''s'' ''i'' demo_net_init n'"
proof -
  have "(pull_net_step (\<lambda>_. []) demo_anext demo_aclose ''s'' ''i'' ^^ 0) demo_net_init demo_net_init" by simp
  from pull_terminates [OF demo_gen_runs this [unfolded demo_net_init_def]]
  show ?thesis unfolding demo_net_init_def [symmetric] by (auto simp: demo_net_init_def pull_net_init_def pull_subscribed_def
      start_pull_def pull_initialised_def iterator_ready_def)
qed

end
