(* ===== verification/Channels.thy ===== *)
theory Channels
  imports Proxies Once Messages Codec_Correct "HOL-Library.Char_ord" "HOL-Library.List_Lexorder"
begin

text \<open>
  \<open>channel.py\<close>: channels between clients and their private variant, and \<open>channel\<close> and \<open>private_channel\<close> of
  \<open>client.py\<close>. The effects of a channel are collected in its log in the order in which they happen; \<open>run\<close> is what
  calling a handler raises.
\<close>

section \<open>State\<close>

datatype channel_effect =
    Emit nat pyval
  | Handler_Error exc
  | Closing
  | Close_Handler nat
  | Error_Handler nat pyval
  | Sent string pyval
  | Subscribed string
  | Unsubscribed
  | Request_Handler string nat
  | Request_Unsubscribed nat
  | Cleanup_Scheduled

record channel =
  ch_id :: string
  ch_closed :: bool
  ch_initialized :: bool
  ch_unsubscribe :: bool
  ch_handlers :: "(string, (nat, bool) pydict) pydict"
  ch_close_handlers :: "(nat, bool) pydict"
  ch_error_handlers :: "(nat, bool) pydict"
  ch_subscriptions :: "nat list"
  ch_log :: "channel_effect list"

definition new_channel :: "string \<Rightarrow> channel" where
  "new_channel i = \<lparr>ch_id = i, ch_closed = False, ch_initialized = False, ch_unsubscribe = False, ch_handlers = [],
     ch_close_handlers = [], ch_error_handlers = [], ch_subscriptions = [], ch_log = []\<rparr>"

definition ChannelMessage :: "pyval \<Rightarrow> bool" where
  "ChannelMessage = typed_dict [(''type'', literal [''message'', ''close'', ''error'']), (''data'', anything),
     (''error'', or_none is_str), (''sender'', or_none is_str)] []"

definition log :: "channel_effect list \<Rightarrow> 'a channel_scheme \<Rightarrow> 'a channel_scheme" where
  "log es c = c\<lparr>ch_log := ch_log c @ es\<rparr>"

section \<open>Handlers\<close>

definition on_event :: "string \<Rightarrow> nat \<Rightarrow> bool \<Rightarrow> 'a channel_scheme \<Rightarrow> 'a channel_scheme" where
  "on_event event handler is_async c =
     (if event = ''close'' then c\<lparr>ch_close_handlers := dset handler is_async (ch_close_handlers c)\<rparr>
      else if event = ''error'' then c\<lparr>ch_error_handlers := dset handler is_async (ch_error_handlers c)\<rparr>
      else c\<lparr>ch_handlers := dset event
             (dset handler is_async (case dget (ch_handlers c) event of None \<Rightarrow> [] | Some hs \<Rightarrow> hs)) (ch_handlers c)\<rparr>)"

definition off_event :: "string \<Rightarrow> nat \<Rightarrow> 'a channel_scheme \<Rightarrow> 'a channel_scheme" where
  "off_event event handler c =
     (if event = ''close'' then c\<lparr>ch_close_handlers := dpop handler (ch_close_handlers c)\<rparr>
      else if event = ''error'' then c\<lparr>ch_error_handlers := dpop handler (ch_error_handlers c)\<rparr>
      else (case dget (ch_handlers c) event of
              None \<Rightarrow> c
            | Some hs \<Rightarrow> c\<lparr>ch_handlers := dset event (dpop handler hs) (ch_handlers c)\<rparr>))"

text \<open>\<open>_emit\<close>: the handlers of a snapshot, one after the other; what they raise is printed.\<close>

definition emit_effects :: "(nat \<Rightarrow> pyval \<Rightarrow> exc option) \<Rightarrow> pyval \<Rightarrow> (nat, bool) pydict \<Rightarrow> channel_effect list" where
  "emit_effects run data hs =
     concat (map (\<lambda>(h, _). Emit h data # (case run h data of None \<Rightarrow> [] | Some e \<Rightarrow> [Handler_Error e])) hs)"

definition emit :: "(nat \<Rightarrow> pyval \<Rightarrow> exc option) \<Rightarrow> string \<Rightarrow> pyval \<Rightarrow> 'a channel_scheme \<Rightarrow> 'a channel_scheme" where
  "emit run event data c =
     (case dget (ch_handlers c) event of None \<Rightarrow> c | Some hs \<Rightarrow> log (emit_effects run data hs) c)"

text \<open>\<open>_handle_close\<close> and \<open>_handle_error\<close>: exceptions of their handlers are suppressed.\<close>

definition handle_close :: "'a channel_scheme \<Rightarrow> 'a channel_scheme" where
  "handle_close c =
     (if ch_closed c then c
      else log (Closing # map Close_Handler (map fst (ch_close_handlers c)) @ [Cleanup_Scheduled]) (c\<lparr>ch_closed := True\<rparr>))"

definition handle_channel_error :: "pyval \<Rightarrow> 'a channel_scheme \<Rightarrow> 'a channel_scheme" where
  "handle_channel_error e c = log (map (\<lambda>h. Error_Handler h e) (map fst (ch_error_handlers c))) c"

definition cleanup :: "'a channel_scheme \<Rightarrow> 'a channel_scheme" where
  "cleanup c =
     (let c = c\<lparr>ch_handlers := [], ch_close_handlers := [], ch_error_handlers := []\<rparr>;
          c = log (map Request_Unsubscribed (ch_subscriptions c)) c
      in if ch_unsubscribe c then log [Unsubscribed] (c\<lparr>ch_unsubscribe := False\<rparr>) else c)"

section \<open>Channels\<close>

definition channel_subject :: "'a channel_scheme \<Rightarrow> string" where
  "channel_subject c = ''channel.'' @ ch_id c"

definition channel_init :: "'a channel_scheme \<Rightarrow> 'a channel_scheme" where
  "channel_init c =
     (if ch_initialized c then c
      else log [Subscribed (channel_subject c)] (c\<lparr>ch_initialized := True, ch_unsubscribe := True\<rparr>))"

text \<open>The part of both message handlers after the filter: dispatch on the type of the message.\<close>

definition dispatch_message :: "(nat \<Rightarrow> pyval \<Rightarrow> exc option) \<Rightarrow> (pyval \<times> pyval) list \<Rightarrow> 'a channel_scheme \<Rightarrow> 'a channel_scheme \<times> exc option" where
  "dispatch_message run msg c =
     (case sget msg ''type'' of
        None \<Rightarrow> (c, Some (Raised KeyError ''type''))
      | Some t \<Rightarrow>
          (if t = PStr ''message'' then emit run ''message'' (sget_or_none msg ''data'') c
           else if t = PStr ''close'' then handle_close c
           else if t = PStr ''error''
           then handle_channel_error (case sget msg ''error'' of None \<Rightarrow> PStr ''Channel error'' | Some e \<Rightarrow> e) c
           else c, None))"

definition channel_message :: "(nat \<Rightarrow> pyval \<Rightarrow> exc option) \<Rightarrow> pyval \<Rightarrow> 'a channel_scheme \<Rightarrow> 'a channel_scheme \<times> exc option" where
  "channel_message run msg c =
     (case msg of
        PDict d \<Rightarrow> dispatch_message run d c
      | _ \<Rightarrow> (c, Some (Raised TypeError ''indices must be integers'')))"

definition channel_msg :: "string \<Rightarrow> pyval \<Rightarrow> pyval" where
  "channel_msg t data = PDict [(PStr ''type'', PStr t), (PStr ''data'', data), (PStr ''error'', PNone), (PStr ''sender'', PNone)]"

definition channel_is_closed :: exc where
  "channel_is_closed = Raised RuntimeError ''Channel is closed''"

definition channel_send :: "pyval \<Rightarrow> 'a channel_scheme \<Rightarrow> 'a channel_scheme \<times> exc option" where
  "channel_send data c =
     (if ch_closed c then (c, Some channel_is_closed)
      else (log [Sent (channel_subject c) (channel_msg ''message'' data)] c, None))"

text \<open>\<open>client.request\<close> on the request subject; \<open>ask\<close> is its outcome.\<close>

definition channel_request :: "(string \<Rightarrow> pyval \<Rightarrow> exc + pyval) \<Rightarrow> pyval \<Rightarrow> 'a channel_scheme \<Rightarrow> exc + pyval" where
  "channel_request ask data c =
     (if ch_closed c then Inl channel_is_closed else ask (channel_subject c @ ''.request'') data)"

definition channel_on_request :: "nat \<Rightarrow> 'a channel_scheme \<Rightarrow> 'a channel_scheme" where
  "channel_on_request handler c =
     log [Request_Handler (channel_subject c @ ''.request'') handler] (c\<lparr>ch_subscriptions := ch_subscriptions c @ [handler]\<rparr>)"

text \<open>\<open>close\<close>; \<open>published\<close> is whether the notification could be published.\<close>

definition channel_close :: "bool \<Rightarrow> 'a channel_scheme \<Rightarrow> 'a channel_scheme" where
  "channel_close published c =
     (if ch_closed c then c
      else
        let c = log [Closing] (c\<lparr>ch_closed := True\<rparr>);
            c = (if published then log [Sent (channel_subject c) (channel_msg ''close'' PNone)] c else c)
        in cleanup c)"

section \<open>Private channels\<close>

record private_channel = channel +
  pc_client_id :: string
  pc_target :: string
  pc_remote :: "string option"

text \<open>\<open>s.split(sep)[0]\<close>\<close>

fun before :: "string \<Rightarrow> string \<Rightarrow> string" where
  "before sep [] = []"
| "before sep (c # s) = (if take (length sep) (c # s) = sep then [] else c # before sep s)"

definition base_name :: "string \<Rightarrow> string" where
  "base_name full_name = before ''-private-'' (before ''-channel-'' full_name)"

definition new_private_channel :: "string \<Rightarrow> string \<Rightarrow> string \<Rightarrow> private_channel" where
  "new_private_channel client_name i target = channel.extend (new_channel i)
     \<lparr>pc_client_id = base_name client_name, pc_target = target, pc_remote = None\<rparr>"

definition private_subject :: "private_channel \<Rightarrow> string" where
  "private_subject c = ''channel.private.'' @ ch_id c @ ''.'' @ dots (sort [pc_client_id c, pc_target c])"

definition private_msg :: "string \<Rightarrow> pyval \<Rightarrow> string \<Rightarrow> pyval" where
  "private_msg t data sender = PDict [(PStr ''type'', PStr t), (PStr ''data'', data), (PStr ''sender'', PStr sender), (PStr ''error'', PNone)]"

text \<open>\<open>_send_raw\<close>\<close>

definition send_raw :: "pyval \<Rightarrow> private_channel \<Rightarrow> private_channel" where
  "send_raw msg c = log [Sent (private_subject c) msg] c"

definition handshake :: pyval where
  "handshake = PDict [(PStr ''__handshake'', PBool True)]"

definition private_init :: "bool \<Rightarrow> private_channel \<Rightarrow> private_channel" where
  "private_init published c =
     (if ch_initialized c then c
      else
        let c = log [Subscribed (private_subject c)] (c\<lparr>ch_initialized := True, ch_unsubscribe := True\<rparr>)
        in if published then send_raw (private_msg ''message'' handshake (pc_client_id c)) c else c)"

definition is_handshake :: "pyval \<Rightarrow> bool" where
  "is_handshake data = (case data of PDict d \<Rightarrow> truthy (sget_or_none d ''__handshake'') | _ \<Rightarrow> False)"

definition private_message :: "(nat \<Rightarrow> pyval \<Rightarrow> exc option) \<Rightarrow> pyval \<Rightarrow> private_channel \<Rightarrow> private_channel \<times> exc option" where
  "private_message run msg c =
     (case msg of
        PDict d \<Rightarrow>
          if sget_or_none d ''sender'' = PStr (pc_client_id c) then (c, None)
          else if sget_or_none d ''sender'' \<noteq> PStr (pc_target c) then (c, None)
          else
            let c = (if pc_remote c = None \<or> pc_remote c = Some [] then c\<lparr>pc_remote := Some (pc_target c)\<rparr> else c)
            in if sget d ''type'' = Some (PStr ''message'') \<and> is_handshake (sget_or_none d ''data'') then (c, None)
               else dispatch_message run d c
      | _ \<Rightarrow> (c, Some (Raised AttributeError ''get'')))"

definition private_send :: "pyval \<Rightarrow> private_channel \<Rightarrow> private_channel \<times> exc option" where
  "private_send data c =
     (if ch_closed c then (c, Some channel_is_closed)
      else (send_raw (private_msg ''message'' data (pc_client_id c)) c, None))"

definition private_request :: "(string \<Rightarrow> pyval \<Rightarrow> exc + pyval) \<Rightarrow> pyval \<Rightarrow> private_channel \<Rightarrow> exc + pyval" where
  "private_request ask data c =
     (if ch_closed c then Inl channel_is_closed else ask (private_subject c @ ''.request'') data)"

text \<open>Unlike the public channel, the unsubscribe function is not kept.\<close>

definition private_on_request :: "nat \<Rightarrow> private_channel \<Rightarrow> private_channel" where
  "private_on_request handler c = log [Request_Handler (private_subject c @ ''.request'') handler] c"

definition private_close :: "bool \<Rightarrow> private_channel \<Rightarrow> private_channel" where
  "private_close published c =
     (if ch_closed c then c
      else
        let c = log [Closing] (c\<lparr>ch_closed := True\<rparr>);
            c = (if published
                 then send_raw (PDict [(PStr ''type'', PStr ''close''), (PStr ''sender'', PStr (pc_client_id c)),
                        (PStr ''data'', PNone), (PStr ''error'', PNone)]) c else c)
        in cleanup c)"

definition is_connected_to :: "string \<Rightarrow> private_channel \<Rightarrow> bool" where
  "is_connected_to client_id c \<longleftrightarrow> pc_remote c = Some client_id"

section \<open>Opening channels\<close>

text \<open>
  \<open>channel\<close> and \<open>private_channel\<close> of the client: on a connection of its own if asked to, whose name carries the kind and
  the id of the channel. The attribute that is set on the channel for it is not the one that \<open>_cleanup\<close> reads,
  so that closing the channel does not come back to the isolated client.
\<close>

definition open_channel :: "string \<Rightarrow> bool \<Rightarrow> isolated_clients \<Rightarrow> (channel \<times> nat option) \<times> isolated_clients" where
  "open_channel i isolated s =
     (let (c, s) = (if isolated then (case open_isolated s of (c, s') \<Rightarrow> (Some c, s')) else (None, s))
      in ((channel_init (new_channel i), c), s))"

definition open_private_channel :: "string \<Rightarrow> string \<Rightarrow> string \<Rightarrow> bool \<Rightarrow> bool \<Rightarrow> isolated_clients
    \<Rightarrow> (private_channel \<times> nat option) \<times> isolated_clients" where
  "open_private_channel name i target published isolated s =
     (let (c, s) = (if isolated then (case open_isolated s of (c, s') \<Rightarrow> (Some c, s')) else (None, s));
          client_name = (if isolated then name @ ''-private-'' @ i else name)
      in ((private_init published (new_private_channel client_name i target), c), s))"

section \<open>Events\<close>

datatype channel_event =
    Message pyval
  | Send pyval
  | Close bool
  | Cleanup_Runs
  | On string nat bool
  | Off string nat
  | On_Request nat

fun channel_step :: "(nat \<Rightarrow> pyval \<Rightarrow> exc option) \<Rightarrow> channel_event \<Rightarrow> channel \<Rightarrow> channel" where
  "channel_step run (Message m) c = fst (channel_message run m c)"
| "channel_step run (Send v) c = fst (channel_send v c)"
| "channel_step run (Close p) c = channel_close p c"
| "channel_step run Cleanup_Runs c = cleanup c"
| "channel_step run (On e h a) c = on_event e h a c"
| "channel_step run (Off e h) c = off_event e h c"
| "channel_step run (On_Request h) c = channel_on_request h c"

fun private_step :: "(nat \<Rightarrow> pyval \<Rightarrow> exc option) \<Rightarrow> channel_event \<Rightarrow> private_channel \<Rightarrow> private_channel" where
  "private_step run (Message m) c = fst (private_message run m c)"
| "private_step run (Send v) c = fst (private_send v c)"
| "private_step run (Close p) c = private_close p c"
| "private_step run Cleanup_Runs c = cleanup c"
| "private_step run (On e h a) c = on_event e h a c"
| "private_step run (Off e h) c = off_event e h c"
| "private_step run (On_Request h) c = private_on_request h c"


section \<open>Closing\<close>

definition closings :: "'a channel_scheme \<Rightarrow> nat" where
  "closings c = length (filter (\<lambda>e. e = Closing) (ch_log c))"

fun is_sent :: "channel_effect \<Rightarrow> bool" where
  "is_sent (Sent _ _) = True"
| "is_sent _ = False"

definition sent :: "'a channel_scheme \<Rightarrow> channel_effect list" where
  "sent c = filter is_sent (ch_log c)"

lemma log_simps [simp]:
  "ch_closed (log es c) = ch_closed c" "ch_unsubscribe (log es c) = ch_unsubscribe c" "ch_subscriptions (log es c) = ch_subscriptions c"
  "ch_handlers (log es c) = ch_handlers c" "closings (log es c) = closings c + length (filter (\<lambda>e. e = Closing) es)"
  "sent (log es c) = sent c @ filter is_sent es"
  by (simp_all add: log_def closings_def sent_def)

lemma field_simps_log [simp]:
  "closings (c\<lparr>ch_closed := b\<rparr>) = closings c" "sent (c\<lparr>ch_closed := b\<rparr>) = sent c"
  "closings (c\<lparr>ch_unsubscribe := b\<rparr>) = closings c" "sent (c\<lparr>ch_unsubscribe := b\<rparr>) = sent c"
  "closings (c\<lparr>ch_subscriptions := ss\<rparr>) = closings c" "sent (c\<lparr>ch_subscriptions := ss\<rparr>) = sent c"
  "closings (c\<lparr>ch_handlers := hs\<rparr>) = closings c" "sent (c\<lparr>ch_handlers := hs\<rparr>) = sent c"
  "closings (c\<lparr>ch_close_handlers := cs\<rparr>) = closings c" "sent (c\<lparr>ch_close_handlers := cs\<rparr>) = sent c"
  "closings (c\<lparr>ch_error_handlers := cs\<rparr>) = closings c" "sent (c\<lparr>ch_error_handlers := cs\<rparr>) = sent c"
  by (simp_all add: closings_def sent_def)

lemma remote_field [simp]:
  "closings (c\<lparr>pc_remote := r\<rparr>) = closings c" "sent (c\<lparr>pc_remote := r\<rparr>) = sent c"
  by (simp_all add: closings_def sent_def)

lemma emit_effects_plain:
  "filter (\<lambda>e. e = Closing) (emit_effects run v hs) = []" "filter is_sent (emit_effects run v hs) = []"
  by (induction hs) (auto simp: emit_effects_def split: option.splits)

lemma filter_Closing_map [simp]:
  "filter (\<lambda>e. e = Closing) (map Close_Handler xs) = []" "filter is_sent (map Close_Handler xs) = []"
  "filter (\<lambda>e. e = Closing) (map Request_Unsubscribed xs) = []" "filter is_sent (map Request_Unsubscribed xs) = []"
  "filter (\<lambda>e. e = Closing) (map (\<lambda>h. Error_Handler h v) xs) = []" "filter is_sent (map (\<lambda>h. Error_Handler h v) xs) = []"
  by (simp_all add: filter_empty_conv)

text \<open>What each operation does to the closed flag, the closings and the messages sent.\<close>

lemma emit_quiet [simp]:
  "ch_closed (emit run e v c) = ch_closed c" "closings (emit run e v c) = closings c" "sent (emit run e v c) = sent c"
  by (simp_all add: emit_def emit_effects_plain split: option.split)

lemma error_quiet [simp]:
  "ch_closed (handle_channel_error e c) = ch_closed c" "closings (handle_channel_error e c) = closings c" "sent (handle_channel_error e c) = sent c"
  by (simp_all add: handle_channel_error_def del: map_map)

lemma cleanup_quiet [simp]:
  "ch_closed (cleanup c) = ch_closed c" "closings (cleanup c) = closings c" "sent (cleanup c) = sent c"
  by (simp_all add: cleanup_def Let_def)

lemma close_once:
  "ch_closed (handle_close c)" "closings (handle_close c) = (if ch_closed c then closings c else Suc (closings c))"
  "sent (handle_close c) = sent c"
  by (simp_all add: handle_close_def del: map_map)

lemma on_off_quiet [simp]:
  "ch_closed (on_event e h a c) = ch_closed c" "closings (on_event e h a c) = closings c" "sent (on_event e h a c) = sent c"
  "ch_closed (off_event e h c) = ch_closed c" "closings (off_event e h c) = closings c" "sent (off_event e h c) = sent c"
  by (simp_all add: on_event_def off_event_def split: option.split)

lemma dispatch_quiet:
  "sent (fst (dispatch_message run d c)) = sent c"
  "ch_closed c \<Longrightarrow> ch_closed (fst (dispatch_message run d c)) \<and> closings (fst (dispatch_message run d c)) = closings c"
  "\<not> ch_closed c \<Longrightarrow> closings (fst (dispatch_message run d c)) = closings c \<or>
     ch_closed (fst (dispatch_message run d c)) \<and> closings (fst (dispatch_message run d c)) = Suc (closings c)"
  by (simp_all add: dispatch_message_def close_once split: option.split)

lemma channel_step_closed:
  "ch_closed c \<Longrightarrow> ch_closed (channel_step run e c) \<and> closings (channel_step run e c) = closings c \<and> sent (channel_step run e c) = sent c"
  using dispatch_quiet [where run = run and c = c]
  by (cases e) (auto simp: channel_message_def channel_send_def channel_close_def channel_on_request_def split: pyval.split)

lemma channel_step_open:
  "\<not> ch_closed c \<Longrightarrow> closings (channel_step run e c) = closings c \<or>
     ch_closed (channel_step run e c) \<and> closings (channel_step run e c) = Suc (closings c)"
  using dispatch_quiet [where run = run and c = c]
  by (cases e) (auto simp: channel_message_def channel_send_def channel_close_def channel_on_request_def Let_def split: pyval.split)

lemma private_step_closed:
  "ch_closed c \<Longrightarrow> ch_closed (private_step run e c) \<and> closings (private_step run e c) = closings c \<and> sent (private_step run e c) = sent c"
  using dispatch_quiet [where run = run and c = c] dispatch_quiet [where run = run and c = "c\<lparr>pc_remote := Some (pc_target c)\<rparr>"]
  by (cases e) (auto simp: private_message_def private_send_def private_close_def private_on_request_def Let_def split: pyval.split)

lemma private_step_open:
  "\<not> ch_closed c \<Longrightarrow> closings (private_step run e c) = closings c \<or>
     ch_closed (private_step run e c) \<and> closings (private_step run e c) = Suc (closings c)"
  using dispatch_quiet [where run = run and c = c] dispatch_quiet [where run = run and c = "c\<lparr>pc_remote := Some (pc_target c)\<rparr>"]
  by (cases e) (auto simp: private_message_def private_send_def private_close_def private_on_request_def send_raw_def Let_def split: pyval.split)

interpretation channel_once: once "channel_step run" ch_closed closings for run
  by unfold_locales (simp_all add: channel_step_closed channel_step_open)

interpretation private_once: once "private_step run" ch_closed closings for run
  by unfold_locales (simp_all add: private_step_closed private_step_open)

lemma sent_after_close:
  "ch_closed c \<Longrightarrow> sent (fold (channel_step run) es c) = sent c"
  by (induction es arbitrary: c) (simp_all add: channel_step_closed)

lemma private_sent_after_close:
  "ch_closed c \<Longrightarrow> sent (fold (private_step run) es c) = sent c"
  by (induction es arbitrary: c) (simp_all add: private_step_closed)

text \<open>
  C37. A channel, public or private, closes at most once, however closing it, the notification of the other
  side, its messages and the cleanup task come together, and a closed channel sends nothing any more.
\<close>

theorem channel_closes_once:
  "closings (fold (channel_step run) es (new_channel i)) \<le> 1 \<and>
   closings (fold (private_step run) es (new_private_channel name i target)) \<le> 1 \<and>
   (ch_closed c \<longrightarrow> sent (fold (channel_step run) es c) = sent c) \<and>
   (ch_closed p \<longrightarrow> sent (fold (private_step run) es p) = sent p)"
proof -
  have "closings (new_channel i) = 0" "closings (new_private_channel name i target) = 0"
    by (simp_all add: closings_def new_channel_def new_private_channel_def channel.extend_def)
  then show ?thesis
    using channel_once.at_most_once private_once.at_most_once sent_after_close private_sent_after_close by blast
qed

theorem channel_closes_once_witness:
  "sent (fold (channel_step (\<lambda>_ _. None)) [Send (PInt 1), Close True] ((new_channel ''x'')\<lparr>ch_closed := True\<rparr>)) = []"
  using channel_closes_once [of "\<lambda>_ _. None" "[Send (PInt 1), Close True]" "''x''" "''n''" "''t''"
      "(new_channel ''x'')\<lparr>ch_closed := True\<rparr>" "new_private_channel ''n'' ''x'' ''t''"]
  by (simp add: new_channel_def sent_def)

section \<open>Private conversations\<close>

text \<open>What reaches the handlers of a channel for one name, in order.\<close>

definition heard :: "nat \<Rightarrow> 'a channel_scheme \<Rightarrow> pyval list" where
  "heard h c = concat (map (\<lambda>e. case e of Emit h' v \<Rightarrow> if h' = h then [v] else [] | _ \<Rightarrow> []) (ch_log c))"

lemma heard_log [simp]:
  "heard h (log es c) = heard h c @ concat (map (\<lambda>e. case e of Emit h' v \<Rightarrow> if h' = h then [v] else [] | _ \<Rightarrow> []) es)"
  by (simp add: heard_def log_def)

lemma heard_emit_effects:
  "distinct (map fst hs) \<Longrightarrow>
    concat (map (\<lambda>e. case e of Emit h' v \<Rightarrow> if h' = h then [v] else [] | _ \<Rightarrow> []) (emit_effects run v hs))
      = (if h \<in> set (map fst hs) then [v] else [])"
proof (induction hs)
  case (Cons x hs)
  have "emit_effects run v (x # hs) =
      Emit (fst x) v # (case run (fst x) v of None \<Rightarrow> [] | Some e \<Rightarrow> [Handler_Error e]) @ emit_effects run v hs"
    by (cases x) (simp add: emit_effects_def)
  then show ?case using Cons by (cases "run (fst x) v") (auto simp del: set_map)
qed (simp add: emit_effects_def)

definition said :: "string \<times> pyval \<Rightarrow> pyval" where
  "said m = wire_view (private_msg ''message'' (snd m) (fst m))"

lemma private_message_said:
  assumes "pc_client_id c \<noteq> pc_target c" "dget (ch_handlers c) ''message'' = Some hs" "distinct (map fst hs)" "h \<in> set (map fst hs)"
  shows "let c' = fst (private_message run (said m) c) in
    heard h c' = heard h c @ (if fst m = pc_target c \<and> \<not> is_handshake (wire_view (snd m)) then [wire_view (snd m)] else []) \<and>
    ch_handlers c' = ch_handlers c \<and> pc_client_id c' = pc_client_id c \<and> pc_target c' = pc_target c"
proof -
  have "heard h (c\<lparr>pc_remote := r\<rparr>) = heard h c" for r by (simp add: heard_def)
  then show ?thesis
    using assms heard_emit_effects [OF assms(3), of h run "wire_view (snd m)"]
    by (auto simp: private_message_def said_def private_msg_def as_extractable_segment_def dispatch_message_def emit_def
        Let_def sget_or_none_def log_def heard_def)
qed

lemma sort_two: "sort [a, b] = sort [b, a :: 'a :: linorder]"
  by auto

text \<open>
  C36. A private channel is a conversation of two: both ends use the same subject, and out of everything that arrives
  there, from either end or from anyone else, each message handler gets exactly what the other end sent, in its
  order and once, handshakes excepted.
\<close>

theorem private_channel_delivers:
  assumes "pc_client_id c \<noteq> pc_target c" "dget (ch_handlers c) ''message'' = Some hs" "distinct (map fst hs)" "h \<in> set (map fst hs)"
    and "pc_client_id c2 = pc_target c" "pc_target c2 = pc_client_id c" "ch_id c2 = ch_id c"
  shows "private_subject c2 = private_subject c \<and>
    heard h (fold (\<lambda>m c. fst (private_message run (said m) c)) ms c) =
      heard h c @ map (\<lambda>m. wire_view (snd m)) (filter (\<lambda>m. fst m = pc_client_id c2 \<and> \<not> is_handshake (wire_view (snd m))) ms)"
proof -
  have "heard h (fold (\<lambda>m c. fst (private_message run (said m) c)) ms c) =
      heard h c @ map (\<lambda>m. wire_view (snd m)) (filter (\<lambda>m. fst m = pc_target c \<and> \<not> is_handshake (wire_view (snd m))) ms)"
    using assms(1,2)
  proof (induction ms arbitrary: c)
    case (Cons m ms)
    note f = private_message_said [OF Cons.prems assms(3,4), of run m, unfolded Let_def]
    have "heard h (fold (\<lambda>m c. fst (private_message run (said m) c)) ms (fst (private_message run (said m) c))) =
        heard h (fst (private_message run (said m) c)) @
          map (\<lambda>m. wire_view (snd m)) (filter (\<lambda>m. fst m = pc_target c \<and> \<not> is_handshake (wire_view (snd m))) ms)"
      using f Cons.prems by (subst Cons.IH) auto
    then show ?case using f by simp
  qed simp
  then show ?thesis using assms(5-7) sort_two [of "pc_client_id c" "pc_target c"] by (simp add: private_subject_def)
qed

definition demo_private :: "string \<Rightarrow> string \<Rightarrow> private_channel" where
  "demo_private name target = on_event ''message'' 1 True (new_private_channel name ''x'' target)"

theorem private_channel_delivers_witness:
  "heard 1 (fold (\<lambda>m c. fst (private_message (\<lambda>_ _. None) (said m) c)) [(''b'', PInt 1), (''a'', PInt 2), (''z'', PInt 3), (''b'', PInt 4)]
     (demo_private ''a-channel-x'' ''b'')) = [PInt 1, PInt 4]"
  using private_channel_delivers [of "demo_private ''a-channel-x'' ''b''" "[(1, True)]" 1 "demo_private ''b'' ''a''" "\<lambda>_ _. None"
      "[(''b'', PInt 1), (''a'', PInt 2), (''z'', PInt 3), (''b'', PInt 4)]"]
  by (simp add: demo_private_def new_private_channel_def new_channel_def channel.extend_def on_event_def base_name_def heard_def
      is_handshake_def as_extractable_segment_def)

section \<open>Messages and names\<close>

lemma channel_messages_typed:
  "t \<in> {''message'', ''close'', ''error''} \<Longrightarrow> ChannelMessage (channel_msg t v)"
  "t \<in> {''message'', ''close'', ''error''} \<Longrightarrow> ChannelMessage (private_msg t v who)"
  by (auto simp: ChannelMessage_def channel_msg_def private_msg_def typed_dict_def literal_def or_none_def)

text \<open>
  The suffix that an isolated connection adds to the name is cut off again, and so is everything after the same
  text in the name that the user chose: two clients of such names are one to each other.
\<close>

lemma names_collide: "base_name ''cam-channel-1'' = base_name ''cam-channel-2''"
  by (simp add: base_name_def)

lemma own_name_rejected:
  "heard 1 (fst (private_message (\<lambda>_ _. None) (said (base_name ''cam-channel-2'', v)) (demo_private ''hub'' ''cam-channel-2''))) = []"
  by (simp add: demo_private_def new_private_channel_def new_channel_def channel.extend_def on_event_def base_name_def
      private_message_def said_def private_msg_def as_extractable_segment_def sget_or_none_def heard_def)

text \<open>A private channel forgets its request handlers: closing it leaves them subscribed.\<close>

lemma private_request_handler_survives:
  "Request_Unsubscribed h \<notin> set (ch_log (private_close published (private_on_request h (new_private_channel n i t))))"
  by (simp add: private_close_def private_on_request_def new_private_channel_def new_channel_def channel.extend_def log_def
      send_raw_def cleanup_def Let_def)


text \<open>An isolated private channel talks under the name of its client all the same.\<close>

lemma private_name_example:
  "pc_client_id (fst (fst (open_private_channel ''hub'' ''x'' ''cam'' True True s))) = ''hub''"
  by (simp add: open_private_channel_def open_isolated_def private_init_def new_private_channel_def channel.extend_def new_channel_def
      base_name_def send_raw_def log_def Let_def)

end
