(* ===== verification/Services.thy ===== *)
theory Services
  imports Dispatch Proxies
begin

text \<open>
  \<open>service.py\<close>: services on top of NATS micro. The endpoints that are made for the methods of an object, what an
  endpoint does with a request, whole or in chunks, the list of services of a client, and the monitor; and
  the shared thread pool of \<open>executor.py\<close>. NATS micro itself is a library: \<open>endpoint_subject\<close> is the subject that it
  gives an endpoint in nested groups.
\<close>

section \<open>Endpoints for methods\<close>

datatype service_setup = Add_Group "string list" | Add_Endpoint "string list" string

text \<open>The loop over the methods; \<open>groups\<close> are the paths for which a group exists.\<close>

fun setup_endpoints :: "string list \<Rightarrow> string list \<Rightarrow> service_setup list" where
  "setup_endpoints groups [] = []"
| "setup_endpoints groups (path # paths) =
     (let parts = split_on (CHR 0x2E) path;
          method_name = last parts;
          parts = butlast parts
      in if parts = [] then Add_Endpoint [] method_name # setup_endpoints groups paths
         else
           let group_path = dots parts
           in if group_path \<in> set groups then Add_Endpoint parts method_name # setup_endpoints groups paths
              else map (\<lambda>i. Add_Group (take (Suc i) parts)) [0..<length parts] @
                   Add_Endpoint parts method_name # setup_endpoints (groups @ [group_path]) paths)"

definition endpoint_subject :: "string list \<Rightarrow> string \<Rightarrow> string" where
  "endpoint_subject grp name = dots (grp @ [name])"

fun endpoint_subjects :: "service_setup list \<Rightarrow> string list" where
  "endpoint_subjects [] = []"
| "endpoint_subjects (Add_Group _ # xs) = endpoint_subjects xs"
| "endpoint_subjects (Add_Endpoint g n # xs) = endpoint_subject g n # endpoint_subjects xs"

section \<open>Requests at an endpoint\<close>

definition service_classify :: "pyval \<Rightarrow> (pyval \<times> pyval) list \<Rightarrow> request_kind" where
  "service_classify rid message =
     (let params = get_default message ''params'' (PDict [])
      in case (case params of
                 PDict d \<Rightarrow> if truthy (sget_or_none d ''__stream'') \<and> truthy (sget_or_none d ''__streamSubject'') then Some d else None
               | _ \<Rightarrow> None) of
           Some d \<Rightarrow> Stream_Request (sget_or_none d ''__streamSubject'') (get_default d ''args'' (PList []))
         | None \<Rightarrow>
             (case marked_params ''__pullIterator'' params of
                Some d \<Rightarrow> Pull_Request (get_default d ''__iteratorId'' rid) (get_default d ''args'' (PList []))
              | None \<Rightarrow> Normal_Request (get_default message ''params'' (PList []))))"

text \<open>
  The pull iterators of one service, the responses published, with the subject of the request and the id
  that its reply subject is made of, and what is printed.
\<close>

record 'h service_state =
  ss_cleanups :: "(pyval, 'h) pydict"
  ss_replies :: "(string \<times> pyval \<times> pyval) list"
  ss_printed :: "exc list"

definition service_reply_subject :: "string \<Rightarrow> string \<Rightarrow> string" where
  "service_reply_subject subject rid = subject @ ''.reply.'' @ rid"

text \<open>The body of the try block: a stream is run to its end here, and answers nothing.\<close>

definition service_serve :: "'h environment \<Rightarrow> pyval \<Rightarrow> (pyval \<times> pyval) list \<Rightarrow> 'h service_state
    \<Rightarrow> 'h service_state \<times> (exc + (pyval \<times> pyval) list option)" where
  "service_serve env rid message s =
     (case service_classify rid message of
        Pull_Request i args \<Rightarrow>
          (case en_open env (Pull_Request i args) of
             Inl e \<Rightarrow> (s, Inl e)
           | Inr h \<Rightarrow> (s\<lparr>ss_cleanups := dset i h (ss_cleanups s)\<rparr>,
                     Inr (Some [(PStr ''id'', rid), (PStr ''result'', PDict [(PStr ''iteratorId'', i)])])))
      | Normal_Request params \<Rightarrow>
          (case en_call env (normal_args params) of
             Inl e \<Rightarrow> (s, Inl e)
           | Inr v \<Rightarrow> (s, Inr (Some [(PStr ''id'', rid), (PStr ''result'', v)])))
      | k \<Rightarrow> (case en_open env k of Inl e \<Rightarrow> (s, Inl e) | Inr _ \<Rightarrow> (s, Inr None)))"

definition service_error_reply :: "(exc \<Rightarrow> string) \<Rightarrow> 'h environment \<Rightarrow> string \<Rightarrow> pyval \<Rightarrow> (pyval \<times> pyval) list \<Rightarrow> exc
    \<Rightarrow> 'h service_state \<Rightarrow> 'h service_state" where
  "service_error_reply str env subject rid response e s =
     (let response = dset (PStr ''error'') (PDict (format_error_dict str e)) response
      in case en_publish env (PDict response) of
           None \<Rightarrow> s\<lparr>ss_replies := ss_replies s @ [(subject, rid, PDict response)]\<rparr>
         | Some pe \<Rightarrow> if en_closed env then s else s\<lparr>ss_printed := ss_printed s @ [pe]\<rparr>)"

text \<open>\<open>handle_rpc_message\<close>; a message without id raises.\<close>

definition handle_rpc_message :: "(exc \<Rightarrow> string) \<Rightarrow> 'h environment \<Rightarrow> string \<Rightarrow> pyval \<Rightarrow> 'h service_state
    \<Rightarrow> 'h service_state \<times> exc option" where
  "handle_rpc_message str env subject rpc_msg s =
     (case rpc_msg of
        PDict message \<Rightarrow>
          (case sget message ''id'' of
             None \<Rightarrow> (s, Some (Raised KeyError ''id''))
           | Some rid \<Rightarrow>
               (case service_serve env rid message s of
                  (s, Inl e) \<Rightarrow> service_error_reply str env subject rid [(PStr ''id'', rid)] e s
                | (s, Inr None) \<Rightarrow> s
                | (s, Inr (Some response)) \<Rightarrow>
                    (case en_publish env (PDict response) of
                       None \<Rightarrow> s\<lparr>ss_replies := ss_replies s @ [(subject, rid, PDict response)]\<rparr>
                     | Some e \<Rightarrow> service_error_reply str env subject rid response e s), None))
      | _ \<Rightarrow> (s, Some (Raised TypeError ''indices must be integers'')))"

section \<open>The endpoint handler\<close>

text \<open>The callbacks of a chunked request keep the subject of the message with the header.\<close>

datatype service_callback = Svc_Complete string string | Svc_Error string

datatype endpoint_event =
    Handle_Now pyval
  | Handle_Task string pyval
  | Endpoint_Printed exc
  | Respond_Error string string pyval

fun endpoint_callbacks :: "service_callback chunk_event list \<Rightarrow> endpoint_event list" where
  "endpoint_callbacks [] = []"
| "endpoint_callbacks (Completed (Svc_Complete tid subject) v # evs) = Handle_Task subject v # endpoint_callbacks evs"
| "endpoint_callbacks (Errored cb e # evs) = Endpoint_Printed e # endpoint_callbacks evs"
| "endpoint_callbacks (_ # evs) = endpoint_callbacks evs"

text \<open>The \<open>except\<close> branch: \<open>stack\<close> is the formatted traceback.\<close>

definition exc_code_or :: "exc \<Rightarrow> pyval" where
  "exc_code_or e = (case e of RPC r \<Rightarrow> exc_code r | _ \<Rightarrow> PStr (code_value INTERNAL_ERROR))"

definition respond_error :: "(exc \<Rightarrow> string) \<Rightarrow> string \<Rightarrow> exc \<Rightarrow> endpoint_event" where
  "respond_error str stack e =
     Respond_Error (if exc_code_or e = PStr (code_value TIMEOUT) then ''408'' else ''500'') (str e)
       (PDict [(PStr ''message'', PStr (str e)), (PStr ''stack'', PStr stack), (PStr ''code'', exc_code_or e)])"

definition endpoint_message :: "(int \<Rightarrow> bool) \<Rightarrow> (bytes \<Rightarrow> exc + pyval) \<Rightarrow> int \<Rightarrow> nats_msg \<Rightarrow> service_callback manager
    \<Rightarrow> service_callback manager \<times> (exc + endpoint_event list)" where
  "endpoint_message can_alloc unpack now msg m =
     (let chunk_type = header_of msg ''x-chunked-transfer''
      in if chunk_type = Some ''header''
         then
           (case unpack (nm_data msg) of
              Inl e \<Rightarrow> (m, Inl e)
            | Inr data \<Rightarrow>
                (case read_header (header_of msg ''x-chunk-id'') data of
                   Inl e \<Rightarrow> (m, Inl e)
                 | Inr None \<Rightarrow> (m, Inr [])
                 | Inr (Some (tid, count, tsize, csize)) \<Rightarrow>
                     (case start_receiving can_alloc now tid count (Svc_Complete tid (nm_subject msg)) (Svc_Error tid) tsize csize m of
                        (m', evs) \<Rightarrow> (m', Inr (endpoint_callbacks evs)))))
         else if chunk_type = Some ''chunk''
         then
           (case parse_int (case header_of msg ''x-chunk-index'' of None \<Rightarrow> ''0'' | Some s \<Rightarrow> s) of
              None \<Rightarrow> (m, Inl (Raised ValueError ''invalid literal for int()''))
            | Some i \<Rightarrow>
                (case header_of msg ''x-chunk-id'' of
                   None \<Rightarrow> (m, Inr [])
                 | Some tid \<Rightarrow>
                     if tid = [] then (m, Inr [])
                     else (case process_chunk unpack now (client_chunk tid i (nm_data msg)) m of
                             (m', evs) \<Rightarrow> (m', Inr (endpoint_callbacks evs)))))
         else
           (case decode_message unpack (nm_data msg) of
              Inl e \<Rightarrow> (m, Inl e)
            | Inr data \<Rightarrow> (m, Inr [Handle_Now data])))"

text \<open>
  \<open>endpoint_handler\<close>: a plain message is handled at once, and what that raises is answered too; a
  complete transfer is handled in a task of its own, whose exceptions nobody sees.
\<close>

definition endpoint_handler :: "(exc \<Rightarrow> string) \<Rightarrow> (exc \<Rightarrow> string) \<Rightarrow> (int \<Rightarrow> bool) \<Rightarrow> (bytes \<Rightarrow> exc + pyval) \<Rightarrow> 'h environment \<Rightarrow> int
    \<Rightarrow> nats_msg \<Rightarrow> service_callback manager \<times> 'h service_state \<Rightarrow> (service_callback manager \<times> 'h service_state) \<times> endpoint_event list" where
  "endpoint_handler str stack can_alloc unpack env now msg st =
     (case endpoint_message can_alloc unpack now msg (fst st) of
        (m, Inl e) \<Rightarrow> ((m, snd st), [respond_error str (stack e) e])
      | (m, Inr [Handle_Now data]) \<Rightarrow>
          (case handle_rpc_message str env (nm_subject msg) data (snd st) of
             (s, None) \<Rightarrow> ((m, s), [])
           | (s, Some e) \<Rightarrow> ((m, s), [respond_error str (stack e) e]))
      | (m, Inr evs) \<Rightarrow> ((m, snd st), evs))"

section \<open>Services of a client\<close>

record service_entry =
  sv_name :: string
  sv_isolated :: "nat option"
  sv_live :: "string list"

record rpc_service =
  rs_nc :: "nat option"
  rs_services :: "service_entry list"
  rs_stopped :: "string list"
  rs_cleaned :: "string list"
  rs_disconnected :: "nat list"

definition service_init :: "nat \<Rightarrow> rpc_service \<Rightarrow> rpc_service" where
  "service_init nc s = (if rs_nc s = Some nc then s else s\<lparr>rs_nc := Some nc, rs_services := []\<rparr>)"

definition service_register :: "string \<Rightarrow> nat option \<Rightarrow> rpc_service \<Rightarrow> rpc_service \<times> exc option" where
  "service_register name isolated s =
     (if rs_nc s = None then (s, Some (Raised RuntimeError ''RPCService is not initialized. Call init() first.''))
      else (s\<lparr>rs_services := rs_services s @ [\<lparr>sv_name = name, sv_isolated = isolated, sv_live = []\<rparr>]\<rparr>, None))"

text \<open>
  \<open>stop_with_cleanup\<close> and the disconnect of the isolated client; \<open>fails\<close> is whether NATS micro's \<open>stop\<close> raises,
  which skips the rest.
\<close>

definition stop_with_cleanup :: "service_entry \<Rightarrow> rpc_service \<Rightarrow> rpc_service" where
  "stop_with_cleanup e s = s\<lparr>rs_cleaned := rs_cleaned s @ sv_live e, rs_stopped := rs_stopped s @ [sv_name e]\<rparr>"

definition stop_service :: "(string \<Rightarrow> bool) \<Rightarrow> service_entry \<Rightarrow> rpc_service \<Rightarrow> rpc_service" where
  "stop_service fails e s =
     (let s = stop_with_cleanup e s
      in if fails (sv_name e) then s
         else (case sv_isolated e of None \<Rightarrow> s | Some c \<Rightarrow> s\<lparr>rs_disconnected := rs_disconnected s @ [c]\<rparr>))"

definition stop_all :: "(string \<Rightarrow> bool) \<Rightarrow> rpc_service \<Rightarrow> rpc_service" where
  "stop_all fails s = (fold (stop_service fails) (rs_services s) s)\<lparr>rs_services := []\<rparr>"

definition service_stop :: "(string \<Rightarrow> bool) \<Rightarrow> string \<Rightarrow> rpc_service \<Rightarrow> rpc_service" where
  "service_stop fails name s =
     (case find (\<lambda>e. sv_name e = name) (rs_services s) of
        None \<Rightarrow> s
      | Some e \<Rightarrow>
          let s' = stop_service fails e s
          in if fails name then s' else s'\<lparr>rs_services := filter (\<lambda>e'. e' \<noteq> e) (rs_services s')\<rparr>)"

definition get_all_info :: "rpc_service \<Rightarrow> string list" where
  "get_all_info s = map sv_name (rs_services s)"

definition get_info :: "string \<Rightarrow> rpc_service \<Rightarrow> service_entry option" where
  "get_info name s = find (\<lambda>e. sv_name e = name) (rs_services s)"

section \<open>Monitor\<close>

text \<open>
  What comes to the inbox, one after the other, until 10 ms pass without a message; \<open>None\<close> is a reply that
  does not parse.
\<close>

fun collect_replies :: "'a option list \<Rightarrow> 'a list" where
  "collect_replies [] = []"
| "collect_replies (Some r # rs) = r # collect_replies rs"
| "collect_replies (None # rs) = []"

definition service_subject :: "string \<Rightarrow> string option \<Rightarrow> string" where
  "service_subject verb name = (case name of
      Some n \<Rightarrow> if n = [] then ''$SRV.'' @ verb else ''$SRV.'' @ verb @ ''.'' @ n
    | None \<Rightarrow> ''$SRV.'' @ verb)"

text \<open>\<open>failed\<close> is whether subscribing or publishing raised; \<open>replies subject\<close> is what arrives.\<close>

definition monitor :: "string \<Rightarrow> bool \<Rightarrow> bool \<Rightarrow> (string \<Rightarrow> 'a option list) \<Rightarrow> string option \<Rightarrow> exc + 'a list" where
  "monitor verb connected failed replies name =
     (if \<not> connected then Inl (Raised RuntimeError ''NATS client is not connected'')
      else Inr (if failed then [] else collect_replies (replies (service_subject verb name))))"

definition monitor_ping :: "bool \<Rightarrow> bool \<Rightarrow> (string \<Rightarrow> 'a option list) \<Rightarrow> string option \<Rightarrow> exc + 'a list" where
  "monitor_ping = monitor ''PING''"

definition monitor_info :: "bool \<Rightarrow> bool \<Rightarrow> (string \<Rightarrow> 'a option list) \<Rightarrow> string option \<Rightarrow> exc + 'a list" where
  "monitor_info = monitor ''INFO''"

definition monitor_stats :: "bool \<Rightarrow> bool \<Rightarrow> (string \<Rightarrow> 'a option list) \<Rightarrow> string option \<Rightarrow> exc + 'a list" where
  "monitor_stats = monitor ''STATS''"

section \<open>The shared executor\<close>

text \<open>The global variable and the next pool that would be made.\<close>

definition get_executor :: "nat option \<times> nat \<Rightarrow> nat \<times> (nat option \<times> nat)" where
  "get_executor g = (case fst g of Some p \<Rightarrow> (p, g) | None \<Rightarrow> (snd g, (Some (snd g), Suc (snd g))))"

definition shutdown_executor :: "nat option \<times> nat \<Rightarrow> nat option \<times> nat" where
  "shutdown_executor g = (None, snd g)"


section \<open>Every method can be called through a service proxy\<close>

lemma endpoint_of_path: "endpoint_subject (butlast (split_on (CHR 0x2E) path)) (last (split_on (CHR 0x2E) path)) = path"
  using join_split [of "CHR 0x2E" path] by (simp add: endpoint_subject_def)

lemma endpoint_subjects_append: "endpoint_subjects (xs @ ys) = endpoint_subjects xs @ endpoint_subjects ys"
  by (induction xs rule: endpoint_subjects.induct) simp_all

lemma endpoint_subjects_groups: "endpoint_subjects (map (\<lambda>i. Add_Group (f i)) is) = []"
  by (induction "is") simp_all

lemma setup_subjects: "endpoint_subjects (setup_endpoints groups paths) = paths"
proof (induction groups paths rule: setup_endpoints.induct)
  case (2 groups path paths)
  have root: "endpoint_subject [] (last (split_on (CHR 0x2E) path)) = path" if "butlast (split_on (CHR 0x2E) path) = []"
    using endpoint_of_path [of path] that by simp
  show ?case
    using 2 root endpoint_of_path [of path] by (simp add: Let_def endpoint_subjects_append endpoint_subjects_groups)
qed simp

lemma dots_append: "xs \<noteq> [] \<Longrightarrow> ys \<noteq> [] \<Longrightarrow> dots (xs @ ys) = dots xs @ ''.'' @ dots ys"
proof (induction xs rule: induct_list012)
  case (2 x)
  then show ?case by (cases ys) simp_all
qed simp_all

lemma starts_with_append: "starts_with p (p @ s)"
  by (induction p) auto

lemma resolve_reaches:
  assumes "list_all segment (path @ names)" "list_all (\<lambda>ep. \<not> starts_with ''.'' ep) eps" "dots (path @ names) \<in> set eps"
    and "\<forall>k. length path < k \<and> k < length (path @ names) \<longrightarrow> dots (take k (path @ names)) \<notin> set eps" "names \<noteq> []"
  shows "resolve eps path names = Inr (dots (path @ names))"
  using assms
proof (induction names arbitrary: path)
  case (Cons n ns)
  have f: "find_endpoint path n eps = find (\<lambda>ep. ep = dots (path @ [n])) eps"
    using Cons.prems(1,2) by (intro find_endpoint_spec) auto
  have found: "find (\<lambda>ep. ep = x) es = (if x \<in> set es then Some x else None)" for x :: string and es
    by (induction es) auto
  show ?case
  proof (cases ns)
    case Nil
    then show ?thesis using Cons.prems(3) by (simp add: service_getattr_def f found)
  next
    case (Cons m ms)
    have "take (Suc (length path)) (path @ n # ns) = path @ [n]" by simp
    then have "dots (path @ [n]) \<notin> set eps" using Cons.prems(4) [rule_format, of "Suc (length path)"] Cons by simp
    moreover have "starts_with (dots (path @ [n]) @ ''.'') (dots (path @ n # ns))"
      using dots_append [of "path @ [n]" ns] starts_with_append [of "dots (path @ [n]) @ ''.''" "dots ns"] Cons by simp
    ultimately have "service_getattr eps path n = Inr (Nested_Proxy (path @ [n]))"
      using Cons.prems(3) by (auto simp: service_getattr_def f found)
    moreover have "resolve eps (path @ [n]) ns = Inr (dots ((path @ [n]) @ ns))"
      using Cons.prems Cons by (intro Cons.IH) auto
    ultimately show ?thesis by simp
  qed
qed simp



section \<open>Answers of an endpoint\<close>

lemma service_one_reply:
  assumes "\<forall>v. en_publish env v = None" "sget message ''id'' = Some rid"
    and "handle_rpc_message str env subject (PDict message) s = (s', e)"
  shows "e = None \<and>
    ((\<exists>d. ss_replies s' = ss_replies s @ [(subject, rid, PDict d)] \<and> sget d ''id'' = Some rid \<and>
       ((\<exists>v. sget d ''result'' = Some v) \<longleftrightarrow> sget d ''error'' = None)) \<or>
     (\<exists>subj args h. service_classify rid message = Stream_Request subj args \<and> en_open env (Stream_Request subj args) = Inr h \<and> s' = s))"
proof -
  have "service_classify rid message \<noteq> Pull_Callback_Request a b c d" "service_classify rid message \<noteq> Callback_Request a b" for a b c d
    by (auto simp: service_classify_def Let_def split: option.splits)
  then show ?thesis
    using assms by (cases "service_classify rid message")
      (auto simp: handle_rpc_message_def service_serve_def service_error_reply_def Let_def split: sum.splits)
qed

text \<open>
  For plain calls and pull iterators the endpoint of a service sees what the handler of a namespace sees; a request with
  callbacks, which a service proxy offers as well, is taken for a plain call with the marker as its argument.
\<close>

lemma service_classify_agrees:
  assumes "classify rid (sget_or_none message ''params'') = Inr k" "sget message ''params'' = Some (PList ps)"
    and "(\<exists>i args. k = Pull_Request i args) \<or> (\<exists>p. k = Normal_Request p)"
  shows "service_classify rid message = k"
  using assms
  by (auto simp: classify_def service_classify_def get_default_def sget_or_none_def stream_marked_def split: option.splits sum.splits)

lemma service_ignores_callbacks:
  assumes "sget message ''params'' = Some (wire_view (PTuple [pull_callback_params i cbs methods oneway args]))"
  shows "service_classify rid message = Normal_Request (wire_view (PTuple [pull_callback_params i cbs methods oneway args]))"
  using assms by (simp add: service_classify_def get_default_def marked_params_def pull_callback_params_def)

section \<open>Stopping and discovery\<close>

lemma stop_all_stops:
  "rs_services (stop_all fails s) = []"
  "rs_stopped (stop_all fails s) = rs_stopped s @ map sv_name (rs_services s)"
  "rs_cleaned (stop_all fails s) = rs_cleaned s @ concat (map sv_live (rs_services s))"
proof -
  have f: "rs_stopped (fold (stop_service fails) es s) = rs_stopped s @ map sv_name es \<and>
      rs_cleaned (fold (stop_service fails) es s) = rs_cleaned s @ concat (map sv_live es)" for es
    by (induction es arbitrary: s) (auto simp: stop_service_def stop_with_cleanup_def Let_def split: option.split)
  show "rs_services (stop_all fails s) = []"
    "rs_stopped (stop_all fails s) = rs_stopped s @ map sv_name (rs_services s)"
    "rs_cleaned (stop_all fails s) = rs_cleaned s @ concat (map sv_live (rs_services s))"
    using f [of "rs_services s"] by (simp_all add: stop_all_def)
qed

text \<open>A new connection forgets the services of the old one without stopping them.\<close>

lemma reconnect_forgets_services:
  "rs_nc s \<noteq> Some nc \<Longrightarrow> rs_services (service_init nc s) = [] \<and> rs_stopped (service_init nc s) = rs_stopped s"
  by (simp add: service_init_def)

text \<open>The replies before the first malformed one are what discovery returns, and the good ones after it are not.\<close>

lemma collect_replies_prefix: "collect_replies rs = map the (takeWhile (\<lambda>r. r \<noteq> None) rs)"
  by (induction rs rule: collect_replies.induct) auto

lemma malformed_reply_ends_discovery: "monitor_info True False (\<lambda>_. [Some x, None, Some y]) n = Inr [x]"
  by (simp add: monitor_info_def monitor_def)

lemma one_executor: "get_executor g = (p, g') \<Longrightarrow> get_executor g' = (p, g')"
  by (auto simp: get_executor_def split: option.splits)

end
